(* ===== verification/OG_Prelude.thy ===== *)
theory OG_Prelude
  imports Main "HOL-Library.Word"
begin

text \<open>
  Shared vocabulary of the development: the machine integer types of the C++ sources,
  the result type of a function that may raise an error, and the generic facts on lists,
  bits and arithmetic that the component theories use.
\<close>

unbundle bit_operations_syntax

named_theorems tuple_simps \<open>unfolding rules of the tuple header macros\<close>
named_theorems hint_simps \<open>effect of setting a hint bit\<close>

type_synonym uint8 = "8 word"
type_synonym uint16 = "16 word"
type_synonym uint32 = "32 word"
type_synonym uint64 = "64 word"

section \<open>Checking a table entry by entry\<close>

fun check_from :: "(nat \<Rightarrow> 'a \<Rightarrow> bool) \<Rightarrow> nat \<Rightarrow> 'a list \<Rightarrow> bool" where
  "check_from P i [] = True"
| "check_from P i (x # xs) = (P i x \<and> check_from P (i + 1) xs)"

lemma check_from_nth: "check_from P i xs \<Longrightarrow> j < length xs \<Longrightarrow> P (i + j) (xs ! j)"
proof (induction xs arbitrary: i j)
  case (Cons x xs)
  then show ?case by (cases j) fastforce+
qed simp

section \<open>Results that may be an error\<close>

fun result_bind :: "'e + 'a \<Rightarrow> ('a \<Rightarrow> 'e + 'b) \<Rightarrow> 'e + 'b" where
  "result_bind (Inl e) f = Inl e"
| "result_bind (Inr x) f = f x"

lemma result_bind_Inr_iff:
  "result_bind m f = Inr y \<longleftrightarrow> (\<exists>x. m = Inr x \<and> f x = Inr y)"
  by (cases m) auto

lemma result_bind_return [simp]: "result_bind m Inr = m"
  by (cases m) auto

lemma result_bind_assoc:
  "result_bind (result_bind m f) g = result_bind m (\<lambda>x. result_bind (f x) g)"
  by (cases m) auto

text \<open>A loop over a list that threads a state and stops at the first error.\<close>

fun for_each :: "('x \<Rightarrow> 's \<Rightarrow> 'e + 's) \<Rightarrow> 'x list \<Rightarrow> 's \<Rightarrow> 'e + 's" where
  "for_each f [] s = Inr s"
| "for_each f (x # xs) s = result_bind (f x s) (for_each f xs)"

lemma for_each_append:
  "for_each f (xs @ ys) s = result_bind (for_each f xs s) (for_each f ys)"
proof (induction xs arbitrary: s)
  case (Cons x xs)
  then show ?case by (cases "f x s") auto
qed simp

section \<open>Bits of words\<close>

lemma word_zero_iff_bits: "(w :: 'a::len word) = 0 \<longleftrightarrow> (\<forall>n < LENGTH('a). \<not> bit w n)"
  by (auto simp: bit_eq_iff dest: bit_imp_le_length)

lemma word_and_not_zero_iff:
  "(a :: 'a::len word) AND NOT b = 0 \<longleftrightarrow> (\<forall>n < LENGTH('a). bit a n \<longrightarrow> bit b n)"
  by (auto simp: word_zero_iff_bits bit_and_iff bit_not_iff)

lemma word_and_zero_iff:
  "(a :: 'a::len word) AND b = 0 \<longleftrightarrow> (\<forall>n < LENGTH('a). \<not> (bit a n \<and> bit b n))"
  by (auto simp: word_zero_iff_bits bit_and_iff)

lemma word_eq_iff_bits: "(a :: 'a::len word) = b \<longleftrightarrow> (\<forall>n < LENGTH('a). bit a n = bit b n)"
  by (auto simp: bit_eq_iff)

end
