(* ===== verification/Bit_Utils.thy ===== *)
theory Bit_Utils
  imports OG_Prelude
begin

text \<open>
  The bit-twiddling helpers of \<^verbatim>\<open>port/pg_bitutils.h\<close> and \<^verbatim>\<open>common/port/pg_bitutils.cpp\<close>: the
  byte tables and the portable loops over them. The lemmas show that the loops compute
  the position of the lowest set bit and the number of set bits, that is, the values of
  the compiler builtins which the other branch of the conditional compilation uses.
\<close>

section \<open>Tables and loops\<close>

definition pg_rightmost_one_pos :: "nat list" where
  "pg_rightmost_one_pos = [
     0, 0, 1, 0, 2, 0, 1, 0, 3, 0, 1, 0, 2, 0, 1, 0,
     4, 0, 1, 0, 2, 0, 1, 0, 3, 0, 1, 0, 2, 0, 1, 0,
     5, 0, 1, 0, 2, 0, 1, 0, 3, 0, 1, 0, 2, 0, 1, 0,
     4, 0, 1, 0, 2, 0, 1, 0, 3, 0, 1, 0, 2, 0, 1, 0,
     6, 0, 1, 0, 2, 0, 1, 0, 3, 0, 1, 0, 2, 0, 1, 0,
     4, 0, 1, 0, 2, 0, 1, 0, 3, 0, 1, 0, 2, 0, 1, 0,
     5, 0, 1, 0, 2, 0, 1, 0, 3, 0, 1, 0, 2, 0, 1, 0,
     4, 0, 1, 0, 2, 0, 1, 0, 3, 0, 1, 0, 2, 0, 1, 0,
     7, 0, 1, 0, 2, 0, 1, 0, 3, 0, 1, 0, 2, 0, 1, 0,
     4, 0, 1, 0, 2, 0, 1, 0, 3, 0, 1, 0, 2, 0, 1, 0,
     5, 0, 1, 0, 2, 0, 1, 0, 3, 0, 1, 0, 2, 0, 1, 0,
     4, 0, 1, 0, 2, 0, 1, 0, 3, 0, 1, 0, 2, 0, 1, 0,
     6, 0, 1, 0, 2, 0, 1, 0, 3, 0, 1, 0, 2, 0, 1, 0,
     4, 0, 1, 0, 2, 0, 1, 0, 3, 0, 1, 0, 2, 0, 1, 0,
     5, 0, 1, 0, 2, 0, 1, 0, 3, 0, 1, 0, 2, 0, 1, 0,
     4, 0, 1, 0, 2, 0, 1, 0, 3, 0, 1, 0, 2, 0, 1, 0]"

definition pg_number_of_ones :: "nat list" where
  "pg_number_of_ones = [
     0, 1, 1, 2, 1, 2, 2, 3, 1, 2, 2, 3, 2, 3, 3, 4,
     1, 2, 2, 3, 2, 3, 3, 4, 2, 3, 3, 4, 3, 4, 4, 5,
     1, 2, 2, 3, 2, 3, 3, 4, 2, 3, 3, 4, 3, 4, 4, 5,
     2, 3, 3, 4, 3, 4, 4, 5, 3, 4, 4, 5, 4, 5, 5, 6,
     1, 2, 2, 3, 2, 3, 3, 4, 2, 3, 3, 4, 3, 4, 4, 5,
     2, 3, 3, 4, 3, 4, 4, 5, 3, 4, 4, 5, 4, 5, 5, 6,
     2, 3, 3, 4, 3, 4, 4, 5, 3, 4, 4, 5, 4, 5, 5, 6,
     3, 4, 4, 5, 4, 5, 5, 6, 4, 5, 5, 6, 5, 6, 6, 7,
     1, 2, 2, 3, 2, 3, 3, 4, 2, 3, 3, 4, 3, 4, 4, 5,
     2, 3, 3, 4, 3, 4, 4, 5, 3, 4, 4, 5, 4, 5, 5, 6,
     2, 3, 3, 4, 3, 4, 4, 5, 3, 4, 4, 5, 4, 5, 5, 6,
     3, 4, 4, 5, 4, 5, 5, 6, 4, 5, 5, 6, 5, 6, 6, 7,
     2, 3, 3, 4, 3, 4, 4, 5, 3, 4, 4, 5, 4, 5, 5, 6,
     3, 4, 4, 5, 4, 5, 5, 6, 4, 5, 5, 6, 5, 6, 6, 7,
     3, 4, 4, 5, 4, 5, 5, 6, 4, 5, 5, 6, 5, 6, 6, 7,
     4, 5, 5, 6, 5, 6, 6, 7, 5, 6, 6, 7, 6, 7, 7, 8]"

lemma drop_bit_8_less: "w \<noteq> 0 \<Longrightarrow> unat (drop_bit 8 (w :: uint32)) < unat w"
  by (simp add: drop_bit_eq_div unat_div_distrib unat_gt_0)

text \<open>
  The loop of \<^verbatim>\<open>pg_rightmost_one_pos32\<close> is entered with a nonzero word only (the source
  asserts it); on a zero word, where the C loop would not end, the model stops.
\<close>

function pg_rightmost_one_pos32_loop :: "uint32 \<Rightarrow> nat \<Rightarrow> nat" where
  "pg_rightmost_one_pos32_loop word result =
     (if word = 0 then result
      else if word AND 255 = 0 then pg_rightmost_one_pos32_loop (drop_bit 8 word) (result + 8)
      else result + pg_rightmost_one_pos ! unat (word AND 255))"
  by pat_completeness auto
termination
  by (relation "measure (\<lambda>(w, r). unat w)") (auto simp: drop_bit_8_less)

definition pg_rightmost_one_pos32 :: "uint32 \<Rightarrow> nat" where
  "pg_rightmost_one_pos32 word = pg_rightmost_one_pos32_loop word 0"

function pg_popcount32_loop :: "uint32 \<Rightarrow> nat \<Rightarrow> nat" where
  "pg_popcount32_loop word result =
     (if word \<noteq> 0
      then pg_popcount32_loop (drop_bit 8 word) (result + pg_number_of_ones ! unat (word AND 255))
      else result)"
  by pat_completeness auto
termination
  by (relation "measure (\<lambda>(w, r). unat w)") (auto simp: drop_bit_8_less)

definition pg_popcount32_slow :: "uint32 \<Rightarrow> nat" where
  "pg_popcount32_slow word = pg_popcount32_loop word 0"

declare pg_rightmost_one_pos32_loop.simps [simp del] pg_popcount32_loop.simps [simp del]

section \<open>The tables hold what their comments say\<close>

lemma nat_bit_low_zero: "(b :: nat) mod 2 ^ t = 0 \<Longrightarrow> j < t \<Longrightarrow> \<not> bit b j"
  by (metis bit_0_eq bit_take_bit_iff bot_apply bot_bool_def take_bit_eq_mod)

lemma rightmost_table:
  assumes "b < 256" "b \<noteq> 0"
  shows "bit b (pg_rightmost_one_pos ! b) \<and> pg_rightmost_one_pos ! b < 8
     \<and> (\<forall>j < pg_rightmost_one_pos ! b. \<not> bit b j)"
proof -
  let ?P = "\<lambda>b t. b = 0 \<or> (t < 8 \<and> b mod 2 ^ t = 0 \<and> odd (b div 2 ^ t))"
  have "check_from ?P 0 pg_rightmost_one_pos"
    unfolding pg_rightmost_one_pos_def by simp
  moreover have "b < length pg_rightmost_one_pos"
    using assms by (simp add: pg_rightmost_one_pos_def)
  ultimately have "?P (0 + b) (pg_rightmost_one_pos ! b)" by (rule check_from_nth)
  then have t: "pg_rightmost_one_pos ! b < 8" "b mod 2 ^ (pg_rightmost_one_pos ! b) = 0"
    "bit b (pg_rightmost_one_pos ! b)"
    using assms by (auto simp: bit_iff_odd)
  from nat_bit_low_zero [OF t(2)] t show ?thesis by blast
qed

definition ones8 :: "nat \<Rightarrow> nat" where
  "ones8 b = b mod 2 + b div 2 mod 2 + b div 4 mod 2 + b div 8 mod 2
     + b div 16 mod 2 + b div 32 mod 2 + b div 64 mod 2 + b div 128 mod 2"

lemma ones8_card: "ones8 b = card {i. i < 8 \<and> bit b i}"
proof -
  have "card {i. i < 8 \<and> bit b i} = (\<Sum>i<8. of_bool (bit b i))"
    by (simp add: sum_of_bool_eq) (rule arg_cong [of _ _ card], auto)
  also have "\<dots> = (\<Sum>i<8. b div 2 ^ i mod 2)"
    by (rule sum.cong) (simp_all add: bit_iff_odd odd_iff_mod_2_eq_one)
  also have "\<dots> = ones8 b"
    by (simp add: ones8_def lessThan_nat_numeral lessThan_Suc add_ac flip: numeral_2_eq_2)
  finally show ?thesis by simp
qed

lemma ones_table:
  assumes "b < 256"
  shows "pg_number_of_ones ! b = card {i. i < 8 \<and> bit b i}"
proof -
  have "check_from (\<lambda>b t. t = ones8 b) 0 pg_number_of_ones"
    unfolding pg_number_of_ones_def by (simp add: ones8_def)
  moreover have "b < length pg_number_of_ones"
    using assms by (simp add: pg_number_of_ones_def)
  ultimately have "pg_number_of_ones ! b = ones8 (0 + b)" by (rule check_from_nth)
  then show ?thesis by (simp add: ones8_card)
qed

section \<open>Lowest set bit and number of set bits\<close>

lemma low_byte_bits: "bit (unat ((w :: uint32) AND 255)) i \<longleftrightarrow> i < 8 \<and> bit w i"
proof -
  have "w AND 255 = take_bit 8 w"
    by (simp add: take_bit_eq_mask mask_eq_exp_minus_1)
  then show ?thesis
    by (simp add: unsigned_take_bit_eq bit_take_bit_iff bit_unsigned_iff conj_commute)
qed

lemma low_byte_less: "unat ((w :: uint32) AND 255) < 256"
proof -
  have "w AND 255 = take_bit 8 w"
    by (simp add: take_bit_eq_mask mask_eq_exp_minus_1)
  then have "unat (w AND 255) = take_bit 8 (unat w)"
    by (simp only: unsigned_take_bit_eq)
  then show ?thesis by (simp add: take_bit_eq_mod)
qed

lemma rightmost_loop:
  "w \<noteq> 0 \<Longrightarrow> \<exists>p. pg_rightmost_one_pos32_loop w r = r + p \<and> bit w p \<and> (\<forall>j < p. \<not> bit w j)"
proof (induction w r rule: pg_rightmost_one_pos32_loop.induct)
  case (1 w r)
  show ?case
  proof (cases "w AND 255 = 0")
    case True
    have low: "\<not> bit w i" if "i < 8" for i
      using low_byte_bits [of w i] True that by simp
    obtain n where n: "bit w n" using "1.prems" by (auto simp: word_zero_iff_bits)
    with low have "n \<ge> 8" by (meson not_less)
    with n have "bit (drop_bit 8 w) (n - 8)" by (simp add: bit_drop_bit_eq)
    then have "drop_bit 8 w \<noteq> 0" by (metis bit_0_eq bot_apply bot_bool_def)
    from "1.IH" [OF "1.prems" True this] obtain p where p:
      "pg_rightmost_one_pos32_loop (drop_bit 8 w) (r + 8) = r + 8 + p"
      "bit (drop_bit 8 w) p" "\<forall>j < p. \<not> bit (drop_bit 8 w) j"
      by blast
    have "\<not> bit w j" if "j < 8 + p" for j
    proof (cases "j < 8")
      case False
      then have "j - 8 < p" using that by simp
      with p(3) have "\<not> bit (drop_bit 8 w) (j - 8)" by blast
      with False show ?thesis by (simp add: bit_drop_bit_eq)
    qed (rule low)
    with p(1,2) True "1.prems" show ?thesis
      by (intro exI [of _ "8 + p"])
        (auto simp: pg_rightmost_one_pos32_loop.simps [of w r] bit_drop_bit_eq add_ac)
  next
    case False
    let ?b = "unat (w AND 255)"
    let ?p = "pg_rightmost_one_pos ! ?b"
    from False have nz: "?b \<noteq> 0" by (simp add: unat_eq_zero)
    from rightmost_table [OF low_byte_less nz]
    have "bit w ?p" "?p < 8" "\<forall>j < ?p. \<not> bit w j"
      by (auto simp: low_byte_bits)
    with False "1.prems" show ?thesis
      by (intro exI [of _ ?p]) (simp add: pg_rightmost_one_pos32_loop.simps [of w r])
  qed
qed

lemma rightmost_one_pos:
  assumes "w \<noteq> 0"
  shows "bit w (pg_rightmost_one_pos32 w)" and "j < pg_rightmost_one_pos32 w \<Longrightarrow> \<not> bit w j"
  using rightmost_loop [OF assms, of 0] by (auto simp: pg_rightmost_one_pos32_def)

lemma rightmost_one_pos_less: "w \<noteq> 0 \<Longrightarrow> pg_rightmost_one_pos32 w < 32"
  using rightmost_one_pos(1) [of w] bit_imp_le_length by fastforce

lemma card_bits_split:
  "card {i. bit (w :: uint32) i} = card {i. i < 8 \<and> bit w i} + card {i. bit (drop_bit 8 w) i}"
proof -
  have fin: "finite {i. bit (drop_bit 8 w) i}"
    by (rule finite_subset [of _ "{..<32}"]) (auto dest: bit_imp_le_length)
  have eq: "{i. bit w i} = {i. i < 8 \<and> bit w i} \<union> (\<lambda>i. i + 8) ` {i. bit (drop_bit 8 w) i}"
  proof (intro set_eqI iffI)
    fix i assume i: "i \<in> {i. bit w i}"
    show "i \<in> {i. i < 8 \<and> bit w i} \<union> (\<lambda>i. i + 8) ` {i. bit (drop_bit 8 w) i}"
    proof (cases "i < 8")
      case False
      then have "i = (i - 8) + 8" "bit (drop_bit 8 w) (i - 8)" using i
        by (auto simp: bit_drop_bit_eq)
      then show ?thesis by blast
    qed (use i in auto)
  qed (auto simp: bit_drop_bit_eq add_ac)
  have "card ((\<lambda>i. i + 8) ` {i. bit (drop_bit 8 w) i}) = card {i. bit (drop_bit 8 w) i}"
    by (rule card_image) (auto simp: inj_on_def)
  then show ?thesis unfolding eq using fin by (subst card_Un_disjoint) auto
qed

lemma popcount_loop: "pg_popcount32_loop w r = r + card {i. bit w i}"
proof (induction w r rule: pg_popcount32_loop.induct)
  case (1 w r)
  show ?case
  proof (cases "w = 0")
    case False
    have "pg_number_of_ones ! unat (w AND 255) = card {i. i < 8 \<and> bit w i}"
      by (subst ones_table [OF low_byte_less]) (simp add: low_byte_bits conj_ac)
    with 1 False show ?thesis
      by (simp add: pg_popcount32_loop.simps [of w r] card_bits_split [of w])
  qed (simp add: pg_popcount32_loop.simps)
qed

lemma popcount_card: "pg_popcount32_slow w = card {i. bit w i}"
  by (simp add: pg_popcount32_slow_def popcount_loop)

text \<open>
  The trick of \<^verbatim>\<open>RIGHTMOST_ONE\<close>: anding a word with its two's complement negative keeps
  exactly the lowest set bit.
\<close>

lemma odd_and_minus:
  fixes v :: "'a::len word"
  assumes "bit v 0"
  shows "v AND - v = 1"
proof -
  have "v - 1 = v AND NOT 1"
    using assms by (intro disjunctive_diff) (auto simp: bit_1_iff)
  then have "bit (- v) n \<longleftrightarrow> n < LENGTH('a) \<and> \<not> (bit v n \<and> n \<noteq> 0)" for n
    by (auto simp: bit_minus_iff bit_and_iff bit_not_iff bit_1_iff)
  then show ?thesis
    using assms by (intro bit_eqI) (auto simp: bit_and_iff bit_1_iff)
qed

lemma and_minus_lowest:
  fixes w :: "'a::len word"
  assumes "bit w p" and low: "\<And>j. j < p \<Longrightarrow> \<not> bit w j"
  shows "w AND - w = push_bit p 1"
proof -
  let ?v = "drop_bit p w"
  have w: "w = push_bit p ?v"
  proof (intro bit_eqI)
    fix n assume "possible_bit TYPE('a word) n"
    then show "bit w n = bit (push_bit p ?v) n"
      using low [of n] by (cases "n < p") (auto simp: bit_push_bit_iff bit_drop_bit_eq)
  qed
  then have "w AND - w = push_bit p (?v AND - ?v)"
    by (metis push_bit_and push_bit_minus)
  also have "?v AND - ?v = 1"
    using assms(1) by (intro odd_and_minus) (simp add: bit_drop_bit_eq)
  finally show ?thesis .
qed

end
