(* ===== verification/Bitmapset_Model.thy ===== *)
theory Bitmapset_Model
  imports Bit_Utils
begin

text \<open>
  The bitmap set package \<^verbatim>\<open>common/backend/nodes/bitmapset.cpp\<close>, every operation of the file.
  A \<^verbatim>\<open>Bitmapset *\<close> is \<open>None\<close> for the null pointer, which the package uses for the empty set,
  and otherwise a record holding the array of words; \<^verbatim>\<open>nwords\<close> is the length of that array.
  Operations that recycle their input return the new value; an \<^verbatim>\<open>ereport(ERROR)\<close> is an \<open>Inl\<close>.
  Members and positions are C \<^verbatim>\<open>int\<close>s, modelled by unbounded \<open>int\<close>s: \<open>bms_members_int32\<close>
  shows that no value computed from a set of at most \<open>2 ^ 26\<close> words leaves the 32-bit range.
\<close>

section \<open>Data representation\<close>

type_synonym bitmapword = uint32

record Bitmapset =
  bms_words :: "bitmapword list"

type_synonym bms = "Bitmapset option"

datatype BMS_Comparison = BMS_EQUAL | BMS_SUBSET1 | BMS_SUBSET2 | BMS_DIFFERENT

datatype BMS_Membership = BMS_EMPTY_SET | BMS_SINGLETON | BMS_MULTIPLE

datatype bms_error =
    Negative_Member      \<comment> \<open>negative bitmapset member not allowed\<close>
  | Bitmapset_Empty      \<comment> \<open>bitmapset is empty\<close>
  | Multiple_Members     \<comment> \<open>bitmapset has multiple members\<close>
  | Prevbit_Too_Small    \<comment> \<open>The parameter can not smaller than -1.\<close>

definition nwords :: "Bitmapset \<Rightarrow> nat" where
  "nwords a = length (bms_words a)"

definition WORDNUM :: "int \<Rightarrow> nat" where
  "WORDNUM x = nat (x div 32)"

definition BITNUM :: "int \<Rightarrow> nat" where
  "BITNUM x = nat (x mod 32)"

definition RIGHTMOST_ONE :: "bitmapword \<Rightarrow> bitmapword" where
  "RIGHTMOST_ONE x = x AND - x"

definition HAS_MULTIPLE_ONES :: "bitmapword \<Rightarrow> bool" where
  "HAS_MULTIPLE_ONES x \<longleftrightarrow> RIGHTMOST_ONE x \<noteq> x"

section \<open>Copying, comparing, building\<close>

definition bms_copy :: "bms \<Rightarrow> bms" where
  "bms_copy a = (case a of None \<Rightarrow> None | Some s \<Rightarrow> Some \<lparr>bms_words = bms_words s\<rparr>)"

fun all_zero :: "bitmapword list \<Rightarrow> bool" where
  "all_zero [] = True"
| "all_zero (w # ws) = (if w \<noteq> 0 then False else all_zero ws)"

definition bms_is_empty :: "bms \<Rightarrow> bool" where
  "bms_is_empty a = (case a of None \<Rightarrow> True | Some s \<Rightarrow> all_zero (bms_words s))"

text \<open>
  The two loops of \<^verbatim>\<open>bms_equal\<close>, over the shorter and the longer array; the last
  equation is never used, since the first argument is the shorter array.
\<close>

fun equal_loop :: "bitmapword list \<Rightarrow> bitmapword list \<Rightarrow> bool" where
  "equal_loop [] longer = all_zero longer"
| "equal_loop (x # shorter) (y # longer) = (if x \<noteq> y then False else equal_loop shorter longer)"
| "equal_loop (x # shorter) [] = False"

definition bms_equal :: "bms \<Rightarrow> bms \<Rightarrow> bool" where
  "bms_equal a b =
     (case a of
        None \<Rightarrow> (case b of None \<Rightarrow> True | Some t \<Rightarrow> bms_is_empty b)
      | Some s \<Rightarrow>
          (case b of
             None \<Rightarrow> bms_is_empty a
           | Some t \<Rightarrow>
               if nwords s \<le> nwords t then equal_loop (bms_words s) (bms_words t)
               else equal_loop (bms_words t) (bms_words s)))"

definition bms_make_singleton :: "int \<Rightarrow> bms_error + bms" where
  "bms_make_singleton x =
     (if x < 0 then Inl Negative_Member
      else Inr (Some \<lparr>bms_words = (replicate (WORDNUM x + 1) 0)[WORDNUM x := push_bit (BITNUM x) 1]\<rparr>))"

section \<open>Set algebra with a fresh result\<close>

fun or_words :: "bitmapword list \<Rightarrow> bitmapword list \<Rightarrow> bitmapword list" where
  "or_words (r # result) (x # other) = (r OR x) # or_words result other"
| "or_words result [] = result"
| "or_words [] (x # other) = []"

fun and_words :: "bitmapword list \<Rightarrow> bitmapword list \<Rightarrow> bitmapword list" where
  "and_words (r # result) (x # other) = (r AND x) # and_words result other"
| "and_words result [] = result"
| "and_words [] (x # other) = []"

fun and_not_words :: "bitmapword list \<Rightarrow> bitmapword list \<Rightarrow> bitmapword list" where
  "and_not_words (r # result) (x # other) = (r AND NOT x) # and_not_words result other"
| "and_not_words result [] = result"
| "and_not_words [] (x # other) = []"

definition bms_union :: "bms \<Rightarrow> bms \<Rightarrow> bms" where
  "bms_union a b =
     (case a of
        None \<Rightarrow> bms_copy b
      | Some s \<Rightarrow>
          (case b of
             None \<Rightarrow> bms_copy a
           | Some t \<Rightarrow>
               if nwords s \<le> nwords t then Some \<lparr>bms_words = or_words (bms_words t) (bms_words s)\<rparr>
               else Some \<lparr>bms_words = or_words (bms_words s) (bms_words t)\<rparr>))"

definition bms_intersect :: "bms \<Rightarrow> bms \<Rightarrow> bms" where
  "bms_intersect a b =
     (case a of
        None \<Rightarrow> None
      | Some s \<Rightarrow>
          (case b of
             None \<Rightarrow> None
           | Some t \<Rightarrow>
               if nwords s \<le> nwords t then Some \<lparr>bms_words = and_words (bms_words s) (bms_words t)\<rparr>
               else Some \<lparr>bms_words = and_words (bms_words t) (bms_words s)\<rparr>))"

definition bms_difference :: "bms \<Rightarrow> bms \<Rightarrow> bms" where
  "bms_difference a b =
     (case a of
        None \<Rightarrow> None
      | Some s \<Rightarrow>
          (case b of
             None \<Rightarrow> bms_copy a
           | Some t \<Rightarrow> Some \<lparr>bms_words = and_not_words (bms_words s) (bms_words t)\<rparr>))"

section \<open>Tests\<close>

text \<open>The loops run over the common words and then over the extra words of the longer array.\<close>

fun subset_loop :: "bitmapword list \<Rightarrow> bitmapword list \<Rightarrow> bool" where
  "subset_loop (x # a) (y # b) = (if x AND NOT y \<noteq> 0 then False else subset_loop a b)"
| "subset_loop a [] = all_zero a"
| "subset_loop [] (y # b) = True"

definition bms_is_subset :: "bms \<Rightarrow> bms \<Rightarrow> bool" where
  "bms_is_subset a b =
     (case a of
        None \<Rightarrow> True
      | Some s \<Rightarrow>
          (case b of
             None \<Rightarrow> bms_is_empty a
           | Some t \<Rightarrow> subset_loop (bms_words s) (bms_words t)))"

text \<open>
  \<open>not_subset_ab\<close> is the step of \<^verbatim>\<open>bms_subset_compare\<close> taken where a word shows that \<open>a\<close> is
  not a subset of \<open>b\<close>, \<open>not_subset_ba\<close> the one for the other direction; \<open>None\<close> is the early
  \<^verbatim>\<open>return BMS_DIFFERENT\<close>.
\<close>

definition not_subset_ab :: "BMS_Comparison \<Rightarrow> BMS_Comparison option" where
  "not_subset_ab result = (if result = BMS_SUBSET1 then None else Some BMS_SUBSET2)"

definition not_subset_ba :: "BMS_Comparison \<Rightarrow> BMS_Comparison option" where
  "not_subset_ba result = (if result = BMS_SUBSET2 then None else Some BMS_SUBSET1)"

fun compare_loop :: "BMS_Comparison \<Rightarrow> bitmapword list \<Rightarrow> bitmapword list \<Rightarrow> BMS_Comparison" where
  "compare_loop result [] [] = result"
| "compare_loop result (aword # a) (bword # b) =
     (case (if aword AND NOT bword \<noteq> 0 then not_subset_ab result else Some result) of
        None \<Rightarrow> BMS_DIFFERENT
      | Some result1 \<Rightarrow>
          (case (if bword AND NOT aword \<noteq> 0 then not_subset_ba result1 else Some result1) of
             None \<Rightarrow> BMS_DIFFERENT
           | Some result2 \<Rightarrow> compare_loop result2 a b))"
| "compare_loop result (aword # a) [] =
     (case (if aword \<noteq> 0 then not_subset_ab result else Some result) of
        None \<Rightarrow> BMS_DIFFERENT
      | Some result1 \<Rightarrow> compare_loop result1 a [])"
| "compare_loop result [] (bword # b) =
     (case (if bword \<noteq> 0 then not_subset_ba result else Some result) of
        None \<Rightarrow> BMS_DIFFERENT
      | Some result1 \<Rightarrow> compare_loop result1 [] b)"

definition bms_subset_compare :: "bms \<Rightarrow> bms \<Rightarrow> BMS_Comparison" where
  "bms_subset_compare a b =
     (case a of
        None \<Rightarrow>
          (case b of
             None \<Rightarrow> BMS_EQUAL
           | Some t \<Rightarrow> if bms_is_empty b then BMS_EQUAL else BMS_SUBSET1)
      | Some s \<Rightarrow>
          (case b of
             None \<Rightarrow> if bms_is_empty a then BMS_EQUAL else BMS_SUBSET2
           | Some t \<Rightarrow> compare_loop BMS_EQUAL (bms_words s) (bms_words t)))"

definition bms_is_member :: "int \<Rightarrow> bms \<Rightarrow> bms_error + bool" where
  "bms_is_member x a =
     (if x < 0 then Inl Negative_Member
      else
        (case a of
           None \<Rightarrow> Inr False
         | Some s \<Rightarrow>
             if WORDNUM x \<ge> nwords s then Inr False
             else if bms_words s ! WORDNUM x AND push_bit (BITNUM x) 1 \<noteq> 0 then Inr True
             else Inr False))"

fun overlap_loop :: "bitmapword list \<Rightarrow> bitmapword list \<Rightarrow> bool" where
  "overlap_loop (x # a) (y # b) = (if x AND y \<noteq> 0 then True else overlap_loop a b)"
| "overlap_loop _ _ = False"

definition bms_overlap :: "bms \<Rightarrow> bms \<Rightarrow> bool" where
  "bms_overlap a b =
     (case a of
        None \<Rightarrow> False
      | Some s \<Rightarrow>
          (case b of None \<Rightarrow> False | Some t \<Rightarrow> overlap_loop (bms_words s) (bms_words t)))"

fun nonempty_difference_loop :: "bitmapword list \<Rightarrow> bitmapword list \<Rightarrow> bool" where
  "nonempty_difference_loop (x # a) (y # b) =
     (if x AND NOT y \<noteq> 0 then True else nonempty_difference_loop a b)"
| "nonempty_difference_loop (x # a) [] =
     (if x \<noteq> 0 then True else nonempty_difference_loop a [])"
| "nonempty_difference_loop [] b = False"

definition bms_nonempty_difference :: "bms \<Rightarrow> bms \<Rightarrow> bool" where
  "bms_nonempty_difference a b =
     (case a of
        None \<Rightarrow> False
      | Some s \<Rightarrow>
          (case b of
             None \<Rightarrow> \<not> bms_is_empty a
           | Some t \<Rightarrow> nonempty_difference_loop (bms_words s) (bms_words t)))"

section \<open>Counting\<close>

fun singleton_loop :: "bitmapword list \<Rightarrow> int \<Rightarrow> int \<Rightarrow> bms_error + int" where
  "singleton_loop [] wordnum result = (if result < 0 then Inl Bitmapset_Empty else Inr result)"
| "singleton_loop (w # ws) wordnum result =
     (if w \<noteq> 0 then
        (if result \<ge> 0 \<or> HAS_MULTIPLE_ONES w then Inl Multiple_Members
         else singleton_loop ws (wordnum + 1) (wordnum * 32 + int (pg_rightmost_one_pos32 w)))
      else singleton_loop ws (wordnum + 1) result)"

definition bms_singleton_member :: "bms \<Rightarrow> bms_error + int" where
  "bms_singleton_member a =
     (case a of None \<Rightarrow> Inl Bitmapset_Empty | Some s \<Rightarrow> singleton_loop (bms_words s) 0 (-1))"

fun num_members_loop :: "bitmapword list \<Rightarrow> int \<Rightarrow> int" where
  "num_members_loop [] result = result"
| "num_members_loop (w # ws) result =
     (if w \<noteq> 0 then num_members_loop ws (result + int (pg_popcount32_slow w))
      else num_members_loop ws result)"

definition bms_num_members :: "bms \<Rightarrow> int" where
  "bms_num_members a = (case a of None \<Rightarrow> 0 | Some s \<Rightarrow> num_members_loop (bms_words s) 0)"

fun membership_loop :: "bitmapword list \<Rightarrow> BMS_Membership \<Rightarrow> BMS_Membership" where
  "membership_loop [] result = result"
| "membership_loop (w # ws) result =
     (if w \<noteq> 0 then
        (if result \<noteq> BMS_EMPTY_SET \<or> HAS_MULTIPLE_ONES w then BMS_MULTIPLE
         else membership_loop ws BMS_SINGLETON)
      else membership_loop ws result)"

definition bms_membership :: "bms \<Rightarrow> BMS_Membership" where
  "bms_membership a =
     (case a of None \<Rightarrow> BMS_EMPTY_SET | Some s \<Rightarrow> membership_loop (bms_words s) BMS_EMPTY_SET)"

section \<open>Operations that recycle their input\<close>

definition bms_add_member :: "bms \<Rightarrow> int \<Rightarrow> bms_error + bms" where
  "bms_add_member a x =
     (if x < 0 then Inl Negative_Member
      else
        (case a of
           None \<Rightarrow> bms_make_singleton x
         | Some s \<Rightarrow>
             if WORDNUM x \<ge> nwords s then
               (case bms_make_singleton x of
                  Inl e \<Rightarrow> Inl e
                | Inr None \<Rightarrow> Inr None
                | Inr (Some r) \<Rightarrow> Inr (Some \<lparr>bms_words = or_words (bms_words r) (bms_words s)\<rparr>))
             else
               Inr (Some (s\<lparr>bms_words := (bms_words s)
                 [WORDNUM x := bms_words s ! WORDNUM x OR push_bit (BITNUM x) 1]\<rparr>))))"

definition bms_del_member :: "bms \<Rightarrow> int \<Rightarrow> bms_error + bms" where
  "bms_del_member a x =
     (if x < 0 then Inl Negative_Member
      else
        (case a of
           None \<Rightarrow> Inr None
         | Some s \<Rightarrow>
             if WORDNUM x < nwords s then
               Inr (Some (s\<lparr>bms_words := (bms_words s)
                 [WORDNUM x := bms_words s ! WORDNUM x AND NOT (push_bit (BITNUM x) 1)]\<rparr>))
             else Inr (Some s)))"

definition bms_add_members :: "bms \<Rightarrow> bms \<Rightarrow> bms" where
  "bms_add_members a b =
     (case a of
        None \<Rightarrow> bms_copy b
      | Some s \<Rightarrow>
          (case b of
             None \<Rightarrow> a
           | Some t \<Rightarrow>
               if nwords s < nwords t then Some \<lparr>bms_words = or_words (bms_words t) (bms_words s)\<rparr>
               else Some \<lparr>bms_words = or_words (bms_words s) (bms_words t)\<rparr>))"

text \<open>The second loop of \<^verbatim>\<open>bms_int_members\<close> clears the words beyond the common ones.\<close>

fun int_words :: "bitmapword list \<Rightarrow> bitmapword list \<Rightarrow> bitmapword list" where
  "int_words (x # a) (y # b) = (x AND y) # int_words a b"
| "int_words a [] = replicate (length a) 0"
| "int_words [] (y # b) = []"

definition bms_int_members :: "bms \<Rightarrow> bms \<Rightarrow> bms" where
  "bms_int_members a b =
     (case a of
        None \<Rightarrow> None
      | Some s \<Rightarrow>
          (case b of
             None \<Rightarrow> None
           | Some t \<Rightarrow> Some \<lparr>bms_words = int_words (bms_words s) (bms_words t)\<rparr>))"

definition bms_del_members :: "bms \<Rightarrow> bms \<Rightarrow> bms" where
  "bms_del_members a b =
     (case a of
        None \<Rightarrow> None
      | Some s \<Rightarrow>
          (case b of
             None \<Rightarrow> a
           | Some t \<Rightarrow> Some \<lparr>bms_words = and_not_words (bms_words s) (bms_words t)\<rparr>))"

definition bms_join :: "bms \<Rightarrow> bms \<Rightarrow> bms" where
  "bms_join a b =
     (case a of
        None \<Rightarrow> b
      | Some s \<Rightarrow>
          (case b of
             None \<Rightarrow> a
           | Some t \<Rightarrow>
               if nwords s < nwords t then Some \<lparr>bms_words = or_words (bms_words t) (bms_words s)\<rparr>
               else Some \<lparr>bms_words = or_words (bms_words s) (bms_words t)\<rparr>))"

section \<open>Iteration, hashing and positions\<close>

text \<open>The result of \<^verbatim>\<open>bms_first_member\<close> is the member found and the modified set.\<close>

fun first_member_loop :: "bitmapword list \<Rightarrow> int \<Rightarrow> int \<times> bitmapword list" where
  "first_member_loop [] wordnum = (-1, [])"
| "first_member_loop (w # ws) wordnum =
     (if w \<noteq> 0 then
        (let w' = RIGHTMOST_ONE w
         in (wordnum * 32 + int (pg_rightmost_one_pos32 w'), (w AND NOT w') # ws))
      else (let (r, ws') = first_member_loop ws (wordnum + 1) in (r, w # ws')))"

definition bms_first_member :: "bms \<Rightarrow> int \<times> bms" where
  "bms_first_member a =
     (case a of
        None \<Rightarrow> (-1, None)
      | Some s \<Rightarrow>
          (let (r, ws) = first_member_loop (bms_words s) 0 in (r, Some (s\<lparr>bms_words := ws\<rparr>))))"

text \<open>
  \<open>hash_any\<close> is the hash of a byte array in \<^verbatim>\<open>access/hash/hashfunc.cpp\<close>, here a parameter applied
  to the words it reads. The loop strips the trailing zero words from the end of the array.
\<close>

fun strip_zero_words :: "bitmapword list \<Rightarrow> bitmapword list" where
  "strip_zero_words [] = []"
| "strip_zero_words (w # ws) =
     (case strip_zero_words ws of
        [] \<Rightarrow> (if w = 0 then [] else [w])
      | w' # ws' \<Rightarrow> w # w' # ws')"

definition bms_hash_value :: "(bitmapword list \<Rightarrow> uint32) \<Rightarrow> bms \<Rightarrow> uint32" where
  "bms_hash_value hash_any a =
     (case a of
        None \<Rightarrow> 0
      | Some s \<Rightarrow>
          (case strip_zero_words (bms_words s) of
             [] \<Rightarrow> 0
           | w # ws \<Rightarrow> hash_any (w # ws)))"

fun next_member_loop :: "bitmapword list \<Rightarrow> int \<Rightarrow> bitmapword \<Rightarrow> int" where
  "next_member_loop [] wordnum msk = -2"
| "next_member_loop (word # ws) wordnum msk =
     (let w = word AND msk
      in if w \<noteq> 0 then wordnum * 32 + int (pg_rightmost_one_pos32 w)
         else next_member_loop ws (wordnum + 1) (NOT 0))"

definition bms_next_member :: "bms \<Rightarrow> int \<Rightarrow> bms_error + int" where
  "bms_next_member a prevbit =
     (if prevbit < -1 then Inl Prevbit_Too_Small
      else
        (case a of
           None \<Rightarrow> Inr (-2)
         | Some s \<Rightarrow>
             (let prevbit1 = prevbit + 1
              in Inr (next_member_loop (drop (WORDNUM prevbit1) (bms_words s))
                   (int (WORDNUM prevbit1)) (push_bit (BITNUM prevbit1) (NOT 0))))))"

function skip_zero_bytes :: "bitmapword \<Rightarrow> int \<Rightarrow> bitmapword \<times> int" where
  "skip_zero_bytes w result =
     (if w \<noteq> 0 \<and> w AND 255 = 0 then skip_zero_bytes (drop_bit 8 w) (result + 8) else (w, result))"
  by pat_completeness auto
termination
  by (relation "measure (\<lambda>(w, r). unat w)") (auto simp: drop_bit_8_less)

declare skip_zero_bytes.simps [simp del]

fun get_singleton_loop :: "bitmapword list \<Rightarrow> int \<Rightarrow> int \<Rightarrow> int option" where
  "get_singleton_loop [] wordnum result = (if result < 0 then None else Some result)"
| "get_singleton_loop (w # ws) wordnum result =
     (if w \<noteq> 0 then
        (if result \<ge> 0 \<or> HAS_MULTIPLE_ONES w then None
         else
           (let (w', result') = skip_zero_bytes w (wordnum * 32)
            in get_singleton_loop ws (wordnum + 1) (result' + int (pg_rightmost_one_pos32 w'))))
      else get_singleton_loop ws (wordnum + 1) result)"

text \<open>\<^verbatim>\<open>bms_get_singleton_member\<close> returns false (\<open>None\<close>) or true with the member stored.\<close>

definition bms_get_singleton_member :: "bms \<Rightarrow> int option" where
  "bms_get_singleton_member a =
     (case a of None \<Rightarrow> None | Some s \<Rightarrow> get_singleton_loop (bms_words s) 0 (-1))"

definition bms_member_index :: "bms \<Rightarrow> int \<Rightarrow> bms_error + int" where
  "bms_member_index a x =
     (case bms_is_member x a of
        Inl e \<Rightarrow> Inl e
      | Inr False \<Rightarrow> Inr (-1)
      | Inr True \<Rightarrow>
          (case a of
             None \<Rightarrow> Inr (-1)
           | Some s \<Rightarrow>
               Inr (num_members_loop (take (WORDNUM x) (bms_words s)) 0
                 + int (pg_popcount32_slow
                     (bms_words s ! WORDNUM x AND (push_bit (BITNUM x) 1 - 1))))))"

end
