(* ===== verification/Bitmapset.thy ===== *)
theory Bitmapset
  imports Bitmapset_Model
begin

text \<open>
  Correctness of the bitmap set package. The abstraction \<open>bms_set\<close> maps a bitmap set to the
  set of its members; every operation of the package is related to the operation on sets that its
  comment announces. The interfaces of the package are the locales \<open>set_algebra\<close> and
  \<open>set_iteration\<close>, interpreted here on the operations of the package.
\<close>

section \<open>Abstraction\<close>

definition wnth :: "bitmapword list \<Rightarrow> nat \<Rightarrow> bitmapword" where
  "wnth ws k = (if k < length ws then ws ! k else 0)"

definition wset :: "bitmapword list \<Rightarrow> nat set" where
  "wset ws = {x. bit (wnth ws (x div 32)) (x mod 32)}"

definition bms_set :: "bms \<Rightarrow> nat set" where
  "bms_set a = (case a of None \<Rightarrow> {} | Some s \<Rightarrow> wset (bms_words s))"

lemma bms_set_None [simp]: "bms_set None = {}"
  by (simp add: bms_set_def)

lemma bms_set_Some [simp]: "bms_set (Some s) = wset (bms_words s)"
  by (simp add: bms_set_def)

lemma wnth_Nil [simp]: "wnth [] k = 0"
  by (simp add: wnth_def)

lemma wnth_Cons_0 [simp]: "wnth (w # ws) 0 = w"
  by (simp add: wnth_def)

lemma wnth_Cons_Suc [simp]: "wnth (w # ws) (Suc k) = wnth ws k"
  by (simp add: wnth_def)

lemma wnth_beyond: "length ws \<le> k \<Longrightarrow> wnth ws k = 0"
  by (simp add: wnth_def)

lemma wnth_replicate [simp]: "wnth (replicate n 0) k = 0"
  by (simp add: wnth_def)

lemma wnth_update: "i < length ws \<Longrightarrow> wnth (ws[i := w]) k = (if k = i then w else wnth ws k)"
  by (auto simp: wnth_def nth_list_update)

lemma wset_Nil [simp]: "wset [] = {}"
  by (simp add: wset_def)

text \<open>A member is a word number and a bit number below the word size.\<close>

lemma wset_iff: "i < 32 \<Longrightarrow> 32 * k + i \<in> wset ws \<longleftrightarrow> bit (wnth ws k) i"
  by (simp add: wset_def)

lemma wset_eqI: "(\<And>k. wnth as k = wnth bs k) \<Longrightarrow> wset as = wset bs"
  by (simp add: wset_def)

lemma wset_subset_iff: "wset as \<subseteq> wset bs \<longleftrightarrow> (\<forall>k. wnth as k AND NOT (wnth bs k) = 0)"
proof
  assume sub: "wset as \<subseteq> wset bs"
  show "\<forall>k. wnth as k AND NOT (wnth bs k) = 0"
    unfolding word_and_not_zero_iff
  proof (intro allI impI)
    fix k n assume "n < LENGTH(32)" "bit (wnth as k) n"
    with sub show "bit (wnth bs k) n"
      using wset_iff [of n k as] wset_iff [of n k bs] by auto
  qed
next
  assume "\<forall>k. wnth as k AND NOT (wnth bs k) = 0"
  then show "wset as \<subseteq> wset bs"
    unfolding word_and_not_zero_iff by (auto simp: wset_def)
qed

lemma wset_eq_iff: "wset as = wset bs \<longleftrightarrow> (\<forall>k. wnth as k = wnth bs k)"
proof
  assume eq: "wset as = wset bs"
  show "\<forall>k. wnth as k = wnth bs k"
    unfolding word_eq_iff_bits
  proof (intro allI impI)
    fix k n assume "n < LENGTH(32)"
    with eq show "bit (wnth as k) n = bit (wnth bs k) n"
      using wset_iff [of n k as] wset_iff [of n k bs] by auto
  qed
qed (simp add: wset_def)

lemma wset_disjoint_iff: "wset as \<inter> wset bs = {} \<longleftrightarrow> (\<forall>k. wnth as k AND wnth bs k = 0)"
proof
  assume dis: "wset as \<inter> wset bs = {}"
  show "\<forall>k. wnth as k AND wnth bs k = 0"
    unfolding word_and_zero_iff
  proof (intro allI impI)
    fix k n assume "n < LENGTH(32)"
    with dis show "\<not> (bit (wnth as k) n \<and> bit (wnth bs k) n)"
      using wset_iff [of n k as] wset_iff [of n k bs] by auto
  qed
next
  assume "\<forall>k. wnth as k AND wnth bs k = 0"
  then show "wset as \<inter> wset bs = {}"
    unfolding word_and_zero_iff by (auto simp: wset_def)
qed

lemma wset_empty_iff: "wset ws = {} \<longleftrightarrow> (\<forall>k. wnth ws k = 0)"
  using wset_eq_iff [of ws "[]"] by simp

lemma wnth_all_Cons: "(\<forall>k. P (wnth (w # ws) k) (wnth (v # vs) k)) \<longleftrightarrow>
    P w v \<and> (\<forall>k. P (wnth ws k) (wnth vs k))"
  by (metis wnth_Cons_0 wnth_Cons_Suc not0_implies_Suc)

lemma wnth_all_Cons_Nil: "(\<forall>k. wnth (w # ws) k = 0) \<longleftrightarrow> w = 0 \<and> (\<forall>k. wnth ws k = 0)"
  by (metis wnth_Cons_0 wnth_Cons_Suc not0_implies_Suc)

lemma wnth_ex_Cons_Nil: "(\<exists>k. wnth (w # ws) k \<noteq> 0) \<longleftrightarrow> w \<noteq> 0 \<or> (\<exists>k. wnth ws k \<noteq> 0)"
  using wnth_all_Cons_Nil [of w ws] by blast

section \<open>The loops, word by word\<close>

lemma all_zero_iff: "all_zero ws \<longleftrightarrow> (\<forall>k. wnth ws k = 0)"
  by (induction ws) (simp_all add: wnth_all_Cons_Nil)

lemma all_zero_wset: "all_zero ws \<longleftrightarrow> wset ws = {}"
  by (simp add: all_zero_iff wset_empty_iff)

lemma equal_loop_iff: "length as \<le> length bs \<Longrightarrow> equal_loop as bs \<longleftrightarrow> wset as = wset bs"
  unfolding wset_eq_iff
proof (induction as bs rule: equal_loop.induct)
  case (1 longer)
  then show ?case by (auto simp: all_zero_iff)
next
  case (2 x as y bs)
  then show ?case by (simp add: wnth_all_Cons [of "(=)"])
qed simp

lemma or_words_wnth: "length other \<le> length result \<Longrightarrow>
    wnth (or_words result other) k = wnth result k OR wnth other k"
proof (induction result other arbitrary: k rule: or_words.induct)
  case (1 r rs x xs)
  then show ?case by (cases k) auto
qed auto

lemma and_words_wnth: "length result \<le> length other \<Longrightarrow>
    wnth (and_words result other) k = wnth result k AND wnth other k"
proof (induction result other arbitrary: k rule: and_words.induct)
  case (1 r rs x xs)
  then show ?case by (cases k) auto
qed (auto simp: wnth_def)

lemma and_not_words_wnth: "wnth (and_not_words result other) k = wnth result k AND NOT (wnth other k)"
proof (induction result other arbitrary: k rule: and_not_words.induct)
  case (1 r rs x xs)
  then show ?case by (cases k) auto
qed auto

lemma int_words_wnth: "wnth (int_words as bs) k = wnth as k AND wnth bs k"
proof (induction as bs arbitrary: k rule: int_words.induct)
  case (1 x as y bs)
  then show ?case by (cases k) auto
qed auto

lemma wset_or: "length other \<le> length result \<Longrightarrow> wset (or_words result other) = wset result \<union> wset other"
  by (auto simp: wset_def or_words_wnth bit_or_iff)

lemma wset_and: "length result \<le> length other \<Longrightarrow> wset (and_words result other) = wset result \<inter> wset other"
  by (auto simp: wset_def and_words_wnth bit_and_iff)

lemma wset_and_not: "wset (and_not_words result other) = wset result - wset other"
  by (auto simp: wset_def and_not_words_wnth bit_and_iff bit_not_iff)

lemma wset_int: "wset (int_words as bs) = wset as \<inter> wset bs"
  by (auto simp: wset_def int_words_wnth bit_and_iff)

lemma subset_loop_iff: "subset_loop as bs \<longleftrightarrow> wset as \<subseteq> wset bs"
  unfolding wset_subset_iff
proof (induction as bs rule: subset_loop.induct)
  case (1 x as y bs)
  then show ?case by (simp add: wnth_all_Cons [of "\<lambda>a b. a AND NOT b = 0"])
qed (auto simp: all_zero_iff)

lemma overlap_loop_iff: "overlap_loop as bs \<longleftrightarrow> wset as \<inter> wset bs \<noteq> {}"
  unfolding wset_disjoint_iff
proof (induction as bs rule: overlap_loop.induct)
  case (1 x as y bs)
  then show ?case by (simp add: wnth_all_Cons [of "\<lambda>a b. a AND b = 0"])
qed auto

lemma nonempty_difference_loop_iff: "nonempty_difference_loop as bs \<longleftrightarrow> \<not> wset as \<subseteq> wset bs"
  unfolding wset_subset_iff
proof (induction as bs rule: nonempty_difference_loop.induct)
  case (1 x as y bs)
  then show ?case by (simp add: wnth_all_Cons [of "\<lambda>a b. a AND NOT b = 0"])
next
  case (2 x as)
  then show ?case by (simp add: wnth_ex_Cons_Nil)
qed auto

text \<open>The result of a comparison from whether each of the two inclusions holds.\<close>

definition comparison_of :: "bool \<Rightarrow> bool \<Rightarrow> BMS_Comparison" where
  "comparison_of sub12 sub21 =
     (if sub12 then (if sub21 then BMS_EQUAL else BMS_SUBSET1)
      else (if sub21 then BMS_SUBSET2 else BMS_DIFFERENT))"

lemma step_ab: "p \<or> q \<Longrightarrow>
    (if c then not_subset_ab (comparison_of p q) else Some (comparison_of p q)) =
    (if p \<and> \<not> c \<or> q then Some (comparison_of (p \<and> \<not> c) q) else None)"
  by (auto simp: not_subset_ab_def comparison_of_def)

lemma step_ba: "p \<or> q \<Longrightarrow>
    (if c then not_subset_ba (comparison_of p q) else Some (comparison_of p q)) =
    (if p \<or> q \<and> \<not> c then Some (comparison_of p (q \<and> \<not> c)) else None)"
  by (auto simp: not_subset_ba_def comparison_of_def)

lemma compare_loop_eq:
  "result = comparison_of p q \<Longrightarrow> p \<or> q \<Longrightarrow>
   compare_loop result as bs =
     comparison_of (p \<and> (\<forall>k. wnth as k AND NOT (wnth bs k) = 0))
                   (q \<and> (\<forall>k. wnth bs k AND NOT (wnth as k) = 0))"
proof (induction result as bs arbitrary: p q rule: compare_loop.induct)
  case (1 result)
  then show ?case by simp
next
  case (2 result aword as bword bs)
  let ?p = "p \<and> aword AND NOT bword = 0" and ?q = "q \<and> bword AND NOT aword = 0"
  note cons = wnth_all_Cons [of "\<lambda>a b. a AND NOT b = 0"]
  have step1: "(if aword AND NOT bword \<noteq> 0 then not_subset_ab result else Some result) =
      (if ?p \<or> q then Some (comparison_of ?p q) else None)"
    unfolding "2.prems"(1)
    using step_ab [OF "2.prems"(2), of "aword AND NOT bword \<noteq> 0"] by (simp only: not_not)
  have step2: "?p \<or> q \<Longrightarrow> (if bword AND NOT aword \<noteq> 0 then not_subset_ba (comparison_of ?p q)
      else Some (comparison_of ?p q)) = (if ?p \<or> ?q then Some (comparison_of ?p ?q) else None)"
    using step_ba [of ?p q "bword AND NOT aword \<noteq> 0"] by (simp only: not_not)
  show ?case
  proof (cases "?p \<or> ?q")
    case True
    then have "?p \<or> q" by blast
    with step1 step2 True "2.IH" [of "comparison_of ?p q" "comparison_of ?p ?q" ?p ?q]
    have "compare_loop result (aword # as) (bword # bs) = comparison_of
        (?p \<and> (\<forall>k. wnth as k AND NOT (wnth bs k) = 0)) (?q \<and> (\<forall>k. wnth bs k AND NOT (wnth as k) = 0))"
      by simp
    then show ?thesis by (simp only: cons conj_assoc)
  next
    case False
    with step1 step2 have "compare_loop result (aword # as) (bword # bs) = BMS_DIFFERENT"
      by (cases "?p \<or> q") simp_all
    moreover have "\<not> (p \<and> (\<forall>k. wnth (aword # as) k AND NOT (wnth (bword # bs) k) = 0))"
      "\<not> (q \<and> (\<forall>k. wnth (bword # bs) k AND NOT (wnth (aword # as) k) = 0))"
      using False unfolding cons by blast+
    ultimately show ?thesis by (simp only: comparison_of_def if_False)
  qed
next
  case (3 result aword as)
  let ?p = "p \<and> aword = 0"
  have step: "(if aword \<noteq> 0 then not_subset_ab result else Some result) =
      (if ?p \<or> q then Some (comparison_of ?p q) else None)"
    unfolding "3.prems"(1)
    using step_ab [OF "3.prems"(2), of "aword \<noteq> 0"] by (simp only: not_not)
  show ?case
  proof (cases "?p \<or> q")
    case True
    with step "3.IH" [of "comparison_of ?p q" ?p q]
    have "compare_loop result (aword # as) [] = comparison_of (?p \<and> (\<forall>k. wnth as k = 0)) q"
      by simp
    then show ?thesis by (simp add: wnth_all_Cons_Nil conj_assoc)
  next
    case False
    with step have "compare_loop result (aword # as) [] = BMS_DIFFERENT" by simp
    with False show ?thesis by (auto simp: wnth_all_Cons_Nil comparison_of_def)
  qed
next
  case (4 result bword bs)
  let ?q = "q \<and> bword = 0"
  have step: "(if bword \<noteq> 0 then not_subset_ba result else Some result) =
      (if p \<or> ?q then Some (comparison_of p ?q) else None)"
    unfolding "4.prems"(1)
    using step_ba [OF "4.prems"(2), of "bword \<noteq> 0"] by (simp only: not_not)
  show ?case
  proof (cases "p \<or> ?q")
    case True
    with step "4.IH" [of "comparison_of p ?q" p ?q]
    have "compare_loop result [] (bword # bs) = comparison_of p (?q \<and> (\<forall>k. wnth bs k = 0))"
      by simp
    then show ?thesis by (simp add: wnth_all_Cons_Nil conj_assoc)
  next
    case False
    with step have "compare_loop result [] (bword # bs) = BMS_DIFFERENT" by simp
    with False show ?thesis by (auto simp: wnth_all_Cons_Nil comparison_of_def)
  qed
qed

section \<open>Tests and set algebra\<close>

lemma bms_copy_id [simp]: "bms_copy a = a"
  by (auto simp: bms_copy_def split: option.splits)

lemma bms_is_empty_iff: "bms_is_empty a \<longleftrightarrow> bms_set a = {}"
  by (cases a) (simp_all add: bms_is_empty_def all_zero_wset)

lemma bms_equal_iff: "bms_equal a b \<longleftrightarrow> bms_set a = bms_set b"
  by (cases a; cases b) (auto simp: bms_equal_def bms_is_empty_iff equal_loop_iff nwords_def)

lemma bms_is_subset_iff: "bms_is_subset a b \<longleftrightarrow> bms_set a \<subseteq> bms_set b"
  by (cases a; cases b) (simp_all add: bms_is_subset_def bms_is_empty_iff subset_loop_iff)

lemma bms_overlap_iff: "bms_overlap a b \<longleftrightarrow> bms_set a \<inter> bms_set b \<noteq> {}"
  by (cases a; cases b) (simp_all add: bms_overlap_def overlap_loop_iff)

lemma bms_nonempty_difference_iff: "bms_nonempty_difference a b \<longleftrightarrow> bms_set a - bms_set b \<noteq> {}"
  by (cases a; cases b)
    (auto simp: bms_nonempty_difference_def bms_is_empty_iff nonempty_difference_loop_iff)

lemma bms_subset_compare_eq:
  "bms_subset_compare a b = comparison_of (bms_set a \<subseteq> bms_set b) (bms_set b \<subseteq> bms_set a)"
proof (cases a)
  case None
  then show ?thesis
    by (cases b) (simp_all add: bms_subset_compare_def bms_is_empty_iff comparison_of_def)
next
  case (Some s)
  show ?thesis
  proof (cases b)
    case None
    with Some show ?thesis
      by (simp add: bms_subset_compare_def bms_is_empty_iff comparison_of_def)
  next
    case (Some t)
    with \<open>a = Some s\<close> show ?thesis
      using compare_loop_eq [of BMS_EQUAL True True "bms_words s" "bms_words t"]
      by (simp add: bms_subset_compare_def wset_subset_iff) (simp add: comparison_of_def)
  qed
qed

lemma bms_union_set: "bms_set (bms_union a b) = bms_set a \<union> bms_set b"
  by (cases a; cases b) (auto simp: bms_union_def nwords_def wset_or)

lemma bms_intersect_set: "bms_set (bms_intersect a b) = bms_set a \<inter> bms_set b"
  by (cases a; cases b) (auto simp: bms_intersect_def nwords_def wset_and)

lemma bms_difference_set: "bms_set (bms_difference a b) = bms_set a - bms_set b"
  by (cases a; cases b) (auto simp: bms_difference_def wset_and_not)

lemma bms_add_members_set: "bms_set (bms_add_members a b) = bms_set a \<union> bms_set b"
  by (cases a; cases b) (auto simp: bms_add_members_def nwords_def wset_or)

lemma bms_int_members_set: "bms_set (bms_int_members a b) = bms_set a \<inter> bms_set b"
  by (cases a; cases b) (auto simp: bms_int_members_def wset_int)

lemma bms_del_members_set: "bms_set (bms_del_members a b) = bms_set a - bms_set b"
  by (cases a; cases b) (auto simp: bms_del_members_def wset_and_not)

lemma bms_join_set: "bms_set (bms_join a b) = bms_set a \<union> bms_set b"
  by (cases a; cases b) (auto simp: bms_join_def nwords_def wset_or)

lemmas bms_algebra =
  bms_union_set bms_intersect_set bms_difference_set
  bms_add_members_set bms_int_members_set bms_del_members_set bms_join_set

section \<open>Single members\<close>

lemma div_mod_unique: "x div 32 = n div 32 \<Longrightarrow> x mod 32 = n mod 32 \<Longrightarrow> x = (n :: nat)"
  by (metis div_mult_mod_eq)

lemma WORDNUM_int [simp]: "WORDNUM (int n) = n div 32"
  by (simp add: WORDNUM_def nat_div_distrib)

lemma BITNUM_int [simp]: "BITNUM (int n) = n mod 32"
  by (simp add: BITNUM_def nat_mod_distrib)

lemma bit_or_push: "i < 32 \<Longrightarrow> bit ((w :: bitmapword) OR 2 ^ i) j \<longleftrightarrow> bit w j \<or> j = i"
  by (auto simp: bit_or_iff bit_exp_iff possible_bit_def)

lemma bit_and_not_push: "i < 32 \<Longrightarrow> bit ((w :: bitmapword) AND NOT (2 ^ i)) j \<longleftrightarrow> bit w j \<and> j \<noteq> i"
  by (auto simp: bit_and_iff bit_not_iff bit_exp_iff possible_bit_def
      dest: bit_imp_le_length)

lemma bms_is_member_iff: "bms_is_member (int n) a = Inr (n \<in> bms_set a)"
  by (cases a) (auto simp: bms_is_member_def nwords_def wset_def wnth_def and_exp_eq_0_iff_not_bit)

lemma wset_singleton: "n div 32 < m \<Longrightarrow> wset ((replicate m 0)[n div 32 := 2 ^ (n mod 32)]) = {n}"
  by (rule set_eqI)
    (auto simp: wset_def wnth_update bit_exp_iff possible_bit_def intro: div_mod_unique)

lemma bms_make_singleton_set:
  "\<exists>r. bms_make_singleton (int n) = Inr (Some r) \<and> wset (bms_words r) = {n}
     \<and> length (bms_words r) = n div 32 + 1"
  using wset_singleton [of n "Suc (n div 32)"]
  by (simp add: bms_make_singleton_def del: replicate.simps)

lemma wset_update_or:
  "n div 32 < length ws \<Longrightarrow>
   wset (ws[n div 32 := ws ! (n div 32) OR 2 ^ (n mod 32)]) = insert n (wset ws)"
  by (rule set_eqI)
    (auto simp: wset_def wnth_def nth_list_update bit_or_push intro: div_mod_unique
      split: if_splits)

lemma wset_update_and_not:
  "n div 32 < length ws \<Longrightarrow>
   wset (ws[n div 32 := ws ! (n div 32) AND NOT (2 ^ (n mod 32))]) = wset ws - {n}"
  by (rule set_eqI)
    (auto simp: wset_def wnth_def nth_list_update bit_and_not_push dest: div_mod_unique
      split: if_splits)

lemma bms_add_member_set: "\<exists>r. bms_add_member a (int n) = Inr r \<and> bms_set r = insert n (bms_set a)"
proof (cases a)
  case None
  with bms_make_singleton_set [of n] show ?thesis by (auto simp: bms_add_member_def)
next
  case (Some s)
  show ?thesis
  proof (cases "n div 32 \<ge> nwords s")
    case True
    obtain r where "bms_make_singleton (int n) = Inr (Some r)" "wset (bms_words r) = {n}"
      "length (bms_words r) = n div 32 + 1"
      using bms_make_singleton_set by blast
    with True Some show ?thesis by (auto simp: bms_add_member_def wset_or nwords_def)
  next
    case False
    with Some show ?thesis by (simp add: bms_add_member_def wset_update_or nwords_def)
  qed
qed

lemma bms_del_member_set: "\<exists>r. bms_del_member a (int n) = Inr r \<and> bms_set r = bms_set a - {n}"
proof (cases a)
  case (Some s)
  show ?thesis
  proof (cases "n div 32 < nwords s")
    case True
    with Some show ?thesis by (simp add: bms_del_member_def wset_update_and_not nwords_def)
  next
    case False
    then have "n \<notin> wset (bms_words s)" by (simp add: wset_def wnth_def nwords_def)
    with Some False show ?thesis by (simp add: bms_del_member_def)
  qed
qed (simp add: bms_del_member_def)

lemma bms_negative:
  "x < 0 \<Longrightarrow> bms_is_member x a = Inl Negative_Member \<and> bms_add_member a x = Inl Negative_Member
     \<and> bms_del_member a x = Inl Negative_Member \<and> bms_make_singleton x = Inl Negative_Member"
  by (simp add: bms_is_member_def bms_add_member_def bms_del_member_def bms_make_singleton_def)

section \<open>Counting members\<close>

lemma wset_Cons: "wset (w # ws) = {i. bit w i} \<union> (\<lambda>x. x + 32) ` wset ws"
proof (rule set_eqI)
  fix x
  show "x \<in> wset (w # ws) \<longleftrightarrow> x \<in> {i. bit w i} \<union> (\<lambda>x. x + 32) ` wset ws"
  proof (cases "x < 32")
    case True
    then show ?thesis by (auto simp: wset_def)
  next
    case False
    then have x: "x = (x - 32) + 32" and "x div 32 = Suc ((x - 32) div 32)" and "\<not> bit w x"
      by (auto dest: bit_imp_le_length simp: div_if)
    moreover from False have "x mod 32 = (x - 32) mod 32" by (simp add: le_mod_geq)
    ultimately have "x \<in> wset (w # ws) \<longleftrightarrow> x - 32 \<in> wset ws" by (simp add: wset_def)
    also have "\<dots> \<longleftrightarrow> x \<in> (\<lambda>x. x + 32) ` wset ws" using x by force
    finally show ?thesis using \<open>\<not> bit w x\<close> by simp
  qed
qed

lemma finite_bits [simp]: "finite {i. bit (w :: bitmapword) i}"
  by (rule finite_subset [of _ "{..<32}"]) (auto dest: bit_imp_le_length)

lemma finite_wset [simp]: "finite (wset ws)"
  by (induction ws) (simp_all add: wset_Cons)

lemma finite_bms_set [simp]: "finite (bms_set a)"
  by (cases a) simp_all

lemma wset_less: "x \<in> wset ws \<Longrightarrow> x < 32 * length ws"
  by (auto simp: wset_def wnth_def split: if_splits)

lemma card_wset_Cons: "card (wset (w # ws)) = card {i. bit w i} + card (wset ws)"
proof -
  have "card ((\<lambda>x. x + 32) ` wset ws) = card (wset ws)"
    by (rule card_image) (simp add: inj_on_def)
  moreover have "{i. bit w i} \<inter> (\<lambda>x. x + 32) ` wset ws = {}"
    by (auto dest: bit_imp_le_length)
  ultimately show ?thesis unfolding wset_Cons by (simp add: card_Un_disjoint)
qed

lemma num_members_loop_eq: "num_members_loop ws r = r + int (card (wset ws))"
  by (induction ws arbitrary: r) (simp_all add: card_wset_Cons popcount_card bot_fun_def)

lemma bms_num_members_eq: "bms_num_members a = int (card (bms_set a))"
  by (cases a) (simp_all add: bms_num_members_def num_members_loop_eq)

lemma bits_nonempty: "w \<noteq> 0 \<Longrightarrow> {i. bit (w :: bitmapword) i} \<noteq> {}"
  using rightmost_one_pos(1) by blast

lemma rightmost_one_push: "w \<noteq> 0 \<Longrightarrow> RIGHTMOST_ONE w = push_bit (pg_rightmost_one_pos32 w) 1"
  unfolding RIGHTMOST_ONE_def
  by (rule and_minus_lowest) (simp_all add: rightmost_one_pos)

lemma bit_RIGHTMOST_ONE: "w \<noteq> 0 \<Longrightarrow> bit (RIGHTMOST_ONE w) i \<longleftrightarrow> i = pg_rightmost_one_pos32 w"
  using rightmost_one_pos_less [of w]
  by (auto simp: rightmost_one_push bit_exp_iff possible_bit_def)

lemma single_one:
  assumes "w \<noteq> 0"
  shows "\<not> HAS_MULTIPLE_ONES w \<longleftrightarrow> {i. bit w i} = {pg_rightmost_one_pos32 w}"
proof -
  have "\<not> HAS_MULTIPLE_ONES w \<longleftrightarrow> (\<forall>i. bit w i \<longleftrightarrow> i = pg_rightmost_one_pos32 w)"
    unfolding HAS_MULTIPLE_ONES_def not_not
    using bit_RIGHTMOST_ONE [OF assms] by (metis bit_eqI)
  then show ?thesis by auto
qed

lemma multiple_ones_card: "w \<noteq> 0 \<Longrightarrow> HAS_MULTIPLE_ONES w \<Longrightarrow> 2 \<le> card {i. bit w i}"
proof -
  assume w: "w \<noteq> 0" "HAS_MULTIPLE_ONES w"
  have "card {i. bit w i} \<noteq> 1"
  proof
    assume "card {i. bit w i} = 1"
    then obtain i where "{i. bit w i} = {i}" by (rule card_1_singletonE)
    with rightmost_one_pos(1) [OF w(1)] single_one [OF w(1)] w(2) show False by auto
  qed
  moreover have "card {i. bit w i} \<noteq> 0" using bits_nonempty [OF w(1)] by simp
  ultimately show ?thesis by linarith
qed

lemma single_one_card: "w \<noteq> 0 \<Longrightarrow> \<not> HAS_MULTIPLE_ONES w \<Longrightarrow> card {i. bit w i} = 1"
  by (simp add: single_one)

text \<open>The classification of a cardinality that \<^verbatim>\<open>bms_membership\<close> returns.\<close>

definition membership_of :: "nat \<Rightarrow> BMS_Membership" where
  "membership_of n = (if n = 0 then BMS_EMPTY_SET else if n = 1 then BMS_SINGLETON else BMS_MULTIPLE)"

lemma membership_loop_eq:
  "c \<le> 1 \<Longrightarrow> membership_loop ws (membership_of c) = membership_of (c + card (wset ws))"
proof (induction ws arbitrary: c)
  case (Cons w ws)
  show ?case
  proof (cases "w = 0")
    case False
    then have ge: "card {i. bit w i} \<ge> 1" using bits_nonempty by (simp add: Suc_le_eq card_gt_0_iff)
    show ?thesis
    proof (cases "c = 0 \<and> \<not> HAS_MULTIPLE_ONES w")
      case True
      with False Cons.IH [of 1] show ?thesis
        by (simp add: membership_of_def card_wset_Cons single_one_card)
    next
      case False
      with \<open>w \<noteq> 0\<close> Cons.prems ge multiple_ones_card [of w] show ?thesis
        by (auto simp: membership_of_def card_wset_Cons)
    qed
  qed (use Cons in \<open>simp add: card_wset_Cons\<close>)
qed simp

lemma bms_membership_eq: "bms_membership a = membership_of (card (bms_set a))"
  using membership_loop_eq [of 0]
  by (cases a) (simp_all add: bms_membership_def membership_of_def)

lemma wset_Cons_single: "{i. bit w i} = {p} \<Longrightarrow> wset ws = {} \<Longrightarrow> wset (w # ws) = {p}"
  by (simp add: wset_Cons)

text \<open>
  Both loops that look for the sole member start with no member seen; after one has
  been seen (\<open>result \<ge> 0\<close>) every further nonzero word is a second member.
\<close>

lemma singleton_loop_seen:
  "0 \<le> r \<Longrightarrow> singleton_loop ws k r = (if wset ws = {} then Inr r else Inl Multiple_Members)"
  by (induction ws arbitrary: k) (auto simp: wset_Cons dest: bits_nonempty)

lemma singleton_loop_eq:
  "0 \<le> k \<Longrightarrow> singleton_loop ws k (-1) =
     (if wset ws = {} then Inl Bitmapset_Empty
      else if card (wset ws) = 1 then Inr (32 * k + int (the_elem (wset ws)))
      else Inl Multiple_Members)"
proof (induction ws arbitrary: k)
  case (Cons w ws)
  show ?case
  proof (cases "w = 0")
    case True
    have "card (wset ws) = 1 \<Longrightarrow> the_elem ((\<lambda>x. x + 32) ` wset ws) = the_elem (wset ws) + 32"
      by (auto simp: card_Suc_eq)
    with True Cons show ?thesis
      by (auto simp: wset_Cons card_image algebra_simps)
  next
    case False
    then have ne: "wset (w # ws) \<noteq> {}" using bits_nonempty by (auto simp: wset_Cons)
    show ?thesis
    proof (cases "HAS_MULTIPLE_ONES w")
      case True
      with False ne multiple_ones_card [of w] show ?thesis by (simp add: card_wset_Cons)
    next
      case False
      with \<open>w \<noteq> 0\<close> ne Cons.prems wset_Cons_single [OF single_one [THEN iffD1], of w ws] show ?thesis
        by (auto simp: singleton_loop_seen card_wset_Cons single_one_card)
    qed
  qed
qed simp

lemma bms_singleton_member_eq:
  "bms_singleton_member a =
     (if bms_set a = {} then Inl Bitmapset_Empty
      else if card (bms_set a) = 1 then Inr (int (the_elem (bms_set a)))
      else Inl Multiple_Members)"
  by (cases a) (auto simp: bms_singleton_member_def singleton_loop_eq)

lemma rightmost_loop_acc: "pg_rightmost_one_pos32_loop w (r + s) = r + pg_rightmost_one_pos32_loop w s"
proof (induction w s rule: pg_rightmost_one_pos32_loop.induct)
  case (1 w s)
  then show ?case
    by (simp add: pg_rightmost_one_pos32_loop.simps [of w "r + s"]
        pg_rightmost_one_pos32_loop.simps [of w s] add.assoc)
qed

lemma rightmost_one_pos_shift:
  "w \<noteq> 0 \<Longrightarrow> w AND 255 = 0 \<Longrightarrow> pg_rightmost_one_pos32 w = 8 + pg_rightmost_one_pos32 (drop_bit 8 w)"
  using rightmost_loop_acc [of "drop_bit 8 w" 8 0]
  by (simp add: pg_rightmost_one_pos32_def pg_rightmost_one_pos32_loop.simps [of w 0])

lemma skip_zero_bytes_eq:
  "skip_zero_bytes w r = (w', r') \<Longrightarrow> r' + int (pg_rightmost_one_pos32 w') = r + int (pg_rightmost_one_pos32 w)"
proof (induction w r rule: skip_zero_bytes.induct)
  case (1 w r)
  show ?case
  proof (cases "w \<noteq> 0 \<and> w AND 255 = 0")
    case True
    with 1 show ?thesis
      by (simp add: skip_zero_bytes.simps [of w r] rightmost_one_pos_shift)
  next
    case False
    with "1.prems" show ?thesis by (auto simp: skip_zero_bytes.simps [of w r])
  qed
qed

lemma get_singleton_loop_eq:
  "get_singleton_loop ws k r = (case singleton_loop ws k r of Inl e \<Rightarrow> None | Inr m \<Rightarrow> Some m)"
proof (induction ws arbitrary: k r)
  case (Cons w ws)
  then show ?case
    using skip_zero_bytes_eq [of w "k * 32"] by (auto split: prod.splits)
qed simp

lemma bms_get_singleton_member_eq:
  "bms_get_singleton_member a =
     (if card (bms_set a) = 1 then Some (int (the_elem (bms_set a))) else None)"
  by (cases a) (auto simp: bms_get_singleton_member_def get_singleton_loop_eq singleton_loop_eq)

section \<open>Iteration\<close>

text \<open>
  \<open>next_member_loop\<close> finds the lowest member of the words with the mask applied to
  the first of them.
\<close>

fun mask_first :: "bitmapword \<Rightarrow> bitmapword list \<Rightarrow> bitmapword list" where
  "mask_first m [] = []"
| "mask_first m (w # ws) = (w AND m) # ws"

lemma mask_first_all [simp]: "mask_first (- 1) ws = ws"
  by (cases ws) simp_all

lemma lowest_in_first:
  assumes "w \<noteq> 0"
  shows "pg_rightmost_one_pos32 w \<in> wset (w # ws)"
    and "y \<in> wset (w # ws) \<Longrightarrow> pg_rightmost_one_pos32 w \<le> y"
proof -
  show "pg_rightmost_one_pos32 w \<in> wset (w # ws)"
    using rightmost_one_pos(1) [OF assms] by (simp add: wset_Cons)
  assume "y \<in> wset (w # ws)"
  then consider "bit w y" | "32 \<le> y" by (auto simp: wset_Cons)
  then show "pg_rightmost_one_pos32 w \<le> y"
    using rightmost_one_pos(2) [OF assms] rightmost_one_pos_less [OF assms]
    by cases (meson not_less, linarith)
qed

lemma wset_Cons_zero [simp]: "wset (0 # ws) = (\<lambda>x. x + 32) ` wset ws"
  by (simp add: wset_Cons)

text \<open>The least member of a non-empty set, with the C convention for the empty one.\<close>

definition least_or :: "int \<Rightarrow> nat set \<Rightarrow> int" where
  "least_or d S = (if S = {} then d else int (Min S))"

lemma Min_shift: "finite S \<Longrightarrow> S \<noteq> {} \<Longrightarrow> Min ((\<lambda>x. x + c) ` S) = Min S + (c::nat)"
  by (rule sym, rule mono_Min_commute) (auto intro: monoI)

lemma next_member_loop_spec:
  "next_member_loop ws k m =
     (if wset (mask_first m ws) = {} then -2 else 32 * k + int (Min (wset (mask_first m ws))))"
proof (induction ws arbitrary: k m)
  case (Cons w ws)
  show ?case
  proof (cases "w AND m = 0")
    case True
    with Cons.IH [of "k + 1" "- 1"] show ?thesis
      by (simp add: Min_shift)
  next
    case False
    have "Min (wset ((w AND m) # ws)) = pg_rightmost_one_pos32 (w AND m)"
      using lowest_in_first [OF False] by (intro Min_eqI) auto
    with False lowest_in_first(1) [OF False] show ?thesis by (auto simp: Let_def)
  qed
qed simp

lemma bit_high_mask: "b < 32 \<Longrightarrow> bit (push_bit b (NOT 0) :: bitmapword) i \<longleftrightarrow> b \<le> i \<and> i < 32"
  by (auto simp: bit_not_iff bit_mask_iff)

lemma wnth_mask_drop: "wnth (mask_first m (drop k ws)) j =
      (if j = 0 then wnth ws k AND m else wnth ws (k + j))"
proof (cases "k < length ws")
  case True
  then show ?thesis
    using Cons_nth_drop_Suc [OF True, symmetric] by (cases j) (auto simp: wnth_def)
qed (simp add: wnth_def)

lemma wset_mask_drop:
  assumes "b < 32"
  shows "x \<in> wset (mask_first (push_bit b (NOT 0)) (drop k ws)) \<longleftrightarrow> b \<le> x \<and> 32 * k + x \<in> wset ws"
  using assms bit_imp_le_length [of "wnth ws k" x]
  by (cases "x < 32")
    (auto simp: wset_def wnth_mask_drop bit_and_iff bit_not_iff bit_mask_iff)

text \<open>The members above \<open>prev\<close>, as the words from the one that holds \<open>prev + 1\<close> on.\<close>

lemma members_above:
  "{y \<in> wset ws. n \<le> y} = (\<lambda>x. x + 32 * (n div 32)) `
     wset (mask_first (push_bit (n mod 32) (NOT 0)) (drop (n div 32) ws))" (is "_ = ?f ` ?M")
proof (rule set_eqI)
  fix y
  have "n \<le> y \<longleftrightarrow> 32 * (n div 32) \<le> y \<and> n mod 32 \<le> y - 32 * (n div 32)"
    using mult_div_mod_eq [of 32 n] by linarith
  moreover have "y \<in> ?f ` ?M \<longleftrightarrow> 32 * (n div 32) \<le> y \<and> y - 32 * (n div 32) \<in> ?M"
    by (auto simp: image_iff intro: bexI [of _ "y - 32 * (n div 32)"])
  ultimately show "y \<in> {y \<in> wset ws. n \<le> y} \<longleftrightarrow> y \<in> ?f ` ?M"
    using wset_mask_drop [of "n mod 32" "y - 32 * (n div 32)" "n div 32" ws] by (auto simp: add.commute)
qed

text \<open>The law of \<^verbatim>\<open>bms_next_member\<close>: the least member above \<^verbatim>\<open>prevbit\<close>, or -2.\<close>

lemma bms_next_member_eq:
  assumes "-1 \<le> prev"
  shows "bms_next_member a prev = Inr (least_or (-2) {y \<in> bms_set a. prev < int y})"
proof (cases a)
  case (Some s)
  define n where "n = nat (prev + 1)"
  have n: "prev + 1 = int n" using assms by (simp add: n_def)
  let ?M = "wset (mask_first (push_bit (n mod 32) (NOT 0)) (drop (n div 32) (bms_words s)))"
  have "{y \<in> bms_set a. prev < int y} = {y \<in> wset (bms_words s). n \<le> y}" using n Some by auto
  also note members_above
  finally have "least_or (-2) {y \<in> bms_set a. prev < int y} =
      (if ?M = {} then -2 else int (32 * (n div 32)) + int (Min ?M))"
    by (auto simp: least_or_def Min_shift simp del: push_bit_minus_one_eq_not_mask)
  moreover have "bms_next_member a prev =
      Inr (next_member_loop (drop (n div 32) (bms_words s)) (int (n div 32)) (push_bit (n mod 32) (NOT 0)))"
    using assms Some n by (simp add: bms_next_member_def Let_def)
  ultimately show ?thesis by (simp add: next_member_loop_spec del: push_bit_minus_one_eq_not_mask)
qed (use assms in \<open>simp add: bms_next_member_def least_or_def\<close>)

lemma bms_next_member_small: "prev < -1 \<Longrightarrow> bms_next_member a prev = Inl Prevbit_Too_Small"
  by (simp add: bms_next_member_def)

lemma rightmost_of_rightmost: "w \<noteq> 0 \<Longrightarrow> pg_rightmost_one_pos32 (RIGHTMOST_ONE w) = pg_rightmost_one_pos32 w"
proof -
  assume w: "w \<noteq> 0"
  have "bit (RIGHTMOST_ONE w) (pg_rightmost_one_pos32 w)" using bit_RIGHTMOST_ONE [OF w] by simp
  then have "RIGHTMOST_ONE w \<noteq> 0" by auto
  then show ?thesis using rightmost_one_pos(1) [of "RIGHTMOST_ONE w"] bit_RIGHTMOST_ONE [OF w] by blast
qed

lemma bit_clear_lowest:
  assumes "w \<noteq> 0"
  shows "bit (w AND NOT (RIGHTMOST_ONE w)) i \<longleftrightarrow> bit w i \<and> i \<noteq> pg_rightmost_one_pos32 w"
proof -
  have "bit (w AND NOT (RIGHTMOST_ONE w)) i \<longleftrightarrow> bit w i \<and> \<not> bit (RIGHTMOST_ONE w) i"
    using bit_imp_le_length [of w i] by (auto simp only: bit_and_iff bit_not_iff possible_bit_word)
  then show ?thesis by (simp only: bit_RIGHTMOST_ONE [OF assms])
qed

lemma wset_clear_lowest:
  assumes "w \<noteq> 0"
  shows "wset ((w AND NOT (RIGHTMOST_ONE w)) # ws) = wset (w # ws) - {pg_rightmost_one_pos32 w}"
  using rightmost_one_pos_less [OF assms] unfolding wset_Cons bit_clear_lowest [OF assms] by fastforce

lemma shift_remove: "(\<lambda>x. x + 32) ` (S - {m}) = (\<lambda>x. x + 32) ` S - {m + (32 :: nat)}"
  by auto

lemma first_member_loop_spec:
  "first_member_loop ws k = (r, ws') \<Longrightarrow>
     (if wset ws = {} then r = -1 \<and> ws' = ws
      else r = 32 * k + int (Min (wset ws)) \<and> wset ws' = wset ws - {Min (wset ws)})"
proof (induction ws arbitrary: k r ws')
  case (Cons w ws)
  show ?case
  proof (cases "w = 0")
    case True
    with Cons.prems obtain ws1 where "first_member_loop ws (k + 1) = (r, ws1)" "ws' = 0 # ws1"
      by (auto split: prod.splits)
    with Cons.IH [OF this(1)] True show ?thesis
      by (cases "wset ws = {}") (simp_all add: Min_shift shift_remove)
  next
    case False
    have "Min (wset (w # ws)) = pg_rightmost_one_pos32 w"
      using lowest_in_first [OF False] by (intro Min_eqI) auto
    with False Cons.prems lowest_in_first(1) [OF False] wset_clear_lowest [OF False] show ?thesis
      by (auto simp: Let_def rightmost_of_rightmost)
  qed
qed simp

lemma bms_first_member_eq:
  "fst (bms_first_member a) = least_or (-1) (bms_set a)"
  "bms_set (snd (bms_first_member a)) = bms_set a - {Min (bms_set a)}"
proof -
  have "fst (bms_first_member a) = least_or (-1) (bms_set a) \<and>
     bms_set (snd (bms_first_member a)) = bms_set a - {Min (bms_set a)}"
  proof (cases a)
    case (Some s)
    obtain r ws where "first_member_loop (bms_words s) 0 = (r, ws)" by fastforce
    with first_member_loop_spec [OF this] Some show ?thesis
      by (auto simp: bms_first_member_def least_or_def split: if_splits)
  qed (simp add: bms_first_member_def least_or_def)
  then show "fst (bms_first_member a) = least_or (-1) (bms_set a)"
    "bms_set (snd (bms_first_member a)) = bms_set a - {Min (bms_set a)}" by simp_all
qed

section \<open>Hashing and positions\<close>

lemma strip_zero_words_zero: "(\<forall>k. wnth ws k = 0) \<Longrightarrow> strip_zero_words ws = []"
  by (induction ws) (simp_all add: wnth_all_Cons_Nil)

lemma strip_zero_words_cong: "(\<forall>k. wnth as k = wnth bs k) \<Longrightarrow> strip_zero_words as = strip_zero_words bs"
proof (induction as arbitrary: bs)
  case Nil
  then show ?case using strip_zero_words_zero [of bs] by simp
next
  case (Cons w as)
  show ?case
  proof (cases bs)
    case Nil
    with Cons.prems show ?thesis using strip_zero_words_zero [of "w # as"] by simp
  next
    case (Cons v bs')
    with Cons.prems have "w = v" "\<forall>k. wnth as k = wnth bs' k"
      by (simp_all add: wnth_all_Cons [of "(=)"])
    with Cons.IH [of bs'] Cons show ?thesis by simp
  qed
qed

lemma bms_hash_cong:
  assumes "bms_set a = bms_set b"
  shows "bms_hash_value h a = bms_hash_value h b"
proof -
  define wd where "wd = (\<lambda>c :: bms. case c of None \<Rightarrow> [] | Some s \<Rightarrow> bms_words s)"
  have "bms_hash_value h c = (case strip_zero_words (wd c) of [] \<Rightarrow> 0 | w # ws \<Rightarrow> h (w # ws))"
    and "bms_set c = wset (wd c)" for c
    by (cases c; simp add: bms_hash_value_def wd_def)+
  moreover from this assms have "strip_zero_words (wd a) = strip_zero_words (wd b)"
    by (intro strip_zero_words_cong) (simp add: wset_eq_iff)
  ultimately show ?thesis by simp
qed

lemma wset_take: "wset (take k ws) = {y \<in> wset ws. y < 32 * k}"
  by (auto simp: wset_def wnth_def split: if_splits)

lemma bits_below: "b < 32 \<Longrightarrow> {i. bit ((w :: bitmapword) AND (push_bit b 1 - 1)) i} = {i. bit w i \<and> i < b}"
  by (auto simp: bit_and_iff bit_mask_iff simp flip: mask_eq_exp_minus_1)

lemma card_below:
  "card {y \<in> wset ws. y < n} = card (wset (take (n div 32) ws)) + card {i. bit (wnth ws (n div 32)) i \<and> i < n mod 32}"
proof -
  let ?k = "n div 32" let ?B = "{i. bit (wnth ws ?k) i \<and> i < n mod 32}"
  have n: "n = 32 * ?k + n mod 32" by simp
  have "{y \<in> wset ws. y < n} = wset (take ?k ws) \<union> (\<lambda>i. 32 * ?k + i) ` ?B" (is "?L = ?R")
  proof (rule set_eqI)
    fix y
    have in_image: "y \<in> (\<lambda>i. 32 * ?k + i) ` ?B \<longleftrightarrow> 32 * ?k \<le> y \<and> y - 32 * ?k \<in> ?B"
      by (auto simp: image_iff intro: exI [of _ "y - 32 * ?k"])
    show "y \<in> ?L \<longleftrightarrow> y \<in> ?R"
    proof (cases "32 * ?k \<le> y")
      case True
      then obtain i where i: "y = 32 * ?k + i" using le_Suc_ex by blast
      have "y < n \<longleftrightarrow> i < n mod 32" using n i by linarith
      then have "y \<in> ?L \<longleftrightarrow> bit (wnth ws ?k) i \<and> i < n mod 32"
        using i wset_iff [of i ?k ws] mod_less_divisor [of 32 n] by auto
      then show ?thesis using i in_image by (auto simp: wset_take)
    qed (use n in_image in \<open>auto simp: wset_take\<close>)
  qed
  moreover have "wset (take ?k ws) \<inter> (\<lambda>i. 32 * ?k + i) ` ?B = {}" by (auto simp: wset_take)
  moreover have "finite ?B" by simp
  ultimately show ?thesis by (simp add: card_Un_disjoint card_image)
qed

lemma bms_member_index_eq:
  "bms_member_index a (int n) = Inr (if n \<in> bms_set a then int (card {y \<in> bms_set a. y < n}) else -1)"
proof (cases "n \<in> bms_set a")
  case True
  then obtain s where s: "a = Some s" by (cases a) auto
  with True have "n div 32 < length (bms_words s)" using wset_less by fastforce
  with True s show ?thesis
    by (simp add: bms_member_index_def bms_is_member_iff num_members_loop_eq popcount_card
        card_below wnth_def bits_below del: push_bit_of_1)
qed (simp add: bms_member_index_def bms_is_member_iff)
end
