(* ===== verification/Bitmapset_Interface.thy ===== *)
theory Bitmapset_Interface
  imports Bitmapset
begin

text \<open>
  The interfaces through which the rest of the server uses bitmap sets, as locales, and the
  properties of the package. \<open>set_algebra\<close> is the contract of the operations that build and
  combine sets, \<open>set_iteration\<close> that of the loop over \<^verbatim>\<open>bms_next_member\<close>, and
  \<open>set_consumption\<close> that of the loop over \<^verbatim>\<open>bms_first_member\<close>, which empties the set.
  Each is interpreted on the operations of the package.
\<close>

section \<open>Set algebra\<close>

locale set_algebra =
  fixes members :: "'s \<Rightarrow> nat set"
    and empty :: 's
    and add :: "'s \<Rightarrow> int \<Rightarrow> 'e + 's"
    and del :: "'s \<Rightarrow> int \<Rightarrow> 'e + 's"
    and is_in :: "int \<Rightarrow> 's \<Rightarrow> 'e + bool"
    and union :: "'s \<Rightarrow> 's \<Rightarrow> 's"
    and inter :: "'s \<Rightarrow> 's \<Rightarrow> 's"
    and diff :: "'s \<Rightarrow> 's \<Rightarrow> 's"
    and same :: "'s \<Rightarrow> 's \<Rightarrow> bool"
  assumes members_empty: "members empty = {}"
    and add_law: "\<exists>r. add s (int n) = Inr r \<and> members r = insert n (members s)"
    and del_law: "\<exists>r. del s (int n) = Inr r \<and> members r = members s - {n}"
    and is_in_law: "is_in (int n) s = Inr (n \<in> members s)"
    and union_law: "members (union s t) = members s \<union> members t"
    and inter_law: "members (inter s t) = members s \<inter> members t"
    and diff_law: "members (diff s t) = members s - members t"
    and same_law: "same s t \<longleftrightarrow> members s = members t"
begin

lemma lookup_after_add:
  "\<exists>r. add s (int n) = Inr r \<and> is_in (int m) r = Inr (m = n \<or> m \<in> members s)"
  using add_law [of s n] by (auto simp: is_in_law)

lemma lookup_after_del:
  "\<exists>r. del s (int n) = Inr r \<and> is_in (int m) r = Inr (m \<noteq> n \<and> m \<in> members s)"
  using del_law [of s n] by (auto simp: is_in_law)

lemma del_undoes_add:
  "n \<notin> members s \<Longrightarrow> \<exists>r t. add s (int n) = Inr r \<and> del r (int n) = Inr t \<and> same t s"
proof -
  assume n: "n \<notin> members s"
  obtain r where r: "add s (int n) = Inr r" "members r = insert n (members s)"
    using add_law by blast
  obtain t where "del r (int n) = Inr t" "members t = members r - {n}" using del_law by blast
  with r n show ?thesis by (auto simp: same_law)
qed

lemma split_by: "same (union (inter s t) (diff s t)) s"
  by (auto simp: same_law union_law inter_law diff_law)

lemma laws:
  "same (union s t) (union t s)" "same (inter s t) (inter t s)"
  "same (inter s (union t u)) (union (inter s t) (inter s u))"
  "same (diff s (union t u)) (inter (diff s t) (diff s u))"
  by (auto simp: same_law union_law inter_law diff_law)

end

interpretation bms: set_algebra bms_set None bms_add_member bms_del_member bms_is_member
  bms_union bms_intersect bms_difference bms_equal
  by unfold_locales
    (simp_all add: bms_add_member_set bms_del_member_set bms_is_member_iff bms_algebra bms_equal_iff)

text \<open>The recycling variants satisfy the same contract.\<close>

interpretation bms_recycling: set_algebra bms_set None bms_add_member bms_del_member bms_is_member
  bms_join bms_int_members bms_del_members bms_equal
  by unfold_locales
    (simp_all add: bms_add_member_set bms_del_member_set bms_is_member_iff bms_algebra bms_equal_iff)

section \<open>Iteration\<close>

text \<open>
  The loop the comment of \<^verbatim>\<open>bms_next_member\<close> prescribes,
  \<^verbatim>\<open>x = -1; while ((x = bms_next_member(inputset, x)) >= 0) process member x;\<close>, collecting the
  members it processes. The fuel bounds the number of rounds; running out of it is \<open>None\<close>.
\<close>

fun next_loop :: "(int \<Rightarrow> 'e + int) \<Rightarrow> nat \<Rightarrow> int \<Rightarrow> ('e + int list) option" where
  "next_loop next 0 x = None"
| "next_loop next (Suc fuel) x =
     (case next x of
        Inl e \<Rightarrow> Some (Inl e)
      | Inr y \<Rightarrow>
          if y \<ge> 0 then map_option (map_sum id ((#) y)) (next_loop next fuel y)
          else Some (Inr []))"

lemma least_or_nonneg: "finite S \<Longrightarrow> d < 0 \<Longrightarrow> 0 \<le> least_or d S \<longleftrightarrow> S \<noteq> {}"
  by (simp add: least_or_def)

lemma above_Min:
  assumes "finite S" "{y \<in> S. prev < int y} \<noteq> {}"
  shows "{y \<in> S. prev < int y} - {Min {y \<in> S. prev < int y}} =
    {y \<in> S. int (Min {y \<in> S. prev < int y}) < int y}"
proof -
  let ?A = "{y \<in> S. prev < int y}"
  have "Min ?A \<in> ?A" "\<And>y. y \<in> ?A \<Longrightarrow> Min ?A \<le> y" using assms Min_in [of ?A] by auto
  then show ?thesis by fastforce
qed

locale set_iteration =
  fixes members :: "'s \<Rightarrow> nat set"
    and next_member :: "'s \<Rightarrow> int \<Rightarrow> 'e + int"
  assumes members_finite: "finite (members s)"
    and next_law: "-1 \<le> prev \<Longrightarrow>
      next_member s prev = Inr (least_or (-2) {y \<in> members s. prev < int y})"
begin

lemma next_loop_from:
  "-1 \<le> prev \<Longrightarrow> card {y \<in> members s. prev < int y} < fuel \<Longrightarrow>
   next_loop (next_member s) fuel prev =
     Some (Inr (map int (sorted_list_of_set {y \<in> members s. prev < int y})))"
proof (induction fuel arbitrary: prev)
  case (Suc fuel)
  let ?A = "{y \<in> members s. prev < int y}"
  have fin: "finite ?A" using members_finite by simp
  show ?case
  proof (cases "?A = {}")
    case True
    then have "sorted_list_of_set ?A = []" by (simp only: sorted_list_of_set_empty)
    with True show ?thesis using next_law [OF Suc.prems(1), of s] by (simp add: least_or_def)
  next
    case False
    let ?m = "Min ?A"
    have rest: "?A - {?m} = {y \<in> members s. int ?m < int y}"
      using above_Min [OF members_finite False] .
    have "card (?A - {?m}) < card ?A" by (rule card_Diff1_less [OF fin Min_in [OF fin False]])
    with Suc.prems(2) have "card (?A - {?m}) < fuel" by (meson le_less_trans less_Suc_eq_le not_le)
    with Suc.IH [of "int ?m"]
    have IH: "next_loop (next_member s) fuel (int ?m) =
        Some (Inr (map int (sorted_list_of_set (?A - {?m}))))" unfolding rest by simp
    have "next_member s prev = Inr (int ?m)"
      unfolding next_law [OF Suc.prems(1)] least_or_def by (simp only: False if_False)
    with IH show ?thesis
      unfolding sorted_list_of_set_nonempty [OF fin False] by simp
  qed
qed simp

lemma next_loop_enumerates:
  "next_loop (next_member s) (Suc (card (members s))) (-1) =
     Some (Inr (map int (sorted_list_of_set (members s))))"
proof -
  have "{y \<in> members s. -1 < int y} = members s" by auto
  with next_loop_from [of "-1" s "Suc (card (members s))"] show ?thesis by simp
qed

end

interpretation bms_iter: set_iteration bms_set bms_next_member
  by unfold_locales (simp_all add: bms_next_member_eq)

text \<open>
  The loop the comment of \<^verbatim>\<open>bms_first_member\<close> prescribes on a working copy,
  \<^verbatim>\<open>while ((x = bms_first_member(tmpset)) >= 0) process member x;\<close>
\<close>

fun first_loop :: "('s \<Rightarrow> int \<times> 's) \<Rightarrow> nat \<Rightarrow> 's \<Rightarrow> (int list \<times> 's) option" where
  "first_loop first 0 s = None"
| "first_loop first (Suc fuel) s =
     (case first s of (x, s') \<Rightarrow>
        if x \<ge> 0 then map_option (apfst ((#) x)) (first_loop first fuel s') else Some ([], s'))"

locale set_consumption =
  fixes members :: "'s \<Rightarrow> nat set"
    and first_member :: "'s \<Rightarrow> int \<times> 's"
  assumes members_finite: "finite (members s)"
    and first_law: "fst (first_member s) = least_or (-1) (members s)"
    and rest_law: "members (snd (first_member s)) = members s - {Min (members s)}"
begin

lemma first_loop_drains:
  "card (members s) < fuel \<Longrightarrow>
   \<exists>t. first_loop first_member fuel s = Some (map int (sorted_list_of_set (members s)), t)
     \<and> members t = {}"
proof (induction fuel arbitrary: s)
  case (Suc fuel)
  obtain x t where xt: "first_member s = (x, t)" by fastforce
  with first_law [of s] rest_law [of s]
  have x: "x = least_or (-1) (members s)" and t: "members t = members s - {Min (members s)}" by simp_all
  show ?case
  proof (cases "members s = {}")
    case True
    with xt x t show ?thesis by (simp add: least_or_def)
  next
    case False
    then have "card (members t) < card (members s)"
      unfolding t using members_finite by (intro card_Diff1_less) auto
    with Suc.prems have "card (members t) < fuel" by simp
    from Suc.IH [OF this] False xt x t show ?thesis
      using sorted_list_of_set_nonempty [OF members_finite False] by (auto simp: least_or_def)
  qed
qed simp

end

interpretation bms_drain: set_consumption bms_set bms_first_member
  by unfold_locales (simp_all add: bms_first_member_eq)

lemma sorted_takeWhile_less: "sorted xs \<Longrightarrow> takeWhile (\<lambda>y. y < n) xs = filter (\<lambda>y. y < (n :: nat)) xs"
proof (induction xs)
  case (Cons x xs)
  then show ?case by (cases "x < n") (auto intro!: filter_False [symmetric])
qed simp

lemma length_takeWhile_sorted:
  "finite S \<Longrightarrow> length (takeWhile (\<lambda>y. y < n) (sorted_list_of_set S)) = card {y \<in> S. y < (n :: nat)}"
proof -
  assume "finite S"
  then have "set (filter (\<lambda>y. y < n) (sorted_list_of_set S)) = {y \<in> S. y < n}" by auto
  then show ?thesis
    using distinct_card [of "filter (\<lambda>y. y < n) (sorted_list_of_set S)"]
    by (simp add: sorted_takeWhile_less)
qed

section \<open>Bounds\<close>

text \<open>
  \<open>bms_fits\<close>: the array has at most \<open>2 ^ 26\<close> words, so that it holds members up to
  \<^verbatim>\<open>INT_MAX\<close> and no more.
\<close>

definition bms_fits :: "bms \<Rightarrow> bool" where
  "bms_fits a \<longleftrightarrow> (case a of None \<Rightarrow> True | Some s \<Rightarrow> nwords s \<le> 2 ^ 26)"

lemma length_words [simp]:
  "length (or_words as bs) = length as" "length (and_words as bs) = length as"
  "length (and_not_words as bs) = length as" "length (int_words as bs) = length as"
proof -
  show "length (or_words as bs) = length as" by (induction as bs rule: or_words.induct) simp_all
  show "length (and_words as bs) = length as" by (induction as bs rule: and_words.induct) simp_all
  show "length (and_not_words as bs) = length as" by (induction as bs rule: and_not_words.induct) simp_all
  show "length (int_words as bs) = length as" by (induction as bs rule: int_words.induct) simp_all
qed

lemma bms_fits_member: "bms_fits a \<Longrightarrow> x \<in> bms_set a \<Longrightarrow> int x < 2 ^ 31"
  by (cases a) (auto simp: bms_fits_def nwords_def dest: wset_less)

lemma bms_fits_algebra:
  assumes "bms_fits a" "bms_fits b"
  shows "bms_fits (bms_union a b) \<and> bms_fits (bms_intersect a b) \<and> bms_fits (bms_difference a b)
    \<and> bms_fits (bms_add_members a b) \<and> bms_fits (bms_int_members a b)
    \<and> bms_fits (bms_del_members a b) \<and> bms_fits (bms_join a b)"
  using assms
  by (cases a; cases b)
    (simp_all add: bms_fits_def nwords_def bms_union_def bms_intersect_def bms_difference_def
      bms_add_members_def bms_int_members_def bms_del_members_def bms_join_def)

lemma WORDNUM_int32: "x < 2 ^ 31 \<Longrightarrow> WORDNUM x < 2 ^ 26"
  by (simp add: WORDNUM_def)

lemma bms_make_singleton_length:
  "bms_make_singleton x = Inr (Some r) \<Longrightarrow> length (bms_words r) = WORDNUM x + 1"
  by (auto simp: bms_make_singleton_def simp del: replicate_Suc replicate.simps split: if_splits)

lemma bms_make_singleton_not_None: "bms_make_singleton x \<noteq> Inr None"
  by (simp add: bms_make_singleton_def)

lemma bms_fits_add:
  "bms_fits a \<Longrightarrow> x < 2 ^ 31 \<Longrightarrow> bms_add_member a x = Inr r \<Longrightarrow> bms_fits r"
  using WORDNUM_int32 [of x] bms_make_singleton_length [of x] bms_make_singleton_not_None [of x]
  by (auto simp: bms_fits_def bms_add_member_def nwords_def
      split: if_splits option.splits sum.splits)

lemma bms_fits_del: "bms_fits a \<Longrightarrow> bms_del_member a x = Inr r \<Longrightarrow> bms_fits r"
  by (auto simp: bms_fits_def bms_del_member_def nwords_def split: if_splits option.splits)

section \<open>Properties of the package\<close>

text \<open>
  C18. The seven operations that combine two sets, those that allocate the result and those that
  recycle an input, compute union, intersection and difference of the member sets, whatever the
  lengths of the two arrays and whether either pointer is null.
\<close>

theorem bms_operations_refine_sets:
  "bms_set (bms_union a b) = bms_set a \<union> bms_set b \<and>
   bms_set (bms_intersect a b) = bms_set a \<inter> bms_set b \<and>
   bms_set (bms_difference a b) = bms_set a - bms_set b \<and>
   bms_set (bms_add_members a b) = bms_set a \<union> bms_set b \<and>
   bms_set (bms_int_members a b) = bms_set a \<inter> bms_set b \<and>
   bms_set (bms_del_members a b) = bms_set a - bms_set b \<and>
   bms_set (bms_join a b) = bms_set a \<union> bms_set b"
  by (simp add: bms_algebra)

text \<open>
  C19. The tests decide the relations of the member sets: equality, emptiness, inclusion, overlap,
  non-empty difference, and the four-way comparison, which in one pass over both arrays tells
  which of the two inclusions hold.
\<close>

theorem bms_tests_decide_sets:
  "(bms_equal a b \<longleftrightarrow> bms_set a = bms_set b) \<and>
   (bms_is_empty a \<longleftrightarrow> bms_set a = {}) \<and>
   (bms_is_subset a b \<longleftrightarrow> bms_set a \<subseteq> bms_set b) \<and>
   (bms_overlap a b \<longleftrightarrow> bms_set a \<inter> bms_set b \<noteq> {}) \<and>
   (bms_nonempty_difference a b \<longleftrightarrow> bms_set a - bms_set b \<noteq> {}) \<and>
   (bms_subset_compare a b = BMS_EQUAL \<longleftrightarrow> bms_set a = bms_set b) \<and>
   (bms_subset_compare a b = BMS_SUBSET1 \<longleftrightarrow> bms_set a \<subset> bms_set b) \<and>
   (bms_subset_compare a b = BMS_SUBSET2 \<longleftrightarrow> bms_set b \<subset> bms_set a)"
  unfolding bms_equal_iff bms_is_empty_iff bms_is_subset_iff bms_overlap_iff
    bms_nonempty_difference_iff bms_subset_compare_eq comparison_of_def
  by auto

text \<open>
  C20. Adding, deleting and testing one member: a negative number is refused with the error of the
  source by each of them, and for any other number the result is the set with the member added
  or removed, and the membership test answers on that result as it should.
\<close>

theorem bms_single_member_operations:
  "(x < 0 \<and> bms_add_member a x = Inl Negative_Member \<and> bms_del_member a x = Inl Negative_Member
      \<and> bms_is_member x a = Inl Negative_Member \<and> bms_make_singleton x = Inl Negative_Member) \<or>
   (\<exists>n added deleted one. x = int n \<and>
      bms_add_member a x = Inr added \<and> bms_set added = insert n (bms_set a) \<and>
      bms_del_member a x = Inr deleted \<and> bms_set deleted = bms_set a - {n} \<and>
      bms_make_singleton x = Inr one \<and> bms_set one = {n} \<and>
      bms_is_member x a = Inr (n \<in> bms_set a))"
proof (cases "x < 0")
  case False
  then obtain n where n: "x = int n" using nonneg_int_cases [of x] by auto
  with bms_add_member_set [of a n] bms_del_member_set [of a n] bms_make_singleton_set [of n]
    bms_is_member_iff [of n a]
  show ?thesis by fastforce
qed (simp add: bms_negative)

text \<open>
  Counting: the number of members, the three-way membership count, and the two ways of
  asking for the only member, with the two errors of the one that insists.
\<close>

theorem bms_counting:
  "bms_num_members a = int (card (bms_set a)) \<and>
   (bms_membership a = BMS_EMPTY_SET \<longleftrightarrow> card (bms_set a) = 0) \<and>
   (bms_membership a = BMS_SINGLETON \<longleftrightarrow> card (bms_set a) = 1) \<and>
   (bms_singleton_member a = Inl Bitmapset_Empty \<longleftrightarrow> card (bms_set a) = 0) \<and>
   (bms_singleton_member a = Inr (int n) \<longleftrightarrow> bms_set a = {n}) \<and>
   (bms_singleton_member a = Inl Multiple_Members \<longleftrightarrow> 2 \<le> card (bms_set a)) \<and>
   (bms_get_singleton_member a = Some (int n) \<longleftrightarrow> bms_set a = {n}) \<and>
   (bms_get_singleton_member a = None \<longleftrightarrow> card (bms_set a) \<noteq> 1)"
proof -
  define c t where "c = card (bms_set a)" and "t = the_elem (bms_set a)"
  have single: "bms_set a = {n} \<longleftrightarrow> c = 1 \<and> t = n"
    unfolding c_def t_def by (metis card_1_singleton_iff One_nat_def the_elem_eq)
  have empty: "bms_set a = {} \<longleftrightarrow> c = 0" by (simp add: c_def)
  show ?thesis
    unfolding bms_num_members_eq bms_membership_eq bms_singleton_member_eq
      bms_get_singleton_member_eq membership_of_def single empty c_def [symmetric] t_def [symmetric]
    by auto
qed


text \<open>
  The loop over \<^verbatim>\<open>bms_first_member\<close> terminates, visits every member exactly once in
  increasing order and leaves the working copy empty.
\<close>

theorem bms_first_member_loop:
  "\<exists>t. first_loop bms_first_member (Suc (card (bms_set a))) a =
     Some (map int (sorted_list_of_set (bms_set a)), t) \<and> bms_is_empty t"
  using bms_drain.first_loop_drains [of a "Suc (card (bms_set a))"] by (auto simp: bms_is_empty_iff)

text \<open>
  Sets that compare equal hash equal, for every hash of the words: trailing zero words,
  which equality ignores, are not hashed.
\<close>

theorem bms_equal_hash:
  assumes "bms_equal a b"
  shows "bms_hash_value hash_any a = bms_hash_value hash_any b"
  using assms bms_hash_cong [of a b hash_any] by (simp only: bms_equal_iff)

theorem bms_equal_hash_witness:
  "bms_hash_value (\<lambda>ws. of_nat (length ws)) (Some \<lparr>bms_words = [5, 0, 0]\<rparr>) =
   bms_hash_value (\<lambda>ws. of_nat (length ws)) (Some \<lparr>bms_words = [5]\<rparr>)"
  by (rule bms_equal_hash) (simp add: bms_equal_def nwords_def)

text \<open>
  \<^verbatim>\<open>bms_member_index\<close> is the position of a member in the increasing enumeration of the set,
  and -1 exactly on the numbers that are not members.
\<close>

theorem bms_member_index_position:
  "bms_member_index a (int n) =
     Inr (if n \<in> bms_set a then int (length (takeWhile (\<lambda>y. y < n) (sorted_list_of_set (bms_set a))))
          else -1)"
  by (simp add: bms_member_index_eq length_takeWhile_sorted)



text \<open>
  Deleting a member just added to a set that did not have it gives back a set equal to the
  original, although the array may have grown.
\<close>

theorem bms_add_del_roundtrip:
  assumes "n \<notin> bms_set a"
  shows "\<exists>r t. bms_add_member a (int n) = Inr r \<and> bms_del_member r (int n) = Inr t \<and> bms_equal t a"
  using assms by (rule bms.del_undoes_add)

theorem bms_add_del_roundtrip_witness:
  "\<exists>r t. bms_add_member (Some \<lparr>bms_words = [5]\<rparr>) (int 70) = Inr r
     \<and> bms_del_member r (int 70) = Inr t \<and> bms_equal t (Some \<lparr>bms_words = [5]\<rparr>)"
  by (rule bms_add_del_roundtrip) (simp add: wset_def wnth_def)

end
