(* ===== verification/Binary_Heap.thy ===== *)
theory Binary_Heap
  imports OG_Prelude "HOL-Library.Multiset" "HOL-Library.Signed_Division"
begin

text \<open>
  The array heap of \<^verbatim>\<open>common/backend/lib/binaryheap.cpp\<close>, every operation of the file, and the
  comparator of the client in \<^verbatim>\<open>reorderbuffer.cpp\<close> that merges the change streams of a
  transaction and its subtransactions. The array has \<^verbatim>\<open>bh_space\<close> slots, of which the first \<^verbatim>\<open>bh_size\<close> are in use.
\<close>

section \<open>The code\<close>

record ('d, 'x) binaryheap =
  bh_size :: nat
  bh_space :: nat
  bh_has_heap_property :: bool
  bh_compare :: "'d \<Rightarrow> 'd \<Rightarrow> 'x \<Rightarrow> int"
  bh_arg :: 'x
  bh_nodes :: "'d list"

datatype bh_error =
    Out_Of_Slots       \<comment> \<open>out of binary heap slots\<close>
  | Assert_Nonempty    \<comment> \<open>the assertion of a build with assertions enabled\<close>

text \<open>\<open>mem\<close> is what the allocated array of \<open>capacity\<close> slots happens to hold.\<close>

definition binaryheap_allocate :: "nat \<Rightarrow> ('d \<Rightarrow> 'd \<Rightarrow> 'x \<Rightarrow> int) \<Rightarrow> 'x \<Rightarrow> 'd list \<Rightarrow> ('d, 'x) binaryheap" where
  "binaryheap_allocate capacity compare arg mem =
     \<lparr>bh_size = 0, bh_space = capacity, bh_has_heap_property = True,
      bh_compare = compare, bh_arg = arg, bh_nodes = mem\<rparr>"

definition binaryheap_reset :: "('d, 'x) binaryheap \<Rightarrow> ('d, 'x) binaryheap" where
  "binaryheap_reset heap = heap\<lparr>bh_size := 0, bh_has_heap_property := True\<rparr>"

definition left_offset :: "nat \<Rightarrow> nat" where
  "left_offset i = 2 * i + 1"

definition right_offset :: "nat \<Rightarrow> nat" where
  "right_offset i = 2 * i + 2"

text \<open>The division of C truncates, so the parent of node 0 is node 0 and that of -1 is -1.\<close>

definition parent_offset :: "int \<Rightarrow> int" where
  "parent_offset i = (i - 1) sdiv 2"

definition cmp_nodes :: "('d, 'x) binaryheap \<Rightarrow> nat \<Rightarrow> nat \<Rightarrow> int" where
  "cmp_nodes heap a b = bh_compare heap (bh_nodes heap ! a) (bh_nodes heap ! b) (bh_arg heap)"

definition swap_nodes :: "('d, 'x) binaryheap \<Rightarrow> nat \<Rightarrow> nat \<Rightarrow> ('d, 'x) binaryheap" where
  "swap_nodes heap a b =
     (let swap = bh_nodes heap ! a
      in heap\<lparr>bh_nodes := (bh_nodes heap)[a := bh_nodes heap ! b, b := swap]\<rparr>)"

lemma parent_offset_nat: "0 < i \<Longrightarrow> nat (parent_offset (int i)) = (i - 1) div 2"
  by (cases i) (simp_all add: parent_offset_def signed_divide_int_def nat_div_distrib)

function sift_up :: "('d, 'x) binaryheap \<Rightarrow> nat \<Rightarrow> ('d, 'x) binaryheap" where
  "sift_up heap node_off =
     (if node_off \<noteq> 0 then
        (let parent_off = nat (parent_offset (int node_off)); cmp = cmp_nodes heap node_off parent_off
         in if cmp \<le> 0 then heap else sift_up (swap_nodes heap node_off parent_off) parent_off)
      else heap)"
  by pat_completeness auto
termination
  by (relation "measure snd") (auto simp: parent_offset_nat)

text \<open>The child to swap with, 0 for none.\<close>

definition swap_offset :: "('d, 'x) binaryheap \<Rightarrow> nat \<Rightarrow> nat" where
  "swap_offset heap node_off =
     (let left_off = left_offset node_off; right_off = right_offset node_off;
          swap_off = (if left_off < bh_size heap \<and> cmp_nodes heap node_off left_off < 0 then left_off else 0)
      in if right_off < bh_size heap \<and> cmp_nodes heap node_off right_off < 0 then
           (if swap_off = 0 \<or> cmp_nodes heap left_off right_off < 0 then right_off else swap_off)
         else swap_off)"

lemma swap_offset_bounds:
  "swap_offset heap off \<noteq> 0 \<Longrightarrow> off < swap_offset heap off \<and> swap_offset heap off < bh_size heap"
  by (auto simp: swap_offset_def Let_def left_offset_def right_offset_def split: if_splits)

lemma swap_nodes_sel [simp]:
  "bh_size (swap_nodes heap a b) = bh_size heap" "bh_space (swap_nodes heap a b) = bh_space heap"
  "bh_compare (swap_nodes heap a b) = bh_compare heap" "bh_arg (swap_nodes heap a b) = bh_arg heap"
  "bh_has_heap_property (swap_nodes heap a b) = bh_has_heap_property heap"
  "bh_nodes (swap_nodes heap a b) = (bh_nodes heap)[a := bh_nodes heap ! b, b := bh_nodes heap ! a]"
  by (simp_all add: swap_nodes_def)

function sift_down :: "('d, 'x) binaryheap \<Rightarrow> nat \<Rightarrow> ('d, 'x) binaryheap" where
  "sift_down heap node_off =
     (let swap_off = swap_offset heap node_off
      in if swap_off = 0 then heap
         else sift_down (swap_nodes heap swap_off node_off) swap_off)"
  by pat_completeness auto
termination
proof (relation "measure (\<lambda>(heap, off). bh_size heap - off)")
  fix heap :: "('d, 'x) binaryheap" and off x
  assume "x = swap_offset heap off" "x \<noteq> 0"
  with swap_offset_bounds [of heap off]
  show "((swap_nodes heap x off, x), heap, off) \<in> measure (\<lambda>(heap, off). bh_size heap - off)"
    by simp linarith
qed simp

declare sift_up.simps [simp del] sift_down.simps [simp del]

definition binaryheap_add_unordered :: "('d, 'x) binaryheap \<Rightarrow> 'd \<Rightarrow> bh_error + ('d, 'x) binaryheap" where
  "binaryheap_add_unordered heap d =
     (if bh_size heap \<ge> bh_space heap then Inl Out_Of_Slots
      else Inr (heap\<lparr>bh_has_heap_property := False,
             bh_nodes := (bh_nodes heap)[bh_size heap := d], bh_size := bh_size heap + 1\<rparr>))"

text \<open>The loop of \<^verbatim>\<open>binaryheap_build\<close>, downwards from \<open>i\<close> to 0.\<close>

fun build_loop :: "('d, 'x) binaryheap \<Rightarrow> nat \<Rightarrow> ('d, 'x) binaryheap" where
  "build_loop heap 0 = sift_down heap 0"
| "build_loop heap (Suc i) = build_loop (sift_down heap (Suc i)) i"

definition binaryheap_build :: "('d, 'x) binaryheap \<Rightarrow> ('d, 'x) binaryheap" where
  "binaryheap_build heap =
     (let i = parent_offset (int (bh_size heap) - 1);
          heap' = (if i \<ge> 0 then build_loop heap (nat i) else heap)
      in heap'\<lparr>bh_has_heap_property := True\<rparr>)"

definition binaryheap_add :: "('d, 'x) binaryheap \<Rightarrow> 'd \<Rightarrow> bh_error + ('d, 'x) binaryheap" where
  "binaryheap_add heap d =
     (if bh_size heap \<ge> bh_space heap then Inl Out_Of_Slots
      else
        (let heap' = heap\<lparr>bh_nodes := (bh_nodes heap)[bh_size heap := d], bh_size := bh_size heap + 1\<rparr>
         in Inr (sift_up heap' (bh_size heap' - 1))))"

definition binaryheap_empty :: "('d, 'x) binaryheap \<Rightarrow> bool" where
  "binaryheap_empty heap \<longleftrightarrow> bh_size heap = 0"

definition binaryheap_first :: "('d, 'x) binaryheap \<Rightarrow> bh_error + 'd" where
  "binaryheap_first heap =
     (if \<not> (\<not> binaryheap_empty heap \<and> bh_has_heap_property heap) then Inl Assert_Nonempty
      else Inr (bh_nodes heap ! 0))"

definition binaryheap_remove_first :: "('d, 'x) binaryheap \<Rightarrow> bh_error + ('d \<times> ('d, 'x) binaryheap)" where
  "binaryheap_remove_first heap =
     (if \<not> (\<not> binaryheap_empty heap \<and> bh_has_heap_property heap) then Inl Assert_Nonempty
      else if bh_size heap = 1 then Inr (bh_nodes heap ! 0, heap\<lparr>bh_size := bh_size heap - 1\<rparr>)
      else
        (let heap1 = swap_nodes heap 0 (bh_size heap - 1);
             heap2 = heap1\<lparr>bh_size := bh_size heap1 - 1\<rparr>;
             heap3 = sift_down heap2 0
         in Inr (bh_nodes heap3 ! bh_size heap3, heap3)))"

definition binaryheap_replace_first :: "('d, 'x) binaryheap \<Rightarrow> 'd \<Rightarrow> bh_error + ('d, 'x) binaryheap" where
  "binaryheap_replace_first heap d =
     (if \<not> (\<not> binaryheap_empty heap \<and> bh_has_heap_property heap) then Inl Assert_Nonempty
      else
        (let heap1 = heap\<lparr>bh_nodes := (bh_nodes heap)[0 := d]\<rparr>
         in Inr (if bh_size heap1 > 1 then sift_down heap1 0 else heap1)))"

text \<open>
  The comparator of the merge, on the positions of two transactions in the table of the merge
  state, whose entries hold the LSN of their next change.
\<close>

definition ReorderBufferIterCompare :: "nat \<Rightarrow> nat \<Rightarrow> uint64 list \<Rightarrow> int" where
  "ReorderBufferIterCompare a b entries =
     (let pos_a = entries ! a; pos_b = entries ! b
      in if pos_a < pos_b then 1 else if pos_a = pos_b then 0 else -1)"

section \<open>Heaps in arrays\<close>

abbreviation par :: "nat \<Rightarrow> nat" where
  "par i \<equiv> (i - 1) div 2"

abbreviation swapped :: "'d list \<Rightarrow> nat \<Rightarrow> nat \<Rightarrow> 'd list" where
  "swapped xs a b \<equiv> xs[a := xs ! b, b := xs ! a]"

lemma swapped_nth:
  "a < length xs \<Longrightarrow> b < length xs \<Longrightarrow>
   swapped xs a b ! i = (if i = a then xs ! b else if i = b then xs ! a else xs ! i)"
  by (cases "i < length xs") (auto simp: nth_list_update)

lemma mset_take_swapped:
  "a < n \<Longrightarrow> b < n \<Longrightarrow> n \<le> length xs \<Longrightarrow> mset (take n (swapped xs a b)) = mset (take n xs)"
  using mset_swap [of b "take n xs" a] by (simp add: take_update_swap)

definition heap_cmp :: "('d, 'x) binaryheap \<Rightarrow> 'd \<Rightarrow> 'd \<Rightarrow> int" where
  "heap_cmp h a b = bh_compare h a b (bh_arg h)"

definition heap_elems :: "('d, 'x) binaryheap \<Rightarrow> 'd multiset" where
  "heap_elems h = mset (take (bh_size h) (bh_nodes h))"

definition heap_wf :: "('d, 'x) binaryheap \<Rightarrow> bool" where
  "heap_wf h \<longleftrightarrow> length (bh_nodes h) = bh_space h \<and> bh_size h \<le> bh_space h"

text \<open>\<open>heap_from s\<close>: every node whose parent is at \<open>s\<close> or beyond is at most its parent.\<close>

definition heap_from :: "('d \<Rightarrow> 'd \<Rightarrow> int) \<Rightarrow> nat \<Rightarrow> nat \<Rightarrow> 'd list \<Rightarrow> bool" where
  "heap_from cmp s n xs \<longleftrightarrow> (\<forall>i. 0 < i \<and> i < n \<and> s \<le> par i \<longrightarrow> cmp (xs ! i) (xs ! par i) \<le> 0)"

definition heap_ok :: "('d, 'x) binaryheap \<Rightarrow> bool" where
  "heap_ok h \<longleftrightarrow> heap_wf h \<and> heap_from (heap_cmp h) 0 (bh_size h) (bh_nodes h)"

text \<open>What sifting keeps: everything but the order of the nodes in use.\<close>

definition same_frame :: "('d, 'x) binaryheap \<Rightarrow> ('d, 'x) binaryheap \<Rightarrow> bool" where
  "same_frame h h' \<longleftrightarrow> bh_size h' = bh_size h \<and> bh_space h' = bh_space h \<and>
     bh_compare h' = bh_compare h \<and> bh_arg h' = bh_arg h \<and>
     bh_has_heap_property h' = bh_has_heap_property h \<and> length (bh_nodes h') = length (bh_nodes h) \<and>
     (\<forall>k. bh_size h \<le> k \<longrightarrow> bh_nodes h' ! k = bh_nodes h ! k) \<and> heap_elems h' = heap_elems h"

lemma same_frame_refl [simp]: "same_frame h h"
  by (simp add: same_frame_def)

lemma same_frame_trans: "same_frame h1 h2 \<Longrightarrow> same_frame h2 h3 \<Longrightarrow> same_frame h1 h3"
  by (simp add: same_frame_def)

lemma same_frame_swap:
  "heap_wf h \<Longrightarrow> a < bh_size h \<Longrightarrow> b < bh_size h \<Longrightarrow> same_frame h (swap_nodes h a b)"
  by (auto simp: same_frame_def heap_wf_def heap_elems_def mset_take_swapped swapped_nth)

lemma same_frame_wf: "same_frame h h' \<Longrightarrow> heap_wf h \<Longrightarrow> heap_wf h'"
  by (simp add: same_frame_def heap_wf_def)

lemma same_frame_cmp: "same_frame h h' \<Longrightarrow> heap_cmp h' = heap_cmp h"
  by (simp add: same_frame_def heap_cmp_def fun_eq_iff)

lemma sift_up_frame: "heap_wf h \<Longrightarrow> off < bh_size h \<Longrightarrow> same_frame h (sift_up h off)"
proof (induction h off rule: sift_up.induct)
  case (1 h off)
  show ?case
  proof (cases "off \<noteq> 0 \<and> \<not> cmp_nodes h off (par off) \<le> 0")
    case True
    then have step: "sift_up h off = sift_up (swap_nodes h off (par off)) (par off)"
      and swap: "same_frame h (swap_nodes h off (par off))"
      using 1 by (subst sift_up.simps, simp add: parent_offset_nat Let_def, intro same_frame_swap, auto)
    have "same_frame (swap_nodes h off (par off)) (sift_up (swap_nodes h off (par off)) (par off))"
      using 1 True same_frame_wf [OF swap] by (auto simp: parent_offset_nat)
    then show ?thesis unfolding step by (rule same_frame_trans [OF swap])
  next
    case False
    then show ?thesis by (subst sift_up.simps) (auto simp: parent_offset_nat Let_def)
  qed
qed

lemma sift_down_frame: "heap_wf h \<Longrightarrow> off < bh_size h \<Longrightarrow> same_frame h (sift_down h off)"
proof (induction h off rule: sift_down.induct)
  case (1 h off)
  show ?case
  proof (cases "swap_offset h off = 0")
    case False
    let ?w = "swap_offset h off"
    have w: "?w < bh_size h" using swap_offset_bounds [OF False] by simp
    have swap: "same_frame h (swap_nodes h ?w off)" using 1 w by (intro same_frame_swap) auto
    have "same_frame (swap_nodes h ?w off) (sift_down (swap_nodes h ?w off) ?w)"
      using 1 False w same_frame_wf [OF swap] by simp
    then show ?thesis using False by (subst sift_down.simps) (simp add: Let_def same_frame_trans [OF swap])
  qed (subst sift_down.simps, simp)
qed

lemma par_less: "0 < i \<Longrightarrow> par i < i"
  by linarith

lemma heap_cmp_flag [simp]:
  "heap_cmp (h\<lparr>bh_has_heap_property := b\<rparr>) = heap_cmp h" "heap_cmp (h\<lparr>bh_size := n\<rparr>) = heap_cmp h"
  "heap_cmp (h\<lparr>bh_nodes := xs\<rparr>) = heap_cmp h"
  by (simp_all add: heap_cmp_def fun_eq_iff)

lemma heap_flag:
  "heap_ok (h\<lparr>bh_has_heap_property := True\<rparr>) = heap_ok h"
  "heap_elems (h\<lparr>bh_has_heap_property := True\<rparr>) = heap_elems h"
  by (simp_all add: heap_ok_def heap_wf_def heap_elems_def)

lemma frame_ok:
  assumes "same_frame h h'" "heap_wf h" "heap_from (heap_cmp h) 0 (bh_size h) (bh_nodes h')"
  shows "heap_ok h' \<and> heap_elems h' = heap_elems h \<and> heap_cmp h' = heap_cmp h \<and>
    bh_has_heap_property h' = bh_has_heap_property h \<and> bh_size h' = bh_size h \<and> bh_space h' = bh_space h"
  using assms same_frame_wf [OF assms(1,2)] same_frame_cmp [OF assms(1)]
  by (simp add: heap_ok_def same_frame_def)

section \<open>Comparators\<close>

text \<open>
  The contract of \<^verbatim>\<open>binaryheap_comparator\<close> in \<^verbatim>\<open>binaryheap.h\<close>: the sign of the result orders the
  nodes.
\<close>

locale comparator =
  fixes cmp :: "'d \<Rightarrow> 'd \<Rightarrow> int"
  assumes cmp_sign: "cmp a b < 0 \<longleftrightarrow> 0 < cmp b a"
    and cmp_trans: "cmp a b \<le> 0 \<Longrightarrow> cmp b c \<le> 0 \<Longrightarrow> cmp a c \<le> 0"
begin

lemma cmp_refl: "cmp a a \<le> 0"
  using cmp_sign [of a a] by linarith

lemma cmp_less_le: "cmp a b < 0 \<Longrightarrow> cmp a b \<le> 0"
  by simp

lemma cmp_not_le: "\<not> cmp a b \<le> 0 \<Longrightarrow> cmp b a \<le> 0"
  using cmp_sign [of b a] by linarith

lemma cmp_not_less: "\<not> cmp a b < 0 \<Longrightarrow> cmp b a \<le> 0"
  using cmp_sign [of a b] by linarith

text \<open>The array with a hole for the node being sifted up.\<close>

definition up_hole :: "nat \<Rightarrow> nat \<Rightarrow> 'd list \<Rightarrow> bool" where
  "up_hole n off xs \<longleftrightarrow>
     (\<forall>i. 0 < i \<and> i < n \<and> i \<noteq> off \<longrightarrow> cmp (xs ! i) (xs ! par i) \<le> 0) \<and>
     (\<forall>c. 0 < c \<and> c < n \<and> par c = off \<and> 0 < off \<longrightarrow> cmp (xs ! c) (xs ! par off) \<le> 0)"

lemma up_hole_step:
  assumes "up_hole n off xs" "0 < off" "off < n" "n \<le> length xs" "\<not> cmp (xs ! off) (xs ! par off) \<le> 0"
  shows "up_hole n (par off) (swapped xs off (par off))"
proof -
  let ?p = "par off" and ?ys = "swapped xs off (par off)"
  have p: "?p < off" using assms(2) by auto
  have ys: "?ys ! i = (if i = off then xs ! ?p else if i = ?p then xs ! off else xs ! i)" for i
    using assms p by (intro swapped_nth) auto
  have po: "cmp (xs ! ?p) (xs ! off) \<le> 0" using assms(5) by (rule cmp_not_le)
  have edge: "cmp (xs ! i) (xs ! par i) \<le> 0" if "0 < i" "i < n" "i \<noteq> off" for i
    using assms(1) that by (simp add: up_hole_def)
  have hop: "cmp (xs ! c) (xs ! ?p) \<le> 0" if "0 < c" "c < n" "par c = off" for c
    using assms(1,2) that by (simp add: up_hole_def)
  have "cmp (?ys ! i) (?ys ! par i) \<le> 0" if i: "0 < i" "i < n" "i \<noteq> ?p" for i
  proof -
    consider "i = off" | "i \<noteq> off" "par i = off" | "i \<noteq> off" "par i = ?p" "par i \<noteq> off" | "i \<noteq> off" "par i \<noteq> off" "par i \<noteq> ?p"
      by blast
    then show ?thesis
    proof cases
      case 1
      then show ?thesis using p po ys [of off] ys [of ?p] by simp
    next
      case 2
      then show ?thesis using i hop [of i] ys [of i] ys [of off] by simp
    next
      case 3
      have "cmp (xs ! i) (xs ! off) \<le> 0"
        using cmp_trans [OF edge [OF i(1,2) 3(1)]] po unfolding 3(2) by blast
      with 3 show ?thesis using i ys [of i] ys [of ?p] p by simp
    next
      case 4
      then show ?thesis using i edge [of i] ys [of i] ys [of "par i"] by simp
    qed
  qed
  moreover have "cmp (?ys ! c) (?ys ! par ?p) \<le> 0" if c: "0 < c" "c < n" "par c = ?p" "0 < ?p" for c
  proof -
    have off: "par ?p \<noteq> off" "par ?p \<noteq> ?p" "?p < n" "?p \<noteq> off"
      using par_less [OF c(4)] p assms(3) by linarith+
    have top: "?ys ! par ?p = xs ! par ?p" "cmp (xs ! ?p) (xs ! par ?p) \<le> 0"
      using ys [of "par ?p"] off(1,2) edge [OF c(4) off(3,4)] by simp_all
    show ?thesis
    proof (cases "c = off")
      case True
      then show ?thesis using top ys [of off] by simp
    next
      case False
      have "cmp (xs ! c) (xs ! par ?p) \<le> 0"
        using cmp_trans [OF edge [OF c(1,2) False]] top(2) unfolding c(3) by blast
      moreover have "c \<noteq> ?p" using c by auto
      ultimately show ?thesis using False top(1) ys [of c] by simp
    qed
  qed
  ultimately show ?thesis unfolding up_hole_def by blast
qed

lemma up_hole_done: "up_hole n off xs \<Longrightarrow> off = 0 \<or> cmp (xs ! off) (xs ! par off) \<le> 0 \<Longrightarrow> heap_from cmp 0 n xs"
  by (auto simp: up_hole_def heap_from_def)

lemma sift_up_heap:
  "heap_wf h \<Longrightarrow> off < bh_size h \<Longrightarrow> heap_cmp h = cmp \<Longrightarrow> up_hole (bh_size h) off (bh_nodes h) \<Longrightarrow>
   heap_from cmp 0 (bh_size h) (bh_nodes (sift_up h off))"
proof (induction h off rule: sift_up.induct)
  case (1 h off)
  have cn: "cmp_nodes h a b = cmp (bh_nodes h ! a) (bh_nodes h ! b)" for a b
    using 1(4) by (auto simp: cmp_nodes_def heap_cmp_def)
  show ?case
  proof (cases "off \<noteq> 0 \<and> \<not> cmp_nodes h off (par off) \<le> 0")
    case True
    let ?h = "swap_nodes h off (par off)"
    have swap: "same_frame h ?h" using 1 True by (intro same_frame_swap) auto
    have step: "sift_up h off = sift_up ?h (par off)"
      using True by (subst sift_up.simps) (simp add: parent_offset_nat Let_def)
    have "up_hole (bh_size ?h) (par off) (bh_nodes ?h)"
      using up_hole_step [OF 1(5)] 1(2,3) True by (simp add: cn heap_wf_def)
    with 1 True same_frame_wf [OF swap] same_frame_cmp [OF swap] show ?thesis
      unfolding step by (auto simp: parent_offset_nat)
  next
    case False
    then have "sift_up h off = h" by (subst sift_up.simps) (auto simp: parent_offset_nat Let_def)
    with False show ?thesis using up_hole_done [OF 1(5)] by (auto simp: cn)
  qed
qed

text \<open>The array from \<open>s\<close> on, with a hole for the node being sifted down.\<close>

definition down_hole :: "nat \<Rightarrow> nat \<Rightarrow> nat \<Rightarrow> 'd list \<Rightarrow> bool" where
  "down_hole s n off xs \<longleftrightarrow>
     (\<forall>i. 0 < i \<and> i < n \<and> s \<le> par i \<and> par i \<noteq> off \<longrightarrow> cmp (xs ! i) (xs ! par i) \<le> 0) \<and>
     (\<forall>c. 0 < c \<and> c < n \<and> par c = off \<and> 0 < off \<and> s \<le> par off \<longrightarrow> cmp (xs ! c) (xs ! par off) \<le> 0)"

lemma down_hole_step:
  assumes "down_hole s n off xs" "s \<le> off" "w < n" "0 < w" "par w = off" "n \<le> length xs"
    and below: "cmp (xs ! off) (xs ! w) \<le> 0"
    and largest: "\<And>c. 0 < c \<Longrightarrow> c < n \<Longrightarrow> par c = off \<Longrightarrow> cmp (xs ! c) (xs ! w) \<le> 0"
  shows "down_hole s n w (swapped xs w off)"
proof -
  let ?ys = "swapped xs w off"
  have w: "off < w" using assms(4,5) by auto
  have ys: "?ys ! i = (if i = w then xs ! off else if i = off then xs ! w else xs ! i)" for i
    using assms w by (intro swapped_nth) auto
  have edge: "cmp (xs ! i) (xs ! par i) \<le> 0" if "0 < i" "i < n" "s \<le> par i" "par i \<noteq> off" for i
    using assms(1) that by (simp add: down_hole_def)
  have hop: "cmp (xs ! w) (xs ! par off) \<le> 0" if "0 < off" "s \<le> par off"
    using assms(1,3,4,5) that by (simp add: down_hole_def)
  have "cmp (?ys ! i) (?ys ! par i) \<le> 0" if i: "0 < i" "i < n" "s \<le> par i" "par i \<noteq> w" for i
  proof -
    consider "i = w" | "i \<noteq> w" "par i = off" | "i = off" "par i \<noteq> off" | "i \<noteq> w" "i \<noteq> off" "par i \<noteq> off"
      by blast
    then show ?thesis
    proof cases
      case 1
      then show ?thesis using w below assms(5) ys [of w] ys [of off] by simp
    next
      case 2
      have "i \<noteq> off" using 2 i by auto
      with 2 show ?thesis using w i largest [of i] ys [of i] ys [of off] by simp
    next
      case 3
      then show ?thesis using w i hop ys [of off] ys [of "par off"] by simp
    next
      case 4
      then show ?thesis using i edge [of i] ys [of i] ys [of "par i"] by simp
    qed
  qed
  moreover have "cmp (?ys ! c) (?ys ! par w) \<le> 0" if c: "0 < c" "c < n" "par c = w" for c
  proof -
    have "c \<noteq> w" "c \<noteq> off" using c w by auto
    then show ?thesis using c w edge [of c] assms(2,5) ys [of c] ys [of off] by simp
  qed
  ultimately show ?thesis unfolding down_hole_def by blast
qed

lemma children: "0 < c \<Longrightarrow> par c = off \<longleftrightarrow> c = left_offset off \<or> c = right_offset off"
  by (auto simp: left_offset_def right_offset_def)

lemma swap_offset_spec:
  assumes "heap_cmp h = cmp"
  shows "if swap_offset h off = 0
    then \<forall>c. 0 < c \<and> c < bh_size h \<and> par c = off \<longrightarrow> cmp (bh_nodes h ! c) (bh_nodes h ! off) \<le> 0
    else par (swap_offset h off) = off \<and> cmp (bh_nodes h ! off) (bh_nodes h ! swap_offset h off) \<le> 0 \<and>
      (\<forall>c. 0 < c \<and> c < bh_size h \<and> par c = off \<longrightarrow>
         cmp (bh_nodes h ! c) (bh_nodes h ! swap_offset h off) \<le> 0)"
proof -
  let ?l = "left_offset off" and ?r = "right_offset off"
  have cn: "cmp_nodes h a b = cmp (bh_nodes h ! a) (bh_nodes h ! b)" for a b
    using assms by (auto simp: cmp_nodes_def heap_cmp_def)
  have par: "par ?l = off" "par ?r = off" "0 < ?l" "0 < ?r" "?l \<noteq> ?r" by (auto simp: left_offset_def right_offset_def)
  have all: "(\<forall>c. 0 < c \<and> c < bh_size h \<and> par c = off \<longrightarrow> P c) \<longleftrightarrow>
      (?l < bh_size h \<longrightarrow> P ?l) \<and> (?r < bh_size h \<longrightarrow> P ?r)" for P
    using par children by metis
  show ?thesis
    unfolding all swap_offset_def Let_def cn
    using par cmp_refl cmp_not_less cmp_less_le
      cmp_trans [of "bh_nodes h ! ?l" "bh_nodes h ! off" "bh_nodes h ! ?r"]
      cmp_trans [of "bh_nodes h ! ?r" "bh_nodes h ! off" "bh_nodes h ! ?l"]
    by (auto split: if_splits)
qed

lemma sift_down_heap:
  "heap_wf h \<Longrightarrow> off < bh_size h \<Longrightarrow> heap_cmp h = cmp \<Longrightarrow> s \<le> off \<Longrightarrow>
   down_hole s (bh_size h) off (bh_nodes h) \<Longrightarrow>
   heap_from cmp s (bh_size h) (bh_nodes (sift_down h off))"
proof (induction h off rule: sift_down.induct)
  case (1 h off)
  note spec = swap_offset_spec [OF 1(4), of off]
  show ?case
  proof (cases "swap_offset h off = 0")
    case True
    then have "sift_down h off = h" by (subst sift_down.simps) simp
    moreover have "heap_from cmp s (bh_size h) (bh_nodes h)"
      using spec True 1(6) by (auto simp: heap_from_def down_hole_def)
    ultimately show ?thesis by simp
  next
    case False
    let ?w = "swap_offset h off" let ?h = "swap_nodes h ?w off"
    have w: "off < ?w" "?w < bh_size h" using swap_offset_bounds [OF False] by simp_all
    have swap: "same_frame h ?h" using 1 w by (intro same_frame_swap) auto
    have "down_hole s (bh_size h) ?w (swapped (bh_nodes h) ?w off)"
      using spec False w 1 by (intro down_hole_step) (auto simp: heap_wf_def)
    then have "heap_from cmp s (bh_size ?h) (bh_nodes (sift_down ?h ?w))"
      using 1(1) [OF refl False] 1(3-6) w same_frame_wf [OF swap 1(2)] same_frame_cmp [OF swap] by simp
    then show ?thesis using False by (subst sift_down.simps) (simp add: Let_def)
  qed
qed
text \<open>The operations on whole heaps.\<close>

lemma root_largest:
  "heap_from cmp 0 n xs \<Longrightarrow> i < n \<Longrightarrow> cmp (xs ! i) (xs ! 0) \<le> 0"
proof (induction i rule: less_induct)
  case (less i)
  show ?case
  proof (cases "i = 0")
    case False
    then have "par i < i" "par i < n" using par_less [of i] less.prems(2) by auto
    moreover have "cmp (xs ! i) (xs ! par i) \<le> 0"
      using less.prems False by (simp add: heap_from_def)
    ultimately show ?thesis using less.IH [of "par i"] less.prems(1) cmp_trans by blast
  qed (simp add: cmp_refl)
qed

lemma root_largest_elem:
  assumes "heap_ok h" "heap_cmp h = cmp" "x \<in># heap_elems h"
  shows "cmp x (bh_nodes h ! 0) \<le> 0"
proof -
  obtain i where "i < bh_size h" "x = bh_nodes h ! i"
    using assms(1,3) by (auto simp: heap_elems_def heap_ok_def heap_wf_def in_set_conv_nth)
  with assms(1,2) root_largest [of "bh_size h" "bh_nodes h" i] show ?thesis by (simp add: heap_ok_def)
qed

lemma sift_down_root_ok:
  assumes "heap_wf h" "0 < bh_size h" "heap_cmp h = cmp"
    and "\<And>i. 0 < i \<Longrightarrow> i < bh_size h \<Longrightarrow> par i \<noteq> 0 \<Longrightarrow> cmp (bh_nodes h ! i) (bh_nodes h ! par i) \<le> 0"
  shows "heap_ok (sift_down h 0)"
proof -
  have "down_hole 0 (bh_size h) 0 (bh_nodes h)" using assms(4) by (simp add: down_hole_def)
  with sift_down_heap [OF assms(1-3), of 0]
  have "heap_from cmp 0 (bh_size h) (bh_nodes (sift_down h 0))" by simp
  then show ?thesis
    using sift_down_frame [OF assms(1,2)] assms(1,3) same_frame_cmp same_frame_wf
    by (fastforce simp: heap_ok_def same_frame_def)
qed

lemma build_loop_heap:
  "heap_wf h \<Longrightarrow> heap_cmp h = cmp \<Longrightarrow> i < bh_size h \<Longrightarrow> heap_from cmp (Suc i) (bh_size h) (bh_nodes h) \<Longrightarrow>
   same_frame h (build_loop h i) \<and> heap_from cmp 0 (bh_size h) (bh_nodes (build_loop h i))"
proof (induction h i rule: build_loop.induct)
  case (1 h)
  have "down_hole 0 (bh_size h) 0 (bh_nodes h)"
    using 1(4) by (auto simp: heap_from_def down_hole_def Suc_le_eq)
  with 1 show ?case using sift_down_frame [of h 0] sift_down_heap [of h 0 0] by simp
next
  case (2 h i)
  have frame: "same_frame h (sift_down h (Suc i))" using 2 by (intro sift_down_frame) auto
  have "down_hole (Suc i) (bh_size h) (Suc i) (bh_nodes h)"
    using 2(5) by (auto simp: heap_from_def down_hole_def)
  then have "heap_from cmp (Suc i) (bh_size h) (bh_nodes (sift_down h (Suc i)))"
    using 2 by (intro sift_down_heap) auto
  with 2 frame show ?case
    using same_frame_wf [OF frame] same_frame_cmp [OF frame] same_frame_trans [OF frame]
    by (simp add: same_frame_def)
qed

lemma build_ok:
  assumes "heap_wf h" "heap_cmp h = cmp"
  shows "heap_ok (binaryheap_build h) \<and> heap_elems (binaryheap_build h) = heap_elems h
    \<and> bh_has_heap_property (binaryheap_build h) \<and> heap_cmp (binaryheap_build h) = cmp"
proof (cases "bh_size h = 0")
  case True
  then show ?thesis using assms
    by (simp add: binaryheap_build_def parent_offset_def signed_divide_int_def heap_flag)
      (simp add: heap_ok_def heap_from_def)
next
  case False
  define i where "i = nat (parent_offset (int (bh_size h) - 1))"
  have "bh_size h = 1 \<or> (\<exists>n. bh_size h = Suc (Suc n))" using False by (cases "bh_size h") (auto, presburger)
  then have i: "0 \<le> parent_offset (int (bh_size h) - 1)" "i = (bh_size h - 2) div 2"
    by (auto simp: i_def parent_offset_def signed_divide_int_def nat_div_distrib)
  have "heap_from cmp (Suc i) (bh_size h) (bh_nodes h)"
    unfolding heap_from_def i(2) by auto
  moreover have "i < bh_size h" using False i(2) by auto
  ultimately have "same_frame h (build_loop h i)" "heap_from cmp 0 (bh_size h) (bh_nodes (build_loop h i))"
    using build_loop_heap [OF assms, of i] by simp_all
  with frame_ok [of h "build_loop h i"] assms show ?thesis
    using i(1) by (simp add: binaryheap_build_def heap_flag i_def [symmetric])
qed

lemma add_ok:
  assumes "heap_ok h" "heap_cmp h = cmp" "bh_size h < bh_space h"
  shows "\<exists>h'. binaryheap_add h d = Inr h' \<and> heap_ok h' \<and> heap_elems h' = add_mset d (heap_elems h) \<and>
    heap_cmp h' = cmp \<and> bh_has_heap_property h' = bh_has_heap_property h \<and> bh_size h' = Suc (bh_size h)
    \<and> bh_space h' = bh_space h"
proof -
  let ?n = "bh_size h"
  define h1 where "h1 = h\<lparr>bh_nodes := (bh_nodes h)[?n := d], bh_size := ?n + 1\<rparr>"
  have wf: "heap_wf h1" "?n < bh_size h1" "heap_cmp h1 = cmp"
    using assms by (simp_all add: h1_def heap_ok_def heap_wf_def)
  have len: "?n < length (bh_nodes h)" using assms by (simp add: heap_ok_def heap_wf_def)
  have "cmp ((bh_nodes h)[?n := d] ! i) ((bh_nodes h)[?n := d] ! par i) \<le> 0" if "0 < i" "i < Suc ?n" "i \<noteq> ?n" for i
    using that assms(1,2) par_less [OF that(1)] by (simp add: heap_ok_def heap_from_def)
  moreover have False if "0 < c" "c < Suc ?n" "par c = ?n" for c
    using that par_less [OF that(1)] by simp
  ultimately have "up_hole (bh_size h1) ?n (bh_nodes h1)"
    unfolding up_hole_def h1_def by auto
  with wf have "heap_from cmp 0 (bh_size h1) (bh_nodes (sift_up h1 ?n))" by (intro sift_up_heap)
  with frame_ok [OF sift_up_frame [OF wf(1,2)] wf(1)] wf(3)
  have "heap_ok (sift_up h1 ?n) \<and> heap_elems (sift_up h1 ?n) = heap_elems h1 \<and> heap_cmp (sift_up h1 ?n) = cmp
      \<and> bh_has_heap_property (sift_up h1 ?n) = bh_has_heap_property h1 \<and> bh_size (sift_up h1 ?n) = bh_size h1
      \<and> bh_space (sift_up h1 ?n) = bh_space h1" by simp
  moreover have "binaryheap_add h d = Inr (sift_up h1 ?n)"
    using assms(3) by (simp add: binaryheap_add_def h1_def Let_def)
  moreover have "heap_elems h1 = add_mset d (heap_elems h)"
    using len by (simp add: heap_elems_def h1_def take_Suc_conv_app_nth)
  ultimately show ?thesis by (simp add: h1_def)
qed

lemma replace_first_ok:
  assumes "heap_ok h" "heap_cmp h = cmp" "0 < bh_size h" "bh_has_heap_property h"
  shows "\<exists>h'. binaryheap_replace_first h d = Inr h' \<and> heap_ok h' \<and>
    add_mset (bh_nodes h ! 0) (heap_elems h') = add_mset d (heap_elems h)"
proof -
  define h1 where "h1 = h\<lparr>bh_nodes := (bh_nodes h)[0 := d]\<rparr>"
  have wf: "heap_wf h1" "0 < bh_size h1" "heap_cmp h1 = cmp" "0 < length (bh_nodes h)"
    using assms by (auto simp: h1_def heap_ok_def heap_wf_def)
  have edge: "cmp (bh_nodes h1 ! i) (bh_nodes h1 ! par i) \<le> 0" if "0 < i" "i < bh_size h1" "par i \<noteq> 0" for i
    using that assms(1,2) by (simp add: h1_def heap_ok_def heap_from_def)
  obtain n xs where "bh_size h = Suc n" "bh_nodes h = (bh_nodes h ! 0) # xs"
    using assms(3) wf(4) by (metis Suc_pred Cons_nth_drop_Suc drop0)
  then have elems: "add_mset (bh_nodes h ! 0) (heap_elems h1) = add_mset d (heap_elems h)"
    by (simp add: heap_elems_def h1_def) (metis add_mset_commute list_update_code(2) mset.simps(2) take_Suc_Cons)
  have "heap_ok (sift_down h1 0)" using sift_down_root_ok [OF wf(1-3) edge] .
  moreover have "heap_elems (sift_down h1 0) = heap_elems h1"
    using sift_down_frame [OF wf(1,2)] by (simp add: same_frame_def)
  moreover have "heap_ok h1" if "\<not> bh_size h1 > 1"
    using that wf by (auto simp: heap_ok_def heap_from_def)
  ultimately show ?thesis
    using assms(3,4) elems
    by (auto simp: binaryheap_replace_first_def binaryheap_empty_def h1_def [symmetric])
qed

lemma remove_first_ok:
  assumes "heap_ok h" "heap_cmp h = cmp" "0 < bh_size h" "bh_has_heap_property h"
  shows "\<exists>h'. binaryheap_remove_first h = Inr (bh_nodes h ! 0, h') \<and> heap_ok h' \<and>
    heap_elems h = add_mset (bh_nodes h ! 0) (heap_elems h') \<and> heap_cmp h' = cmp \<and> bh_has_heap_property h'
    \<and> bh_size h' = bh_size h - 1 \<and> bh_space h' = bh_space h"
proof (cases "bh_size h = 1")
  case True
  with assms show ?thesis
    by (auto simp: binaryheap_remove_first_def binaryheap_empty_def heap_ok_def heap_wf_def heap_elems_def
        heap_from_def take_Suc_conv_app_nth)
next
  case False
  let ?n = "bh_size h - 1"
  define h1 where "h1 = (swap_nodes h 0 ?n)\<lparr>bh_size := ?n\<rparr>"
  have n: "0 < ?n" "?n < length (bh_nodes h)" using assms False by (auto simp: heap_ok_def heap_wf_def)
  have nodes_eq: "bh_nodes h1 = swapped (bh_nodes h) 0 ?n" by (simp add: h1_def)
  have nodes: "bh_nodes h1 ! i = (if i = 0 then bh_nodes h ! ?n else if i = ?n then bh_nodes h ! 0 else bh_nodes h ! i)" for i
    unfolding nodes_eq by (rule swapped_nth) (use n in auto)
  have "heap_wf h1" using assms(1) by (auto simp: h1_def heap_ok_def heap_wf_def)
  moreover have "0 < bh_size h1" "heap_cmp h1 = cmp"
    using n(1) assms(2) by (simp_all add: h1_def heap_cmp_def fun_eq_iff)
  ultimately have wf: "heap_wf h1" "0 < bh_size h1" "heap_cmp h1 = cmp" by blast+
  have "cmp (bh_nodes h1 ! i) (bh_nodes h1 ! par i) \<le> 0" if "0 < i" "i < bh_size h1" "par i \<noteq> 0" for i
    using that par_less [OF that(1)] assms(1,2) nodes [of i] nodes [of "par i"]
    by (simp add: heap_ok_def heap_from_def) (simp add: h1_def)
  then have ok: "heap_ok (sift_down h1 0)" using sift_down_root_ok [OF wf] by simp
  have frame: "same_frame h1 (sift_down h1 0)" by (rule sift_down_frame [OF wf(1,2)])
  have "bh_nodes (sift_down h1 0) ! ?n = bh_nodes h ! 0"
    using frame nodes [of ?n] n(1) by (simp add: same_frame_def h1_def)
  then have step: "binaryheap_remove_first h = Inr (bh_nodes h ! 0, sift_down h1 0)"
    using assms(3,4) False frame
    by (simp add: binaryheap_remove_first_def binaryheap_empty_def Let_def same_frame_def flip: h1_def)
      (simp add: h1_def)
  have "heap_elems h = mset (take (bh_size h) (bh_nodes h1))"
    unfolding heap_elems_def nodes_eq by (rule mset_take_swapped [symmetric]) (use assms(3) n in auto)
  also have "take (bh_size h) (bh_nodes h1) = take ?n (bh_nodes h1) @ [bh_nodes h ! 0]"
    using take_Suc_conv_app_nth [of ?n "bh_nodes h1"] nodes [of ?n] n by (simp add: nodes_eq)
  also have "mset \<dots> = add_mset (bh_nodes h ! 0) (heap_elems h1)"
    by (simp add: heap_elems_def h1_def)
  finally have "heap_elems h = add_mset (bh_nodes h ! 0) (heap_elems (sift_down h1 0))"
    using frame by (simp add: same_frame_def)
  with step ok frame wf(3) same_frame_cmp [OF frame] assms(4) show ?thesis
    by (auto simp: same_frame_def h1_def)
qed
end

section \<open>Priority queues\<close>

text \<open>
  What a client of the heap relies on. \<open>usable\<close> is the state in which the client may take the
  first node. The drain loop \<^verbatim>\<open>while (!binaryheap_empty(heap)) d = binaryheap_remove_first(heap)\<close>
  is \<open>drain\<close>, with the number of rounds as fuel.
\<close>

fun drain :: "('h \<Rightarrow> bool) \<Rightarrow> ('h \<Rightarrow> 'e + ('d \<times> 'h)) \<Rightarrow> nat \<Rightarrow> 'h \<Rightarrow> ('e + 'd list) option" where
  "drain is_empty remove_first 0 h = None"
| "drain is_empty remove_first (Suc fuel) h =
     (if is_empty h then Some (Inr [])
      else
        (case remove_first h of
           Inl e \<Rightarrow> Some (Inl e)
         | Inr (d, h') \<Rightarrow> map_option (map_sum id ((#) d)) (drain is_empty remove_first fuel h')))"

locale priority_queue =
  fixes usable :: "'h \<Rightarrow> bool"
    and elems :: "'h \<Rightarrow> 'd multiset"
    and le :: "'d \<Rightarrow> 'd \<Rightarrow> bool"
    and is_empty :: "'h \<Rightarrow> bool"
    and first :: "'h \<Rightarrow> 'e + 'd"
    and remove_first :: "'h \<Rightarrow> 'e + ('d \<times> 'h)"
  assumes empty_law: "usable h \<Longrightarrow> is_empty h \<longleftrightarrow> elems h = {#}"
    and first_law: "usable h \<Longrightarrow> elems h \<noteq> {#} \<Longrightarrow>
      \<exists>d h'. first h = Inr d \<and> remove_first h = Inr (d, h') \<and> usable h' \<and>
        elems h = add_mset d (elems h') \<and> (\<forall>x \<in># elems h. le x d)"
begin

lemma drain_sorts:
  "usable h \<Longrightarrow> size (elems h) < fuel \<Longrightarrow>
   \<exists>ds. drain is_empty remove_first fuel h = Some (Inr ds) \<and> mset ds = elems h \<and>
     sorted_wrt (\<lambda>x y. le y x) ds"
proof (induction fuel arbitrary: h)
  case (Suc fuel)
  show ?case
  proof (cases "elems h = {#}")
    case True
    with Suc.prems empty_law show ?thesis by simp
  next
    case False
    then obtain d h' where d: "remove_first h = Inr (d, h')" "usable h'" "elems h = add_mset d (elems h')"
      "\<forall>x \<in># elems h. le x d" using first_law [OF Suc.prems(1)] by blast
    with Suc.prems obtain ds where ds: "drain is_empty remove_first fuel h' = Some (Inr ds)"
      "mset ds = elems h'" "sorted_wrt (\<lambda>x y. le y x) ds" using Suc.IH [of h'] by auto
    have "le x d" if "x \<in> set ds" for x using that d(3,4) ds(2) by (metis set_mset_mset union_iff add_mset_add_single)
    with ds d False Suc.prems(1) empty_law show ?thesis by simp
  qed
qed simp

end

sublocale comparator \<subseteq> pq: priority_queue
  "\<lambda>h. heap_ok h \<and> heap_cmp h = cmp \<and> bh_has_heap_property h" heap_elems "\<lambda>x y. cmp x y \<le> 0"
  binaryheap_empty binaryheap_first binaryheap_remove_first
proof
  fix h :: "('d, 'b) binaryheap"
  assume h: "heap_ok h \<and> heap_cmp h = cmp \<and> bh_has_heap_property h"
  show empty: "binaryheap_empty h \<longleftrightarrow> heap_elems h = {#}"
    using h by (auto simp: binaryheap_empty_def heap_elems_def heap_ok_def heap_wf_def)
  assume "heap_elems h \<noteq> {#}"
  with empty have "0 < bh_size h" by (simp add: binaryheap_empty_def)
  with remove_first_ok [of h] h root_largest_elem [of h]
  show "\<exists>d h'. binaryheap_first h = Inr d \<and> binaryheap_remove_first h = Inr (d, h') \<and>
      (heap_ok h' \<and> heap_cmp h' = cmp \<and> bh_has_heap_property h') \<and>
      heap_elems h = add_mset d (heap_elems h') \<and> (\<forall>x \<in># heap_elems h. cmp x d \<le> 0)"
    by (auto simp: binaryheap_first_def binaryheap_empty_def)
qed

context comparator
begin

lemma drain_heap:
  assumes "heap_ok h" "heap_cmp h = cmp" "bh_has_heap_property h" "size (heap_elems h) < fuel"
  shows "\<exists>ds. drain binaryheap_empty binaryheap_remove_first fuel h = Some (Inr ds) \<and>
    mset ds = heap_elems h \<and> sorted_wrt (\<lambda>x y. cmp y x \<le> 0) ds"
  using assms by (intro pq.drain_sorts) simp_all

end

text \<open>The comparator of the merge of change streams satisfies the contract.\<close>

interpretation lsn: comparator "\<lambda>a b. ReorderBufferIterCompare a b entries" for entries
  by unfold_locales (auto simp: ReorderBufferIterCompare_def Let_def split: if_splits)

lemma lsn_heap_cmp: "bh_compare h = ReorderBufferIterCompare \<Longrightarrow> comparator (heap_cmp h)"
  using lsn.comparator_axioms [of "bh_arg h"] by (simp add: heap_cmp_def [abs_def])

lemma lsn_le: "ReorderBufferIterCompare a b entries \<le> 0 \<longleftrightarrow> entries ! b \<le> entries ! a"
  by (auto simp: ReorderBufferIterCompare_def Let_def)

section \<open>Properties of the heap\<close>

text \<open>
  C24. Assembling: whatever nodes were added unordered, \<^verbatim>\<open>binaryheap_build\<close> yields a heap of
  the same nodes, with the flag set, for every comparator that orders the nodes.
\<close>

theorem binaryheap_build_correct:
  assumes "comparator (heap_cmp h)" and "heap_wf h"
  shows "heap_ok (binaryheap_build h) \<and> heap_elems (binaryheap_build h) = heap_elems h
    \<and> bh_has_heap_property (binaryheap_build h)"
  using comparator.build_ok [OF assms(1) assms(2) refl] by simp

theorem binaryheap_build_correct_witness:
  "heap_ok (binaryheap_build \<lparr>bh_size = 3, bh_space = 3, bh_has_heap_property = False,
     bh_compare = ReorderBufferIterCompare, bh_arg = [70, 10, 40], bh_nodes = [0, 1, 2]\<rparr>)"
  by (rule conjunct1, rule binaryheap_build_correct) (simp_all add: lsn_heap_cmp heap_wf_def)

text \<open>
  Adding to a heap: with a free slot the result is a heap that has the new node besides the
  old ones; with none the error of the source is raised, and nothing else raises it.
\<close>

theorem binaryheap_add_correct:
  assumes "comparator (heap_cmp h)" and "heap_ok h"
  shows "(bh_size h = bh_space h \<and> binaryheap_add h d = Inl Out_Of_Slots) \<or>
    (bh_size h < bh_space h \<and> (\<exists>h'. binaryheap_add h d = Inr h' \<and> heap_ok h' \<and>
      heap_elems h' = add_mset d (heap_elems h) \<and> bh_space h' = bh_space h))"
proof (cases "bh_size h < bh_space h")
  case False
  then show ?thesis using assms(2) by (simp add: binaryheap_add_def heap_ok_def heap_wf_def)
qed (use comparator.add_ok [OF assms(1) assms(2) refl] in blast)

theorem binaryheap_add_correct_witness:
  "\<exists>h'. binaryheap_add (binaryheap_allocate 1 ReorderBufferIterCompare [70] [0]) 0 = Inr h' \<and> heap_ok h'"
proof -
  let ?h = "binaryheap_allocate 1 ReorderBufferIterCompare [70] [0]"
  have "comparator (heap_cmp ?h)" by (rule lsn_heap_cmp) (simp add: binaryheap_allocate_def)
  moreover have "heap_ok ?h" by (simp add: heap_ok_def heap_wf_def heap_from_def binaryheap_allocate_def)
  moreover have "bh_size ?h < bh_space ?h" by (simp add: binaryheap_allocate_def)
  ultimately show ?thesis using binaryheap_add_correct [of ?h 0] by auto
qed

text \<open>
  C25. Taking and replacing the first node of a non-empty heap: the node returned is one that no
  node exceeds, exactly that node is removed (or exchanged for the new one), and the rest is again
  a heap.
\<close>

theorem binaryheap_first_correct:
  assumes "comparator (heap_cmp h)" and "heap_ok h" and "bh_has_heap_property h" and "0 < bh_size h"
  shows "\<exists>d h1 h2. binaryheap_first h = Inr d \<and> {x. x \<in># heap_elems h} \<subseteq> {x. heap_cmp h x d \<le> 0} \<and>
    binaryheap_remove_first h = Inr (d, h1) \<and> heap_ok h1 \<and> heap_elems h = add_mset d (heap_elems h1) \<and>
    binaryheap_replace_first h e = Inr h2 \<and> heap_ok h2 \<and> add_mset d (heap_elems h2) = add_mset e (heap_elems h)"
  using comparator.remove_first_ok [OF assms(1,2) refl assms(4,3)]
    comparator.replace_first_ok [OF assms(1,2) refl assms(4,3), of e]
    comparator.root_largest_elem [OF assms(1,2) refl] assms(3,4)
  by (auto simp: binaryheap_first_def binaryheap_empty_def)

theorem binaryheap_first_correct_witness:
  "\<exists>d h1. binaryheap_remove_first \<lparr>bh_size = 2, bh_space = 2, bh_has_heap_property = True,
     bh_compare = ReorderBufferIterCompare, bh_arg = [10, 70], bh_nodes = [0, 1]\<rparr> = Inr (d, h1) \<and> heap_ok h1"
proof -
  let ?h = "\<lparr>bh_size = 2, bh_space = 2, bh_has_heap_property = True,
     bh_compare = ReorderBufferIterCompare, bh_arg = [10, 70], bh_nodes = [0, 1]\<rparr>"
  have "heap_ok ?h"
    by (auto simp: heap_ok_def heap_wf_def heap_from_def heap_cmp_def less_2_cases_iff
        ReorderBufferIterCompare_def)
  then show ?thesis using binaryheap_first_correct [of ?h 1] lsn_heap_cmp [of ?h] by auto
qed



end
