(* ===== verification/FSM_Page.thy ===== *)
theory FSM_Page
  imports OG_Prelude
begin

text \<open>
  One page of the free space map, \<^verbatim>\<open>storage/freespace/fsmpage.cpp\<close>: a binary tree in an array
  whose leaves hold a free space category per slot and whose inner nodes hold the maximum of their
  children. The block size is a parameter, as it is a build option of the server; the default is
  8192. \<open>fsm_ok\<close> is the tree invariant. The code tolerates pages that violate it (torn pages after
  a crash), so the lemmas say what holds on every page and what holds on a consistent one.
\<close>

section \<open>The code\<close>

record fsm_page =
  fp_next_slot :: int
  fp_nodes :: "uint8 list"

definition NodesPerPage :: "nat \<Rightarrow> nat" where
  "NodesPerPage blcksz = blcksz - 24 - 4"

definition NonLeafNodesPerPage :: "nat \<Rightarrow> nat" where
  "NonLeafNodesPerPage blcksz = blcksz div 2 - 1"

definition LeafNodesPerPage :: "nat \<Rightarrow> nat" where
  "LeafNodesPerPage blcksz = NodesPerPage blcksz - NonLeafNodesPerPage blcksz"

abbreviation SlotsPerFSMPage :: "nat \<Rightarrow> nat" where
  "SlotsPerFSMPage \<equiv> LeafNodesPerPage"

definition leftchild :: "nat \<Rightarrow> nat" where
  "leftchild x = 2 * x + 1"

text \<open>The C division truncates: the parent of node 0 is node 0, as with truncated subtraction.\<close>

definition parentof :: "nat \<Rightarrow> nat" where
  "parentof x = (x - 1) div 2"

definition rightneighbor :: "nat \<Rightarrow> nat" where
  "rightneighbor x =
     (let x1 = x + 1 in if (x1 + 1) AND x1 = 0 then parentof x1 else x1)"

text \<open>
  The loop of \<^verbatim>\<open>fsm_rebuild_page\<close>, downwards from node \<open>n - 1\<close> to 0; the flag tells whether a
  node changed.
\<close>

fun rebuild_loop :: "nat \<Rightarrow> uint8 list \<Rightarrow> bool \<Rightarrow> nat \<Rightarrow> bool \<times> uint8 list" where
  "rebuild_loop blcksz nodes changed 0 = (changed, nodes)"
| "rebuild_loop blcksz nodes changed (Suc nodeno) =
     (let lchild = leftchild nodeno; rchild = lchild + 1;
          v1 = (if lchild < NodesPerPage blcksz then nodes ! lchild else 0);
          newvalue = (if rchild < NodesPerPage blcksz then max v1 (nodes ! rchild) else v1)
      in if nodes ! nodeno \<noteq> newvalue
         then rebuild_loop blcksz (nodes[nodeno := newvalue]) True nodeno
         else rebuild_loop blcksz nodes changed nodeno)"

definition fsm_rebuild_page :: "nat \<Rightarrow> fsm_page \<Rightarrow> bool \<times> fsm_page" where
  "fsm_rebuild_page blcksz page =
     (case rebuild_loop blcksz (fp_nodes page) False (NonLeafNodesPerPage blcksz) of
        (changed, nodes) \<Rightarrow> (changed, page\<lparr>fp_nodes := nodes\<rparr>))"

text \<open>The do-while loop of \<^verbatim>\<open>fsm_set_avail\<close>, from the node just changed.\<close>

function set_loop :: "nat \<Rightarrow> uint8 list \<Rightarrow> nat \<Rightarrow> uint8 list" where
  "set_loop blcksz nodes nodeno =
     (let nodeno1 = parentof nodeno; lchild = leftchild nodeno1; rchild = lchild + 1;
          newvalue = (if rchild < NodesPerPage blcksz then max (nodes ! lchild) (nodes ! rchild)
                      else nodes ! lchild)
      in if nodes ! nodeno1 = newvalue then nodes
         else
           (let nodes1 = nodes[nodeno1 := newvalue]
            in if nodeno1 > 0 then set_loop blcksz nodes1 nodeno1 else nodes1))"
  by pat_completeness auto
termination
  by (relation "measure (\<lambda>(b, nodes, nodeno). nodeno)") (auto simp: parentof_def)

definition fsm_set_avail :: "nat \<Rightarrow> fsm_page \<Rightarrow> nat \<Rightarrow> uint8 \<Rightarrow> bool \<times> fsm_page" where
  "fsm_set_avail blcksz page slot value =
     (let nodeno = NonLeafNodesPerPage blcksz + slot; oldvalue = fp_nodes page ! nodeno
      in if oldvalue = value \<and> value \<le> fp_nodes page ! 0 then (False, page)
         else
           (let nodes = set_loop blcksz ((fp_nodes page)[nodeno := value]) nodeno;
                page1 = page\<lparr>fp_nodes := nodes\<rparr>
            in if value > nodes ! 0 then (True, snd (fsm_rebuild_page blcksz page1)) else (True, page1)))"

definition fsm_get_avail :: "nat \<Rightarrow> fsm_page \<Rightarrow> nat \<Rightarrow> uint8" where
  "fsm_get_avail blcksz page slot = fp_nodes page ! (NonLeafNodesPerPage blcksz + slot)"

definition fsm_get_max_avail :: "fsm_page \<Rightarrow> uint8" where
  "fsm_get_max_avail page = fp_nodes page ! 0"

text \<open>The two loops of \<^verbatim>\<open>fsm_search_avail\<close>: climbing to a node with enough space, and descending
  from it, where \<open>None\<close> means that neither child has the space its parent promised.\<close>

lemma parentof_rightneighbor: "parentof (rightneighbor x) \<le> x div 2"
  by (auto simp: rightneighbor_def parentof_def Let_def)

lemma climb_less: "0 < x \<Longrightarrow> parentof (rightneighbor x) < x"
  using parentof_rightneighbor [of x] by linarith

function climb :: "uint8 list \<Rightarrow> uint8 \<Rightarrow> nat \<Rightarrow> nat" where
  "climb nodes minvalue nodeno =
     (if nodeno > 0 then
        (if nodes ! nodeno \<ge> minvalue then nodeno
         else climb nodes minvalue (parentof (rightneighbor nodeno)))
      else nodeno)"
  by pat_completeness auto
termination
  by (relation "measure (\<lambda>(nodes, m, nodeno). nodeno)") (auto simp: climb_less)

function descend :: "nat \<Rightarrow> uint8 list \<Rightarrow> uint8 \<Rightarrow> nat \<Rightarrow> nat option" where
  "descend blcksz nodes minvalue nodeno =
     (if nodeno < NonLeafNodesPerPage blcksz then
        (let childnodeno = leftchild nodeno
         in if childnodeno < NodesPerPage blcksz \<and> nodes ! childnodeno \<ge> minvalue
            then descend blcksz nodes minvalue childnodeno
            else
              (let childnodeno1 = childnodeno + 1
               in if childnodeno1 < NodesPerPage blcksz \<and> nodes ! childnodeno1 \<ge> minvalue
                  then descend blcksz nodes minvalue childnodeno1
                  else None))
      else Some nodeno)"
  by pat_completeness auto
termination
  by (relation "measure (\<lambda>(b, nodes, m, nodeno). NonLeafNodesPerPage b - nodeno)")
    (auto simp: leftchild_def)

declare set_loop.simps [simp del] climb.simps [simp del] descend.simps [simp del]

text \<open>
  \<open>relock\<close> is what other backends do to the page while the lock is exchanged for an exclusive
  one. The fuel counts the passes; the slot is a \<^verbatim>\<open>uint16\<close>.
\<close>

fun fsm_search_avail ::
  "nat \<Rightarrow> (fsm_page \<Rightarrow> fsm_page) \<Rightarrow> nat \<Rightarrow> fsm_page \<Rightarrow> uint8 \<Rightarrow> bool \<Rightarrow> bool \<Rightarrow> (int \<times> fsm_page) option" where
  "fsm_search_avail blcksz relock 0 page minvalue advancenext exclusive_lock_held = None"
| "fsm_search_avail blcksz relock (Suc fuel) page minvalue advancenext exclusive_lock_held =
     (if fp_nodes page ! 0 < minvalue then Some (-1, page)
      else
        (let target = (if fp_next_slot page < 0 \<or> fp_next_slot page \<ge> int (LeafNodesPerPage blcksz)
                       then 0 else nat (fp_next_slot page));
             nodeno = climb (fp_nodes page) minvalue (target + NonLeafNodesPerPage blcksz)
         in case descend blcksz (fp_nodes page) minvalue nodeno of
              Some leafno \<Rightarrow>
                (let slot = int (leafno - NonLeafNodesPerPage blcksz) mod 65536
                 in Some (slot, page\<lparr>fp_next_slot := slot + (if advancenext then 1 else 0)\<rparr>))
            | None \<Rightarrow>
                (let page1 = (if exclusive_lock_held then page else relock page)
                 in fsm_search_avail blcksz relock fuel (snd (fsm_rebuild_page blcksz page1))
                      minvalue advancenext True)))"

fun truncate_loop :: "nat \<Rightarrow> uint8 list \<Rightarrow> nat \<Rightarrow> bool \<Rightarrow> bool \<times> uint8 list" where
  "truncate_loop 0 nodes ptr changed = (changed, nodes)"
| "truncate_loop (Suc n) nodes ptr changed =
     truncate_loop n (nodes[ptr := 0]) (ptr + 1) (if nodes ! ptr \<noteq> 0 then True else changed)"

definition fsm_truncate_avail :: "nat \<Rightarrow> fsm_page \<Rightarrow> nat \<Rightarrow> bool \<times> fsm_page" where
  "fsm_truncate_avail blcksz page nslots =
     (let ptr = NonLeafNodesPerPage blcksz + nslots
      in case truncate_loop (NodesPerPage blcksz - ptr) (fp_nodes page) ptr False of
           (changed, nodes) \<Rightarrow>
             (let page1 = page\<lparr>fp_nodes := nodes\<rparr>
              in if changed then (changed, snd (fsm_rebuild_page blcksz page1)) else (changed, page1)))"

section \<open>The tree invariant\<close>

text \<open>The block sizes for which the constants of the source make sense; slots fit a \<^verbatim>\<open>uint16\<close>.\<close>

definition valid_blcksz :: "nat \<Rightarrow> bool" where
  "valid_blcksz b \<longleftrightarrow> 64 \<le> b \<and> b \<le> 65536"

definition children_max :: "nat \<Rightarrow> uint8 list \<Rightarrow> nat \<Rightarrow> uint8" where
  "children_max b nodes n =
     (let v = (if leftchild n < NodesPerPage b then nodes ! leftchild n else 0)
      in if leftchild n + 1 < NodesPerPage b then max v (nodes ! (leftchild n + 1)) else v)"

definition page_wf :: "nat \<Rightarrow> fsm_page \<Rightarrow> bool" where
  "page_wf b page \<longleftrightarrow> length (fp_nodes page) = NodesPerPage b"

definition fsm_ok :: "nat \<Rightarrow> fsm_page \<Rightarrow> bool" where
  "fsm_ok b page \<longleftrightarrow> page_wf b page \<and>
     (\<forall>n < NonLeafNodesPerPage b. fp_nodes page ! n = children_max b (fp_nodes page) n)"

lemma geometry:
  assumes "valid_blcksz b"
  shows "0 < NonLeafNodesPerPage b" "NonLeafNodesPerPage b < NodesPerPage b"
    "NodesPerPage b \<le> 2 * NonLeafNodesPerPage b + 1" "0 < LeafNodesPerPage b" "LeafNodesPerPage b < 65536"
    "NonLeafNodesPerPage b + LeafNodesPerPage b = NodesPerPage b"
  using assms by (auto simp: valid_blcksz_def NonLeafNodesPerPage_def NodesPerPage_def LeafNodesPerPage_def)

lemma parentof_less: "0 < n \<Longrightarrow> parentof n < n"
  by (auto simp: parentof_def)

lemma parent_is_inner: "valid_blcksz b \<Longrightarrow> n < NodesPerPage b \<Longrightarrow> parentof n < NonLeafNodesPerPage b"
  using geometry(1,3) [of b] by (simp add: parentof_def less_mult_imp_div_less)

lemma child_iff: "0 < n \<Longrightarrow> parentof n = p \<longleftrightarrow> n = leftchild p \<or> n = leftchild p + 1"
  by (auto simp: parentof_def leftchild_def)

lemma children_max_ge: "0 < n \<Longrightarrow> n < NodesPerPage b \<Longrightarrow> nodes ! n \<le> children_max b nodes (parentof n)"
  using child_iff [of n "parentof n"] by (auto simp: children_max_def Let_def)

lemma children_max_witness:
  "0 < children_max b nodes p \<Longrightarrow>
   \<exists>n. parentof n = p \<and> 0 < n \<and> n < NodesPerPage b \<and> nodes ! n = children_max b nodes p"
  using child_iff [of "leftchild p" p] child_iff [of "leftchild p + 1" p]
  by (auto simp: children_max_def Let_def max_def leftchild_def split: if_splits)

text \<open>A node changes the maximum of its parent only.\<close>

lemma children_max_update:
  "0 < n \<Longrightarrow> parentof n \<noteq> p \<Longrightarrow> children_max b (nodes[n := v]) p = children_max b nodes p"
  using child_iff [of n p] by (simp add: children_max_def Let_def)

lemma children_max_update_self: "children_max b (nodes[n := v]) n = children_max b nodes n"
  by (simp add: children_max_def Let_def leftchild_def)

lemma node_le_root:
  "valid_blcksz b \<Longrightarrow> fsm_ok b page \<Longrightarrow> n < NodesPerPage b \<Longrightarrow> fp_nodes page ! n \<le> fp_nodes page ! 0"
proof (induction n rule: less_induct)
  case (less n)
  show ?case
  proof (cases "n = 0")
    case False
    then have p: "parentof n < n" "parentof n < NonLeafNodesPerPage b" "parentof n < NodesPerPage b"
      using parentof_less [of n] parent_is_inner [OF less.prems(1,3)] less.prems(3) by simp_all
    have "fp_nodes page ! n \<le> fp_nodes page ! parentof n"
      using children_max_ge [of n b] False less.prems p(2) by (simp add: fsm_ok_def)
    also have "\<dots> \<le> fp_nodes page ! 0" using less p by blast
    finally show ?thesis .
  qed simp
qed

section \<open>Rebuilding\<close>

lemma rebuild_loop_step:
  "rebuild_loop b nodes changed (Suc n) =
     (if nodes ! n \<noteq> children_max b nodes n then rebuild_loop b (nodes[n := children_max b nodes n]) True n
      else rebuild_loop b nodes changed n)"
  by (simp add: children_max_def Let_def)

declare rebuild_loop.simps(2) [simp del]

lemma rebuild_loop_spec:
  "rebuild_loop b nodes changed k = (c, nodes') \<Longrightarrow> k \<le> length nodes \<Longrightarrow>
   (\<forall>n. k \<le> n \<and> n < K \<longrightarrow> nodes ! n = children_max b nodes n) \<Longrightarrow>
   length nodes' = length nodes \<and> (\<forall>n. k \<le> n \<longrightarrow> nodes' ! n = nodes ! n) \<and>
   (\<forall>n < K. nodes' ! n = children_max b nodes' n) \<and> (c \<longleftrightarrow> changed \<or> nodes' \<noteq> nodes)"
proof (induction k arbitrary: nodes changed)
  case (Suc k)
  let ?v = "children_max b nodes k"
  have kept: "children_max b (nodes[k := ?v]) n = children_max b nodes n" if "k \<le> n" for n
  proof (cases "n = k")
    case False
    with that have "leftchild n \<noteq> k" "leftchild n + 1 \<noteq> k" by (auto simp: leftchild_def)
    then show ?thesis by (simp add: children_max_def Let_def)
  qed (simp add: children_max_update_self)
  show ?case
  proof (cases "nodes ! k = ?v")
    case True
    with Suc.prems have "\<forall>n. k \<le> n \<and> n < K \<longrightarrow> nodes ! n = children_max b nodes n"
      by (metis Suc_leI le_neq_implies_less)
    with Suc.IH [of nodes changed] Suc.prems True show ?thesis
      by (auto simp: rebuild_loop_step)
  next
    case False
    have "\<forall>n. k \<le> n \<and> n < K \<longrightarrow> nodes[k := ?v] ! n = children_max b (nodes[k := ?v]) n"
      using Suc.prems(2,3) kept by (metis Suc_leI Suc_le_lessD le_neq_implies_less nth_list_update_eq nth_list_update_neq)
    moreover have "rebuild_loop b (nodes[k := ?v]) True k = (c, nodes')"
      using Suc.prems(1) False by (simp add: rebuild_loop_step)
    ultimately have *: "length nodes' = length nodes" "\<forall>n. k \<le> n \<longrightarrow> nodes' ! n = nodes[k := ?v] ! n"
      "\<forall>n < K. nodes' ! n = children_max b nodes' n" c
      using Suc.IH [of "nodes[k := ?v]" True] Suc.prems(2) by simp_all
    have "nodes' ! k = ?v" using *(2) Suc.prems(2) by simp
    with False have "nodes' \<noteq> nodes" by metis
    with * show ?thesis by simp
  qed
qed auto

lemma fsm_rebuild_page_spec:
  assumes "valid_blcksz b" "page_wf b page" "fsm_rebuild_page b page = (c, page')"
  shows "fsm_ok b page'" "\<And>n. NonLeafNodesPerPage b \<le> n \<Longrightarrow> fp_nodes page' ! n = fp_nodes page ! n"
    "fp_next_slot page' = fp_next_slot page" "c \<longleftrightarrow> page' \<noteq> page"
proof -
  obtain nodes where nodes: "rebuild_loop b (fp_nodes page) False (NonLeafNodesPerPage b) = (c, nodes)"
    "page' = page\<lparr>fp_nodes := nodes\<rparr>"
    using assms(3) by (auto simp: fsm_rebuild_page_def split: prod.splits)
  have "NonLeafNodesPerPage b \<le> length (fp_nodes page)"
    using geometry(2) [OF assms(1)] assms(2) by (simp add: page_wf_def)
  moreover have "\<forall>n. NonLeafNodesPerPage b \<le> n \<and> n < NonLeafNodesPerPage b \<longrightarrow>
      fp_nodes page ! n = children_max b (fp_nodes page) n" by auto
  ultimately have spec: "length nodes = length (fp_nodes page)"
    "\<forall>n. NonLeafNodesPerPage b \<le> n \<longrightarrow> nodes ! n = fp_nodes page ! n"
    "\<forall>n < NonLeafNodesPerPage b. nodes ! n = children_max b nodes n" "c \<longleftrightarrow> nodes \<noteq> fp_nodes page"
    using rebuild_loop_spec [OF nodes(1), of "NonLeafNodesPerPage b"] by blast+
  show "fsm_ok b page'" "\<And>n. NonLeafNodesPerPage b \<le> n \<Longrightarrow> fp_nodes page' ! n = fp_nodes page ! n"
    "fp_next_slot page' = fp_next_slot page"
    using spec assms(2) nodes(2) by (auto simp: fsm_ok_def page_wf_def)
  show "c \<longleftrightarrow> page' \<noteq> page" unfolding nodes(2) spec(4) by (cases page) auto
qed

section \<open>Setting a slot\<close>

lemma set_loop_step:
  assumes "0 < nodeno" "nodeno < NodesPerPage b"
  shows "set_loop b nodes nodeno =
    (if nodes ! parentof nodeno = children_max b nodes (parentof nodeno) then nodes
     else if parentof nodeno > 0
     then set_loop b (nodes[parentof nodeno := children_max b nodes (parentof nodeno)]) (parentof nodeno)
     else nodes[parentof nodeno := children_max b nodes (parentof nodeno)])"
proof -
  have "leftchild (parentof nodeno) < NodesPerPage b"
    using child_iff [OF assms(1), of "parentof nodeno"] assms(2) by auto
  then show ?thesis
    by (cases "parentof nodeno = 0"; subst set_loop.simps) (simp_all add: children_max_def Let_def)
qed

lemma set_loop_frame:
  "valid_blcksz b \<Longrightarrow> length nodes = NodesPerPage b \<Longrightarrow> 0 < nodeno \<Longrightarrow> nodeno < NodesPerPage b \<Longrightarrow>
   length (set_loop b nodes nodeno) = NodesPerPage b \<and>
   (\<forall>n. NonLeafNodesPerPage b \<le> n \<longrightarrow> set_loop b nodes nodeno ! n = nodes ! n)"
proof (induction nodeno arbitrary: nodes rule: less_induct)
  case (less nodeno)
  let ?p = "parentof nodeno" let ?nodes = "nodes[?p := children_max b nodes ?p]"
  have p: "?p < nodeno" "?p < NonLeafNodesPerPage b" "?p < NodesPerPage b"
    using parentof_less [OF less.prems(3)] parent_is_inner [OF less.prems(1,4)] less.prems(4) by simp_all
  have "length (set_loop b ?nodes ?p) = NodesPerPage b \<and>
      (\<forall>n. NonLeafNodesPerPage b \<le> n \<longrightarrow> set_loop b ?nodes ?p ! n = ?nodes ! n)" if "0 < ?p"
    using less.IH [of ?p ?nodes] less.prems p that by simp
  with p less.prems show ?case
    by (subst (1 2) set_loop_step) auto
qed

lemma set_loop_ok:
  "valid_blcksz b \<Longrightarrow> length nodes = NodesPerPage b \<Longrightarrow> 0 < nodeno \<Longrightarrow> nodeno < NodesPerPage b \<Longrightarrow>
   (\<forall>n < NonLeafNodesPerPage b. n \<noteq> parentof nodeno \<longrightarrow> nodes ! n = children_max b nodes n) \<Longrightarrow>
   (\<forall>n < NonLeafNodesPerPage b.
      set_loop b nodes nodeno ! n = children_max b (set_loop b nodes nodeno) n)"
proof (induction nodeno arbitrary: nodes rule: less_induct)
  case (less nodeno)
  let ?p = "parentof nodeno" let ?nodes = "nodes[?p := children_max b nodes ?p]"
  have p: "?p < nodeno" "?p < NonLeafNodesPerPage b" "?p < NodesPerPage b"
    using parentof_less [OF less.prems(3)] parent_is_inner [OF less.prems(1,4)] less.prems(4) by simp_all
  have fixed: "?nodes ! n = children_max b ?nodes n"
    if "n < NonLeafNodesPerPage b" "?p = 0 \<or> n \<noteq> parentof ?p" for n
  proof (cases "n = ?p")
    case True
    then show ?thesis using p less.prems(2) by (simp add: children_max_update_self)
  next
    case False
    have "children_max b ?nodes n = children_max b nodes n"
    proof (cases "?p = 0")
      case True
      then show ?thesis by (simp add: children_max_def Let_def leftchild_def)
    next
      case p: False
      then show ?thesis using that(2) by (intro children_max_update) auto
    qed
    with False less.prems(5) that(1) show ?thesis by simp
  qed
  consider "nodes ! ?p = children_max b nodes ?p" | "nodes ! ?p \<noteq> children_max b nodes ?p" "?p = 0"
    | "nodes ! ?p \<noteq> children_max b nodes ?p" "0 < ?p" using neq0_conv [of ?p] by blast
  then show ?case
  proof cases
    case 1
    then have "set_loop b nodes nodeno = nodes" by (simp add: set_loop_step [OF less.prems(3,4)])
    with 1 less.prems(5) show ?thesis by auto
  next
    case 2
    then have "set_loop b nodes nodeno = ?nodes" by (simp add: set_loop_step [OF less.prems(3,4)])
    with 2 fixed show ?thesis by simp
  next
    case 3
    then have "set_loop b nodes nodeno = set_loop b ?nodes ?p" by (simp add: set_loop_step [OF less.prems(3,4)])
    with 3 less.IH [OF p(1) less.prems(1), of ?nodes] less.prems(2) p fixed show ?thesis by simp
  qed
qed

lemma fsm_set_avail_spec:
  assumes "valid_blcksz b" "page_wf b page" "slot < LeafNodesPerPage b"
    and set: "fsm_set_avail b page slot value = (modified, page')"
  shows "page_wf b page'"
    and "fsm_get_avail b page' s = (if s = slot then value else fsm_get_avail b page s)"
    and "value \<le> fsm_get_max_avail page'"
    and "fp_next_slot page' = fp_next_slot page"
    and "fsm_ok b page \<Longrightarrow> fsm_ok b page'"
    and "\<not> modified \<Longrightarrow> page' = page"
proof -
  define k where "k = NonLeafNodesPerPage b + slot"
  define nodes where "nodes = set_loop b ((fp_nodes page)[k := value]) k"
  have k: "0 < k" "k < NodesPerPage b" "NonLeafNodesPerPage b \<le> k"
    using geometry [OF assms(1)] assms(3) by (auto simp: k_def)
  have len: "length ((fp_nodes page)[k := value]) = NodesPerPage b" using assms(2) by (simp add: page_wf_def)
  note frame = set_loop_frame [OF assms(1) len k(1,2), folded nodes_def]
  have wf: "page_wf b (page\<lparr>fp_nodes := nodes\<rparr>)" using frame by (simp add: page_wf_def)
  have leaves: "nodes ! (NonLeafNodesPerPage b + s) = (if s = slot then value else fsm_get_avail b page s)" for s
    using frame len k(2) by (auto simp: fsm_get_avail_def k_def)
  have ok: "fsm_ok b (page\<lparr>fp_nodes := nodes\<rparr>)" if "fsm_ok b page"
  proof -
    have "(fp_nodes page)[k := value] ! n = children_max b ((fp_nodes page)[k := value]) n"
      if "n < NonLeafNodesPerPage b" "n \<noteq> parentof k" for n
      using that \<open>fsm_ok b page\<close> k by (simp add: fsm_ok_def children_max_update)
    with set_loop_ok [OF assms(1) len k(1,2)] wf show ?thesis by (simp add: fsm_ok_def nodes_def)
  qed
  consider "modified = False" "page' = page" "fp_nodes page ! k = value" "value \<le> fp_nodes page ! 0"
    | "modified" "page' = page\<lparr>fp_nodes := nodes\<rparr>" "value \<le> nodes ! 0"
    | c where "modified" "fsm_rebuild_page b (page\<lparr>fp_nodes := nodes\<rparr>) = (c, page')"
    using set by (auto simp: fsm_set_avail_def Let_def k_def nodes_def prod_eq_iff split: if_splits)
  note cases = this
  show "page_wf b page'"
    using fsm_rebuild_page_spec(1) [OF assms(1) wf] by (cases rule: cases) (use assms(2) wf in \<open>auto simp: fsm_ok_def\<close>)
  show avail: "fsm_get_avail b page' s = (if s = slot then value else fsm_get_avail b page s)" for s
    using fsm_rebuild_page_spec(2) [OF assms(1) wf] leaves
    by (cases rule: cases) (auto simp: fsm_get_avail_def k_def)
  show "fp_next_slot page' = fp_next_slot page"
    using fsm_rebuild_page_spec(3) [OF assms(1) wf] by (cases rule: cases) auto
  show "fsm_ok b page'" if "fsm_ok b page"
    using fsm_rebuild_page_spec(1) [OF assms(1) wf] that ok by (cases rule: cases) auto
  show "value \<le> fsm_get_max_avail page'"
  proof (cases rule: cases)
    case (3 c)
    have "fsm_ok b page'" using fsm_rebuild_page_spec(1) [OF assms(1) wf 3(2)] .
    from node_le_root [OF assms(1) this k(2)] avail [of slot] show ?thesis
      by (simp add: fsm_get_avail_def fsm_get_max_avail_def k_def)
  qed (simp_all add: fsm_get_max_avail_def)
  show "page' = page" if "\<not> modified" using that by (cases rule: cases) auto
qed

section \<open>Searching\<close>

lemma climb_spec:
  "valid_blcksz b \<Longrightarrow> n < NodesPerPage b \<Longrightarrow> m \<le> nodes ! 0 \<Longrightarrow>
   climb nodes m n < NodesPerPage b \<and> m \<le> nodes ! climb nodes m n"
proof (induction nodes m n rule: climb.induct)
  case (1 nodes m n)
  show ?case
  proof (cases "0 < n \<and> \<not> m \<le> nodes ! n")
    case True
    then have "climb nodes m n = climb nodes m (parentof (rightneighbor n))" by (subst climb.simps) simp
    moreover have "parentof (rightneighbor n) < NodesPerPage b"
      using True climb_less [of n] "1.prems"(2) by linarith
    ultimately show ?thesis using 1 True by simp
  next
    case False
    then have "climb nodes m n = n" by (subst climb.simps) auto
    with False 1 show ?thesis by auto
  qed
qed

lemma climb_zero: "0 < n \<Longrightarrow> climb nodes 0 n = n"
  by (subst climb.simps) simp

lemma descend_sound:
  "n < NodesPerPage b \<Longrightarrow> m \<le> nodes ! n \<Longrightarrow> descend b nodes m n = Some leaf \<Longrightarrow>
   NonLeafNodesPerPage b \<le> leaf \<and> leaf < NodesPerPage b \<and> m \<le> nodes ! leaf"
proof (induction b nodes m n rule: descend.induct)
  case (1 b nodes m n)
  then show ?case
    by (subst (asm) (3) descend.simps) (auto simp: Let_def split: if_splits)
qed

lemma descend_complete:
  assumes "\<forall>k < NonLeafNodesPerPage b. nodes ! k = children_max b nodes k"
  shows "n < NodesPerPage b \<Longrightarrow> m \<le> nodes ! n \<Longrightarrow> NonLeafNodesPerPage b \<le> n \<or> 0 < m \<Longrightarrow>
    \<exists>leaf. descend b nodes m n = Some leaf"
  using assms
proof (induction b nodes m n rule: descend.induct)
  case (1 b nodes m n)
  show ?case
  proof (cases "n < NonLeafNodesPerPage b")
    case True
    with 1 have "0 < m" "m \<le> children_max b nodes n" by auto
    with children_max_witness [of b nodes n] obtain c where
      c: "parentof c = n" "0 < c" "c < NodesPerPage b" "m \<le> nodes ! c" by force
    then have "c = leftchild n \<or> c = leftchild n + 1" using child_iff by simp
    with c True 1 \<open>0 < m\<close> show ?thesis by (subst descend.simps) (auto simp: Let_def)
  qed (subst descend.simps, simp)
qed

text \<open>
  One pass of the search. The target slot is in range whatever \<^verbatim>\<open>fp_next_slot\<close> holds.
\<close>

definition search_start :: "nat \<Rightarrow> fsm_page \<Rightarrow> nat" where
  "search_start b page =
     (if fp_next_slot page < 0 \<or> fp_next_slot page \<ge> int (LeafNodesPerPage b) then 0
      else nat (fp_next_slot page)) + NonLeafNodesPerPage b"

definition search_leaf :: "nat \<Rightarrow> fsm_page \<Rightarrow> uint8 \<Rightarrow> nat option" where
  "search_leaf b page m =
     descend b (fp_nodes page) m (climb (fp_nodes page) m (search_start b page))"

lemma fsm_search_avail_step:
  "fsm_search_avail b relock (Suc fuel) page m adv excl =
     (if fsm_get_max_avail page < m then Some (-1, page)
      else case search_leaf b page m of
        Some leaf \<Rightarrow>
          (let slot = int (leaf - NonLeafNodesPerPage b) mod 65536
           in Some (slot, page\<lparr>fp_next_slot := slot + (if adv then 1 else 0)\<rparr>))
      | None \<Rightarrow> fsm_search_avail b relock fuel
          (snd (fsm_rebuild_page b (if excl then page else relock page))) m adv True)"
  unfolding fsm_search_avail.simps search_leaf_def search_start_def fsm_get_max_avail_def Let_def by (rule refl)

declare fsm_search_avail.simps(2) [simp del]

lemma search_leaf_start:
  assumes "valid_blcksz b"
  shows "search_start b page < NodesPerPage b"
  using geometry [OF assms] by (auto simp: search_start_def)

lemma search_leaf_sound:
  assumes "valid_blcksz b" "m \<le> fsm_get_max_avail page" "search_leaf b page m = Some leaf"
  shows "\<exists>slot. leaf = NonLeafNodesPerPage b + slot \<and> slot < LeafNodesPerPage b \<and> m \<le> fsm_get_avail b page slot"
proof -
  have "m \<le> fp_nodes page ! 0" using assms(2) by (simp add: fsm_get_max_avail_def)
  from climb_spec [OF assms(1) search_leaf_start [OF assms(1)] this] assms(3)
  have "NonLeafNodesPerPage b \<le> leaf" "leaf < NodesPerPage b" "m \<le> fp_nodes page ! leaf"
    unfolding search_leaf_def using descend_sound by blast+
  then show ?thesis
    using geometry(6) [OF assms(1)]
    by (intro exI [of _ "leaf - NonLeafNodesPerPage b"]) (auto simp: fsm_get_avail_def)
qed

lemma search_leaf_complete:
  assumes "valid_blcksz b" "fsm_ok b page" "m \<le> fsm_get_max_avail page"
  shows "\<exists>leaf. search_leaf b page m = Some leaf"
proof -
  let ?t = "search_start b page"
  have "m \<le> fp_nodes page ! 0" using assms(3) by (simp add: fsm_get_max_avail_def)
  note climb = climb_spec [OF assms(1) search_leaf_start [OF assms(1), of page] this]
  have "NonLeafNodesPerPage b \<le> climb (fp_nodes page) m ?t \<or> 0 < m"
  proof (cases "m = 0")
    case True
    have "0 < ?t" "NonLeafNodesPerPage b \<le> ?t" using geometry(1) [OF assms(1)] by (simp_all add: search_start_def)
    with True show ?thesis using climb_zero [of ?t "fp_nodes page"] by simp
  qed (simp add: word_gt_0)
  with climb assms(2) show ?thesis unfolding search_leaf_def by (intro descend_complete) (auto simp: fsm_ok_def)
qed

text \<open>What a search returns, on a page that it leaves as \<open>page'\<close>.\<close>

definition search_result :: "nat \<Rightarrow> uint8 \<Rightarrow> bool \<Rightarrow> int \<Rightarrow> fsm_page \<Rightarrow> bool" where
  "search_result b m adv r page' \<longleftrightarrow>
     r = -1 \<and> fsm_get_max_avail page' < m \<or>
     (\<exists>slot. r = int slot \<and> slot < LeafNodesPerPage b \<and> m \<le> fsm_get_avail b page' slot \<and>
        fp_next_slot page' = r + (if adv then 1 else 0))"

lemma search_pass:
  assumes "valid_blcksz b" "fsm_get_max_avail page < m \<or> search_leaf b page m \<noteq> None"
  shows "\<exists>r page'. fsm_search_avail b relock (Suc fuel) page m adv excl = Some (r, page') \<and>
    search_result b m adv r page' \<and> fp_nodes page' = fp_nodes page \<and> (r = -1 \<longleftrightarrow> fsm_get_max_avail page < m)"
proof (cases "fsm_get_max_avail page < m")
  case True
  then show ?thesis by (simp add: fsm_search_avail_step search_result_def)
next
  case False
  then obtain leaf where leaf: "search_leaf b page m = Some leaf" using assms(2) by auto
  have "m \<le> fsm_get_max_avail page" using False by simp
  from search_leaf_sound [OF assms(1) this leaf] obtain slot where
    slot: "leaf = NonLeafNodesPerPage b + slot" "slot < LeafNodesPerPage b" "m \<le> fsm_get_avail b page slot"
    by blast
  moreover have "int slot mod 65536 = int slot" using slot(2) geometry(5) [OF assms(1)] by simp
  ultimately show ?thesis
    using False leaf by (auto simp: fsm_search_avail_step search_result_def fsm_get_avail_def Let_def)
qed

text \<open>
  The search returns within two passes, on every page: the second pass runs on a rebuilt page.
  Other backends may change the page while the lock is exchanged, but not its size.
\<close>

lemma fsm_search_avail_spec:
  assumes "valid_blcksz b" "page_wf b page" "\<And>p. page_wf b p \<Longrightarrow> page_wf b (relock p)"
  shows "\<exists>r page'. fsm_search_avail b relock (Suc (Suc fuel)) page m adv excl = Some (r, page') \<and>
    search_result b m adv r page' \<and> page_wf b page' \<and>
    (fsm_ok b page \<longrightarrow> fp_nodes page' = fp_nodes page \<and> (r = -1 \<longleftrightarrow> fsm_get_max_avail page < m))"
proof (cases "fsm_get_max_avail page < m \<or> search_leaf b page m \<noteq> None")
  case True
  with search_pass [OF assms(1) True] assms(2) show ?thesis by (metis page_wf_def)
next
  case False
  define page1 where "page1 = (if excl then page else relock page)"
  have wf: "page_wf b page1" using assms(2,3) by (simp add: page1_def)
  obtain c page2 where page2: "fsm_rebuild_page b page1 = (c, page2)" by fastforce
  have ok: "fsm_ok b page2" using fsm_rebuild_page_spec(1) [OF assms(1) wf page2] .
  have "fsm_get_max_avail page2 < m \<or> search_leaf b page2 m \<noteq> None"
    using search_leaf_complete [OF assms(1) ok] by force
  from search_pass [OF assms(1) this, of relock fuel adv True] obtain r page' where
    r: "fsm_search_avail b relock (Suc fuel) page2 m adv True = Some (r, page')"
    "search_result b m adv r page'" "fp_nodes page' = fp_nodes page2" by blast
  have "\<not> fsm_ok b page" using search_leaf_complete [OF assms(1)] False by force
  moreover have "fsm_search_avail b relock (Suc (Suc fuel)) page m adv excl = Some (r, page')"
    using False r(1) page2 by (subst fsm_search_avail_step) (simp add: page1_def)
  moreover have "page_wf b page'" using ok r(3) by (simp add: fsm_ok_def page_wf_def)
  ultimately show ?thesis using r(2) by blast
qed

lemma root_less_iff:
  assumes "valid_blcksz b" "fsm_ok b page"
  shows "fsm_get_max_avail page < m \<longleftrightarrow> (\<forall>slot < LeafNodesPerPage b. fsm_get_avail b page slot < m)"
proof
  assume root: "fsm_get_max_avail page < m"
  show "\<forall>slot < LeafNodesPerPage b. fsm_get_avail b page slot < m"
  proof (intro allI impI)
    fix slot assume "slot < LeafNodesPerPage b"
    then have "fsm_get_avail b page slot \<le> fsm_get_max_avail page"
      using node_le_root [OF assms, of "NonLeafNodesPerPage b + slot"] geometry(6) [OF assms(1)]
      by (simp add: fsm_get_avail_def fsm_get_max_avail_def)
    with root show "fsm_get_avail b page slot < m" by simp
  qed
next
  assume all: "\<forall>slot < LeafNodesPerPage b. fsm_get_avail b page slot < m"
  show "fsm_get_max_avail page < m"
  proof (rule ccontr)
    assume "\<not> fsm_get_max_avail page < m"
    then have m: "m \<le> fsm_get_max_avail page" by simp
    with search_leaf_complete [OF assms] search_leaf_sound [OF assms(1)] all show False by fastforce
  qed
qed

section \<open>Truncating\<close>

lemma truncate_loop_spec:
  "truncate_loop n nodes ptr changed = (c, nodes') \<Longrightarrow> ptr + n \<le> length nodes \<Longrightarrow>
   length nodes' = length nodes \<and>
   (\<forall>i. nodes' ! i = (if ptr \<le> i \<and> i < ptr + n then 0 else nodes ! i)) \<and>
   (c \<longleftrightarrow> changed \<or> (\<exists>i. ptr \<le> i \<and> i < ptr + n \<and> nodes ! i \<noteq> 0))"
proof (induction n arbitrary: nodes ptr changed)
  case (Suc n)
  have range: "(\<exists>i. ptr \<le> i \<and> i < ptr + Suc n \<and> P i) \<longleftrightarrow> P ptr \<or> (\<exists>i. Suc ptr \<le> i \<and> i < Suc ptr + n \<and> P i)" for P
    by (metis Suc_leD Suc_leI add_Suc add_Suc_right le_add1 le_imp_less_Suc le_neq_implies_less le_refl)
  from Suc.IH [of "nodes[ptr := 0]" "Suc ptr" "if nodes ! ptr \<noteq> 0 then True else changed"] Suc.prems
  have IH: "length nodes' = length nodes"
    "\<forall>i. nodes' ! i = (if Suc ptr \<le> i \<and> i < Suc ptr + n then 0 else nodes[ptr := 0] ! i)"
    "c \<longleftrightarrow> (if nodes ! ptr \<noteq> 0 then True else changed) \<or>
      (\<exists>i. Suc ptr \<le> i \<and> i < Suc ptr + n \<and> nodes[ptr := 0] ! i \<noteq> 0)"
    by simp_all
  have "(\<exists>i. Suc ptr \<le> i \<and> i < Suc ptr + n \<and> nodes[ptr := 0] ! i \<noteq> 0) \<longleftrightarrow>
      (\<exists>i. Suc ptr \<le> i \<and> i < Suc ptr + n \<and> nodes ! i \<noteq> 0)"
    by (metis Suc_n_not_le_n nth_list_update_neq)
  with IH show ?case unfolding range using Suc.prems(2) by (auto simp: nth_list_update)
qed auto

lemma fsm_truncate_avail_spec:
  assumes "valid_blcksz b" "page_wf b page" "nslots < LeafNodesPerPage b"
    and "fsm_truncate_avail b page nslots = (changed, page')"
  shows "page_wf b page'" "fsm_ok b page \<Longrightarrow> fsm_ok b page'"
    and "s < LeafNodesPerPage b \<Longrightarrow>
      fsm_get_avail b page' s = (if s < nslots then fsm_get_avail b page s else 0)"
    and "changed \<longleftrightarrow> (\<exists>s. nslots \<le> s \<and> s < LeafNodesPerPage b \<and> fsm_get_avail b page s \<noteq> 0)"
proof -
  let ?L = "NonLeafNodesPerPage b" let ?ptr = "?L + nslots"
  obtain nodes where t: "truncate_loop (NodesPerPage b - ?ptr) (fp_nodes page) ?ptr False = (changed, nodes)"
    and page': "page' = (if changed then snd (fsm_rebuild_page b (page\<lparr>fp_nodes := nodes\<rparr>)) else page\<lparr>fp_nodes := nodes\<rparr>)"
    using assms(4) by (auto simp: fsm_truncate_avail_def Let_def split: prod.splits if_splits)
  have ptr: "?ptr + (NodesPerPage b - ?ptr) = NodesPerPage b"
    using geometry(6) [OF assms(1)] assms(3) by simp
  have len: "length (fp_nodes page) = NodesPerPage b" using assms(2) by (simp add: page_wf_def)
  have spec: "length nodes = NodesPerPage b"
    "\<And>i. nodes ! i = (if ?ptr \<le> i \<and> i < NodesPerPage b then 0 else fp_nodes page ! i)"
    "changed \<longleftrightarrow> (\<exists>i. ?ptr \<le> i \<and> i < NodesPerPage b \<and> fp_nodes page ! i \<noteq> 0)"
    using truncate_loop_spec [OF t] unfolding ptr len by auto
  have wf: "page_wf b (page\<lparr>fp_nodes := nodes\<rparr>)" using spec(1) by (simp add: page_wf_def)
  obtain c page2 where page2: "fsm_rebuild_page b (page\<lparr>fp_nodes := nodes\<rparr>) = (c, page2)" by fastforce
  note rebuilt = fsm_rebuild_page_spec [OF assms(1) wf page2]
  have leaves: "fp_nodes page' ! (?L + s) = nodes ! (?L + s)" for s
    using rebuilt(2) page2 page' by (cases changed) auto
  have "nodes = fp_nodes page" if "\<not> changed"
    using that spec len by (intro nth_equalityI) auto
  then have same: "page' = page" if "\<not> changed" using that page' by simp
  show "page_wf b page'" using rebuilt(1) page2 page' same assms(2) by (cases changed) (auto simp: fsm_ok_def)
  show "fsm_ok b page'" if "fsm_ok b page" using rebuilt(1) page2 page' same that by (cases changed) auto
  show "fsm_get_avail b page' s = (if s < nslots then fsm_get_avail b page s else 0)" if "s < LeafNodesPerPage b"
    using leaves [of s] spec(2) [of "?L + s"] that geometry(6) [OF assms(1)] by (simp add: fsm_get_avail_def)
  show "changed \<longleftrightarrow> (\<exists>s. nslots \<le> s \<and> s < LeafNodesPerPage b \<and> fsm_get_avail b page s \<noteq> 0)"
    unfolding spec(3)
  proof
    assume "\<exists>i. ?ptr \<le> i \<and> i < NodesPerPage b \<and> fp_nodes page ! i \<noteq> 0"
    then obtain i where "?ptr \<le> i" "i < NodesPerPage b" "fp_nodes page ! i \<noteq> 0" by blast
    then show "\<exists>s. nslots \<le> s \<and> s < LeafNodesPerPage b \<and> fsm_get_avail b page s \<noteq> 0"
      using geometry(6) [OF assms(1)] by (intro exI [of _ "i - ?L"]) (auto simp: fsm_get_avail_def)
  next
    assume "\<exists>s. nslots \<le> s \<and> s < LeafNodesPerPage b \<and> fsm_get_avail b page s \<noteq> 0"
    then obtain s where "nslots \<le> s" "s < LeafNodesPerPage b" "fsm_get_avail b page s \<noteq> 0" by blast
    then show "\<exists>i. ?ptr \<le> i \<and> i < NodesPerPage b \<and> fp_nodes page ! i \<noteq> 0"
      using geometry(6) [OF assms(1)] by (intro exI [of _ "?L + s"]) (auto simp: fsm_get_avail_def)
  qed
qed

section \<open>The interface of a page\<close>

lemma fsm_ok_wf: "fsm_ok b p \<Longrightarrow> page_wf b p"
  by (simp add: fsm_ok_def)

text \<open>
  What the upper level (\<^verbatim>\<open>freespace.cpp\<close>) relies on: a store of slots with the maximum at hand and
  a search for a slot with at least a given value. A \<open>good\<close> page may be inconsistent, an \<open>ok\<close> one
  is not.
\<close>

locale slot_store =
  fixes good ok :: "'p \<Rightarrow> bool"
    and nslots :: nat
    and get_slot :: "'p \<Rightarrow> nat \<Rightarrow> 'v :: linorder"
    and root :: "'p \<Rightarrow> 'v"
    and set_slot :: "'p \<Rightarrow> nat \<Rightarrow> 'v \<Rightarrow> bool \<times> 'p"
    and search :: "'p \<Rightarrow> 'v \<Rightarrow> (int \<times> 'p) option"
  assumes ok_good: "ok p \<Longrightarrow> good p"
    and set_law: "good p \<Longrightarrow> s < nslots \<Longrightarrow> set_slot p s v = (c, p') \<Longrightarrow>
      good p' \<and> get_slot p' t = (if t = s then v else get_slot p t) \<and> v \<le> root p'"
    and set_ok: "ok p \<Longrightarrow> s < nslots \<Longrightarrow> set_slot p s v = (c, p') \<Longrightarrow> ok p'"
    and root_law: "ok p \<Longrightarrow> root p < m \<longleftrightarrow> (\<forall>s < nslots. get_slot p s < m)"
    and search_law: "good p \<Longrightarrow> \<exists>r p'. search p m = Some (r, p') \<and> good p' \<and>
      (r = -1 \<or> (\<exists>s. r = int s \<and> s < nslots \<and> m \<le> get_slot p' s))"
    and search_ok: "ok p \<Longrightarrow> search p m = Some (r, p') \<Longrightarrow>
      ok p' \<and> (\<forall>t. get_slot p' t = get_slot p t) \<and> (r = -1 \<longleftrightarrow> root p < m)"
begin

lemma search_finds_iff:
  assumes "ok p"
  shows "\<exists>r p'. search p m = Some (r, p') \<and> ok p' \<and>
    (if \<exists>s < nslots. m \<le> get_slot p s then \<exists>s. r = int s \<and> s < nslots \<and> m \<le> get_slot p s else r = -1)"
proof -
  obtain r p' where r: "search p m = Some (r, p')"
    "r = -1 \<or> (\<exists>s. r = int s \<and> s < nslots \<and> m \<le> get_slot p' s)"
    using search_law [OF ok_good [OF assms]] by blast
  note ok = search_ok [OF assms r(1)]
  have "(r = -1) \<longleftrightarrow> \<not> (\<exists>s < nslots. m \<le> get_slot p s)"
    using ok root_law [OF assms, of m] by (metis not_less)
  with r ok show ?thesis by auto
qed

lemma set_then_search:
  assumes "ok p" "s < nslots" "set_slot p s v = (c, p1)" "m \<le> v"
  shows "\<exists>t p2. search p1 m = Some (int t, p2) \<and> t < nslots \<and> m \<le> get_slot p1 t"
proof -
  have "m \<le> get_slot p1 s" using set_law [OF ok_good [OF assms(1)] assms(2,3), of s] assms(4) by simp
  with search_finds_iff [OF set_ok [OF assms(1-3)], of m] assms(2) show ?thesis
    by (auto split: if_splits)
qed

lemma lower_then_search:
  assumes "ok p" "s < nslots" "set_slot p s v = (c, p1)" "v < m" "search p1 m = Some (int t, p2)"
  shows "t \<noteq> s"
proof
  assume "t = s"
  from search_finds_iff [OF set_ok [OF assms(1-3)], of m] assms(5) have "m \<le> get_slot p1 t"
    by (auto split: if_splits)
  with \<open>t = s\<close> set_law [OF ok_good [OF assms(1)] assms(2,3), of s] assms(4) show False by simp
qed

end

interpretation fsm: slot_store
  "\<lambda>p. valid_blcksz b \<and> page_wf b p \<and> (\<forall>q. page_wf b q \<longrightarrow> page_wf b (relock q))"
  "\<lambda>p. valid_blcksz b \<and> fsm_ok b p \<and> (\<forall>q. page_wf b q \<longrightarrow> page_wf b (relock q))"
  "LeafNodesPerPage b" "fsm_get_avail b" fsm_get_max_avail "fsm_set_avail b"
  "\<lambda>p m. fsm_search_avail b relock 2 p m adv excl" for b relock adv excl
proof unfold_locales
  fix p s v c p' t
  assume p: "valid_blcksz b \<and> page_wf b p \<and> (\<forall>q. page_wf b q \<longrightarrow> page_wf b (relock q))"
    and "s < LeafNodesPerPage b" "fsm_set_avail b p s v = (c, p')"
  with fsm_set_avail_spec(1,3) [of b p s v c p'] fsm_set_avail_spec(2) [of b p s v c p' t]
  show "(valid_blcksz b \<and> page_wf b p' \<and> (\<forall>q. page_wf b q \<longrightarrow> page_wf b (relock q))) \<and>
      fsm_get_avail b p' t = (if t = s then v else fsm_get_avail b p t) \<and> v \<le> fsm_get_max_avail p'"
    by blast
next
  fix p m
  assume p: "valid_blcksz b \<and> page_wf b p \<and> (\<forall>q. page_wf b q \<longrightarrow> page_wf b (relock q))"
  then show "\<exists>r p'. fsm_search_avail b relock 2 p m adv excl = Some (r, p') \<and>
      (valid_blcksz b \<and> page_wf b p' \<and> (\<forall>q. page_wf b q \<longrightarrow> page_wf b (relock q))) \<and>
      (r = -1 \<or> (\<exists>s. r = int s \<and> s < LeafNodesPerPage b \<and> m \<le> fsm_get_avail b p' s))"
    using fsm_search_avail_spec [of b p relock 0 m adv excl]
    by (auto simp: search_result_def numeral_2_eq_2)
next
  fix p m r p'
  assume p: "valid_blcksz b \<and> fsm_ok b p \<and> (\<forall>q. page_wf b q \<longrightarrow> page_wf b (relock q))"
    and "fsm_search_avail b relock 2 p m adv excl = Some (r, p')"
  then have "fp_nodes p' = fp_nodes p \<and> (r = -1 \<longleftrightarrow> fsm_get_max_avail p < m)"
    using fsm_search_avail_spec [of b p relock 0 m adv excl]
    by (auto simp: numeral_2_eq_2 fsm_ok_def)
  with p show "(valid_blcksz b \<and> fsm_ok b p' \<and> (\<forall>q. page_wf b q \<longrightarrow> page_wf b (relock q))) \<and>
      (\<forall>t. fsm_get_avail b p' t = fsm_get_avail b p t) \<and> (r = -1 \<longleftrightarrow> fsm_get_max_avail p < m)"
    by (simp add: fsm_ok_def page_wf_def fsm_get_avail_def)
qed (auto simp: root_less_iff dest: fsm_ok_wf intro: fsm_set_avail_spec(5))

section \<open>Properties of a page\<close>

text \<open>The page of a freshly extended map: every category zero.\<close>

definition zero_page :: "nat \<Rightarrow> fsm_page" where
  "zero_page blcksz = \<lparr>fp_next_slot = 0, fp_nodes = replicate (NodesPerPage blcksz) 0\<rparr>"

lemma zero_page_ok: "valid_blcksz b \<Longrightarrow> fsm_ok b (zero_page b)"
  using geometry(2) [of b]
  by (simp add: fsm_ok_def page_wf_def zero_page_def children_max_def Let_def)

lemma valid_blcksz_default [simp]: "valid_blcksz 8192"
  by (simp add: valid_blcksz_def)

text \<open>
  C16. Setting a slot, on every page however inconsistent: the slot has the new value, all other
  slots keep theirs, and the root is at least the new value, so that a search for it will not stop at
  the root; a consistent page stays consistent, and the function reports no modification only when it
  made none.
\<close>

theorem fsm_set_avail_correct:
  assumes "valid_blcksz b" and "page_wf b page" and "slot < SlotsPerFSMPage b"
    and "fsm_set_avail b page slot value = (modified, page')"
  shows "page_wf b page' \<and> fsm_get_avail b page' slot = value \<and>
    {s. fsm_get_avail b page' s \<noteq> fsm_get_avail b page s} \<subseteq> {slot} \<and>
    value \<le> fsm_get_max_avail page' \<and> (fsm_ok b page \<longrightarrow> fsm_ok b page') \<and> (modified \<or> page' = page)"
  using fsm_set_avail_spec [OF assms] by auto

theorem fsm_set_avail_correct_witness:
  "fsm_get_avail 8192 (snd (fsm_set_avail 8192 (zero_page 8192) 5 200)) 5 = 200"
  using fsm_set_avail_correct [of 8192 "zero_page 8192" 5 200
      "fst (fsm_set_avail 8192 (zero_page 8192) 5 200)" "snd (fsm_set_avail 8192 (zero_page 8192) 5 200)"]
    zero_page_ok [of 8192]
  by (simp add: fsm_ok_def LeafNodesPerPage_def NodesPerPage_def NonLeafNodesPerPage_def)

text \<open>
  C17. The search ends within two passes on every page, whatever the next-slot hint holds and
  whatever other backends do to the page while the lock is upgraded: it returns a slot of the page
  that has the space asked for and leaves the hint there (or one further), or -1 with the root below
  the request.
\<close>

theorem fsm_search_avail_returns:
  assumes "valid_blcksz b" and "page_wf b page" and "\<And>p. page_wf b p \<Longrightarrow> page_wf b (relock p)"
  shows "\<exists>r page'. fsm_search_avail b relock 2 page minvalue adv excl = Some (r, page') \<and>
    (r = -1 \<and> fsm_get_max_avail page' < minvalue \<or>
     (\<exists>slot. r = int slot \<and> slot < SlotsPerFSMPage b \<and> minvalue \<le> fsm_get_avail b page' slot \<and>
        fp_next_slot page' = r + (if adv then 1 else 0)))"
  using fsm_search_avail_spec [OF assms(1,2), of relock 0 minvalue adv excl] assms(3)
  by (auto simp: search_result_def numeral_2_eq_2)

theorem fsm_search_avail_returns_witness:
  "\<exists>r page'. fsm_search_avail 8192 (\<lambda>p. p) 2 (zero_page 8192) 7 True False = Some (r, page')"
  using fsm_search_avail_returns [of 8192 "zero_page 8192" "\<lambda>p. p" 7 True False] zero_page_ok [of 8192]
  by (auto simp: fsm_ok_def)



text \<open>
  Rebuilding repairs every page: the result satisfies the tree invariant and has the same
  slots, and the function reports a change exactly when it made one.
\<close>

theorem fsm_rebuild_page_correct:
  assumes "valid_blcksz b" and "page_wf b page" and "fsm_rebuild_page b page = (changed, page')"
  shows "fsm_ok b page' \<and> fsm_get_avail b page' = fsm_get_avail b page \<and> (changed \<longleftrightarrow> page' \<noteq> page)"
  using fsm_rebuild_page_spec [OF assms] by (simp add: fsm_get_avail_def fun_eq_iff)

theorem fsm_rebuild_page_correct_witness:
  "fsm_ok 8192 (snd (fsm_rebuild_page 8192 \<lparr>fp_next_slot = 0, fp_nodes = replicate 8164 9\<rparr>))"
  using fsm_rebuild_page_correct [of 8192 "\<lparr>fp_next_slot = 0, fp_nodes = replicate 8164 9\<rparr>"
      "fst (fsm_rebuild_page 8192 \<lparr>fp_next_slot = 0, fp_nodes = replicate 8164 9\<rparr>)"
      "snd (fsm_rebuild_page 8192 \<lparr>fp_next_slot = 0, fp_nodes = replicate 8164 9\<rparr>)"]
  by (simp add: page_wf_def NodesPerPage_def)

text \<open>
  Truncation clears the slots from the given one on and no other, keeps a consistent page
  consistent, and reports a change exactly when a cleared slot held something.
\<close>

theorem fsm_truncate_avail_correct:
  assumes "valid_blcksz b" and "page_wf b page" and "nslots < SlotsPerFSMPage b"
    and "fsm_truncate_avail b page nslots = (changed, page')"
  shows "page_wf b page' \<and> (fsm_ok b page \<longrightarrow> fsm_ok b page') \<and>
    (\<forall>s < SlotsPerFSMPage b. fsm_get_avail b page' s = (if s < nslots then fsm_get_avail b page s else 0)) \<and>
    (changed \<longleftrightarrow> (\<exists>s. nslots \<le> s \<and> s < SlotsPerFSMPage b \<and> fsm_get_avail b page s \<noteq> 0))"
  using fsm_truncate_avail_spec [OF assms] by blast

theorem fsm_truncate_avail_correct_witness:
  "fsm_get_avail 8192 (snd (fsm_truncate_avail 8192 (zero_page 8192) 7)) 9 = 0"
  using fsm_truncate_avail_correct [of 8192 "zero_page 8192" 7
      "fst (fsm_truncate_avail 8192 (zero_page 8192) 7)" "snd (fsm_truncate_avail 8192 (zero_page 8192) 7)"]
    zero_page_ok [of 8192]
  by (auto simp: fsm_ok_def LeafNodesPerPage_def NodesPerPage_def NonLeafNodesPerPage_def)

end
