(* ===== verification/Free_Space_Model.thy ===== *)
theory Free_Space_Model
  imports FSM_Page
begin

text \<open>
  The free space map of a relation, \<^verbatim>\<open>storage/freespace/freespace.cpp\<close>: a tree of map pages in
  the FSM fork of the relation. The fork is the list of its pages by physical block number, and
  \<^verbatim>\<open>smgr_fsm_nblocks\<close> the size the backend has cached, \<open>None\<close> for \<^verbatim>\<open>InvalidBlockNumber\<close>. A buffer
  is the physical number of its page; \<open>None\<close> is \<^verbatim>\<open>InvalidBuffer\<close>. Block numbers are natural
  numbers, reduced modulo \<open>2 ^ 32\<close> where the source computes a \<^verbatim>\<open>BlockNumber\<close>. The model is the
  view of one backend: no other backend changes the fork during a call.
\<close>

section \<open>Categories\<close>

datatype fsm_error = Invalid_Request_Size   \<comment> \<open>invalid FSM request size\<close>

definition FSM_CAT_STEP :: "nat \<Rightarrow> nat" where
  "FSM_CAT_STEP blcksz = blcksz div 256"

text \<open>\<^verbatim>\<open>MaxHeapTupleSize\<close>: the block size less the aligned heap page header of 40 bytes and a line pointer.\<close>

definition MaxFSMRequestSize :: "nat \<Rightarrow> nat" where
  "MaxFSMRequestSize blcksz = blcksz - 48"

definition fsm_space_avail_to_cat :: "nat \<Rightarrow> nat \<Rightarrow> uint8" where
  "fsm_space_avail_to_cat blcksz avail =
     (if avail \<ge> MaxFSMRequestSize blcksz then 255
      else
        (let cat = avail div FSM_CAT_STEP blcksz
         in of_nat (if cat > 254 then 254 else cat)))"

definition fsm_space_cat_to_avail :: "nat \<Rightarrow> uint8 \<Rightarrow> nat" where
  "fsm_space_cat_to_avail blcksz cat =
     (if cat = 255 then MaxFSMRequestSize blcksz else unat cat * FSM_CAT_STEP blcksz)"

definition fsm_space_needed_to_cat :: "nat \<Rightarrow> nat \<Rightarrow> fsm_error + uint8" where
  "fsm_space_needed_to_cat blcksz needed =
     (if needed > MaxFSMRequestSize blcksz then Inl Invalid_Request_Size
      else if needed = 0 then Inr 1
      else
        (let cat = (needed + FSM_CAT_STEP blcksz - 1) div FSM_CAT_STEP blcksz
         in Inr (of_nat (if cat > 255 then 255 else cat))))"

section \<open>Addresses\<close>

record FSMAddress =
  level :: nat
  logpageno :: nat

definition InvalidBlockNumber :: nat where
  "InvalidBlockNumber = 4294967295"

definition FSM_TREE_DEPTH :: "nat \<Rightarrow> nat" where
  "FSM_TREE_DEPTH blcksz = (if SlotsPerFSMPage blcksz \<ge> 1626 then 3 else 4)"

definition FSM_ROOT_LEVEL :: "nat \<Rightarrow> nat" where
  "FSM_ROOT_LEVEL blcksz = FSM_TREE_DEPTH blcksz - 1"

abbreviation (input) FSM_BOTTOM_LEVEL :: nat where
  "FSM_BOTTOM_LEVEL \<equiv> 0"

definition g_fsm_root_address :: "nat \<Rightarrow> FSMAddress" where
  "g_fsm_root_address blcksz = \<lparr>level = FSM_ROOT_LEVEL blcksz, logpageno = 0\<rparr>"

text \<open>The two loops of \<^verbatim>\<open>fsm_logical_to_physical\<close>.\<close>

fun first_leaf_loop :: "nat \<Rightarrow> nat \<Rightarrow> nat \<Rightarrow> nat" where
  "first_leaf_loop slots 0 leafno = leafno"
| "first_leaf_loop slots (Suc l) leafno = first_leaf_loop slots l (leafno * slots)"

fun count_pages_loop :: "nat \<Rightarrow> nat \<Rightarrow> nat \<Rightarrow> nat \<Rightarrow> nat" where
  "count_pages_loop slots 0 leafno pages = pages"
| "count_pages_loop slots (Suc l) leafno pages =
     count_pages_loop slots l (leafno div slots) (pages + leafno + 1)"

definition fsm_logical_to_physical :: "nat \<Rightarrow> FSMAddress \<Rightarrow> nat" where
  "fsm_logical_to_physical blcksz addr =
     (let leafno = first_leaf_loop (SlotsPerFSMPage blcksz) (level addr) (logpageno addr);
          pages = count_pages_loop (SlotsPerFSMPage blcksz) (FSM_TREE_DEPTH blcksz) leafno 0
      in pages - level addr - 1)"

definition fsm_get_location :: "nat \<Rightarrow> nat \<Rightarrow> FSMAddress \<times> nat" where
  "fsm_get_location blcksz heapblk =
     (\<lparr>level = FSM_BOTTOM_LEVEL, logpageno = heapblk div SlotsPerFSMPage blcksz\<rparr>,
      heapblk mod SlotsPerFSMPage blcksz)"

definition fsm_get_heap_blk :: "nat \<Rightarrow> FSMAddress \<Rightarrow> nat \<Rightarrow> nat" where
  "fsm_get_heap_blk blcksz addr slot = (logpageno addr * SlotsPerFSMPage blcksz + slot) mod 2 ^ 32"

definition fsm_get_parent :: "nat \<Rightarrow> FSMAddress \<Rightarrow> FSMAddress \<times> nat" where
  "fsm_get_parent blcksz child =
     (\<lparr>level = level child + 1, logpageno = logpageno child div SlotsPerFSMPage blcksz\<rparr>,
      logpageno child mod SlotsPerFSMPage blcksz)"

definition fsm_get_child :: "nat \<Rightarrow> FSMAddress \<Rightarrow> nat \<Rightarrow> FSMAddress" where
  "fsm_get_child blcksz parent slot =
     \<lparr>level = level parent - 1, logpageno = logpageno parent * SlotsPerFSMPage blcksz + slot\<rparr>"

definition fsm_get_lastblckno :: "nat \<Rightarrow> FSMAddress \<Rightarrow> nat" where
  "fsm_get_lastblckno blcksz addr = fsm_get_heap_blk blcksz addr (SlotsPerFSMPage blcksz - 1)"

section \<open>The fork\<close>

record fsm_rel =
  fsm_fork :: "fsm_page list option"
  smgr_fsm_nblocks :: "nat option"

definition fork_pages :: "fsm_rel \<Rightarrow> fsm_page list" where
  "fork_pages rel = (case fsm_fork rel of None \<Rightarrow> [] | Some ps \<Rightarrow> ps)"

definition BufferGetPage :: "fsm_rel \<Rightarrow> nat \<Rightarrow> fsm_page" where
  "BufferGetPage rel buf = fork_pages rel ! buf"

definition write_page :: "fsm_rel \<Rightarrow> nat \<Rightarrow> fsm_page \<Rightarrow> fsm_rel" where
  "write_page rel buf page = rel\<lparr>fsm_fork := Some ((fork_pages rel)[buf := page])\<rparr>"

fun extend_loop :: "nat \<Rightarrow> nat \<Rightarrow> fsm_page list \<Rightarrow> fsm_page list" where
  "extend_loop blcksz 0 pages = pages"
| "extend_loop blcksz (Suc n) pages = extend_loop blcksz n (pages @ [zero_page blcksz])"

definition fsm_extend :: "nat \<Rightarrow> fsm_rel \<Rightarrow> nat \<Rightarrow> fsm_rel" where
  "fsm_extend blcksz rel fsm_nblocks =
     (let rel1 = (if (smgr_fsm_nblocks rel = Some 0 \<or> smgr_fsm_nblocks rel = None) \<and> fsm_fork rel = None
                  then rel\<lparr>fsm_fork := Some []\<rparr> else rel);
          now = length (fork_pages rel1);
          pages = extend_loop blcksz (fsm_nblocks - now) (fork_pages rel1)
      in rel1\<lparr>fsm_fork := Some pages, smgr_fsm_nblocks := Some (length pages)\<rparr>)"

definition fsm_readbuf :: "nat \<Rightarrow> fsm_rel \<Rightarrow> FSMAddress \<Rightarrow> bool \<Rightarrow> nat option \<times> fsm_rel" where
  "fsm_readbuf blcksz rel addr ext =
     (let blkno = fsm_logical_to_physical blcksz addr;
          nblocks = (if smgr_fsm_nblocks rel = None \<or> blkno \<ge> the (smgr_fsm_nblocks rel)
                     then length (fork_pages rel) else the (smgr_fsm_nblocks rel));
          rel1 = rel\<lparr>smgr_fsm_nblocks := Some nblocks\<rparr>
      in if blkno \<ge> nblocks then
           (if ext then (Some blkno, fsm_extend blcksz rel1 (blkno + 1)) else (None, rel1))
         else (Some blkno, rel1))"

section \<open>Workhorses\<close>

text \<open>A search in a page ends within two passes; a third outcome, out of fuel, is \<open>None\<close>.\<close>

definition fsm_set_and_search ::
  "nat \<Rightarrow> fsm_rel \<Rightarrow> FSMAddress \<Rightarrow> nat \<Rightarrow> uint8 \<Rightarrow> uint8 \<Rightarrow> bool \<Rightarrow> (int \<times> fsm_rel) option" where
  "fsm_set_and_search blcksz rel addr slot newValue minValue search =
     (case fsm_readbuf blcksz rel addr True of
        (None, rel1) \<Rightarrow> None
      | (Some buf, rel1) \<Rightarrow>
          (let page = snd (fsm_set_avail blcksz (BufferGetPage rel1 buf) slot newValue);
               rel2 = write_page rel1 buf page
           in if minValue \<noteq> 0 \<and> search then
                (case fsm_search_avail blcksz (\<lambda>p. p) 2 page minValue (level addr = FSM_BOTTOM_LEVEL) True of
                   None \<Rightarrow> None
                 | Some (newslot, page1) \<Rightarrow> Some (newslot, write_page rel2 buf page1))
              else Some (-1, rel2)))"

text \<open>
  One round of the loop of \<^verbatim>\<open>fsm_search\<close>: either the block number returned, or the address and the
  restart counter with which the next round starts.
\<close>

definition search_round ::
  "nat \<Rightarrow> fsm_rel \<Rightarrow> uint8 \<Rightarrow> FSMAddress \<Rightarrow> nat \<Rightarrow> ((nat + FSMAddress \<times> nat) \<times> fsm_rel) option" where
  "search_round blcksz rel min_cat addr restarts =
     (let in_page =
            (case fsm_readbuf blcksz rel addr False of
               (None, rel1) \<Rightarrow> Some (-1, 0, rel1)
             | (Some buf, rel1) \<Rightarrow>
                 (case fsm_search_avail blcksz (\<lambda>p. p) 2 (BufferGetPage rel1 buf) min_cat
                         (level addr = FSM_BOTTOM_LEVEL) False of
                    None \<Rightarrow> None
                  | Some (slot, page) \<Rightarrow>
                      Some (slot, if slot = -1 then fsm_get_max_avail page else 0, write_page rel1 buf page)))
      in case in_page of
           None \<Rightarrow> None
         | Some (slot, max_avail, rel2) \<Rightarrow>
             if slot \<noteq> -1 then
               (if level addr = FSM_BOTTOM_LEVEL
                then Some (Inl (fsm_get_heap_blk blcksz addr (nat slot)), rel2)
                else Some (Inr (fsm_get_child blcksz addr (nat slot), restarts), rel2))
             else if level addr = FSM_ROOT_LEVEL blcksz then Some (Inl InvalidBlockNumber, rel2)
             else
               (case fsm_get_parent blcksz addr of
                  (parent, parentslot) \<Rightarrow>
                    (case fsm_set_and_search blcksz rel2 parent parentslot max_avail 0 True of
                       None \<Rightarrow> None
                     | Some (dummy, rel3) \<Rightarrow>
                         if restarts > 10000 then Some (Inl InvalidBlockNumber, rel3)
                         else Some (Inr (g_fsm_root_address blcksz, restarts + 1), rel3))))"

fun fsm_search_loop ::
  "nat \<Rightarrow> nat \<Rightarrow> fsm_rel \<Rightarrow> uint8 \<Rightarrow> FSMAddress \<Rightarrow> nat \<Rightarrow> (nat \<times> fsm_rel) option" where
  "fsm_search_loop blcksz 0 rel min_cat addr restarts = None"
| "fsm_search_loop blcksz (Suc fuel) rel min_cat addr restarts =
     (case search_round blcksz rel min_cat addr restarts of
        None \<Rightarrow> None
      | Some (Inl blk, rel1) \<Rightarrow> Some (blk, rel1)
      | Some (Inr (addr1, restarts1), rel1) \<Rightarrow> fsm_search_loop blcksz fuel rel1 min_cat addr1 restarts1)"

text \<open>The valve lets at most 10002 descents of at most four levels happen.\<close>

definition fsm_search :: "nat \<Rightarrow> fsm_rel \<Rightarrow> uint8 \<Rightarrow> (nat \<times> fsm_rel) option" where
  "fsm_search blcksz rel min_cat =
     fsm_search_loop blcksz 50000 rel min_cat (g_fsm_root_address blcksz) 0"

text \<open>
  The loop over the slots of an upper page in \<^verbatim>\<open>fsm_vacuum_page\<close>; \<open>child\<close> is the recursive call on
  the child page of a slot, which returns the category, the end-of-file flag and the new state.
\<close>

fun vacuum_slots ::
  "nat \<Rightarrow> (fsm_rel \<Rightarrow> nat \<Rightarrow> (uint8 \<times> bool) \<times> fsm_rel) \<Rightarrow> nat \<Rightarrow> nat \<Rightarrow> nat \<Rightarrow> bool \<Rightarrow> fsm_rel \<Rightarrow> fsm_rel" where
  "vacuum_slots blcksz child buf 0 slot eof rel = rel"
| "vacuum_slots blcksz child buf (Suc n) slot eof rel =
     (case (if \<not> eof then child rel slot else ((0, eof), rel)) of
        ((child_avail, eof1), rel1) \<Rightarrow>
          (let page = BufferGetPage rel1 buf;
               rel2 = (if fsm_get_avail blcksz page slot \<noteq> child_avail
                       then write_page rel1 buf (snd (fsm_set_avail blcksz page slot child_avail)) else rel1)
           in vacuum_slots blcksz child buf n (slot + 1) eof1 rel2))"

fun fsm_vacuum_page :: "nat \<Rightarrow> nat \<Rightarrow> fsm_rel \<Rightarrow> nat \<Rightarrow> (uint8 \<times> bool) \<times> fsm_rel" where
  "fsm_vacuum_page blcksz 0 rel n =
     (case fsm_readbuf blcksz rel \<lparr>level = 0, logpageno = n\<rparr> False of
        (None, rel1) \<Rightarrow> ((0, True), rel1)
      | (Some buf, rel1) \<Rightarrow>
          (let page = BufferGetPage rel1 buf
           in ((fsm_get_max_avail page, False), write_page rel1 buf (page\<lparr>fp_next_slot := 0\<rparr>))))"
| "fsm_vacuum_page blcksz (Suc l) rel n =
     (case fsm_readbuf blcksz rel \<lparr>level = Suc l, logpageno = n\<rparr> False of
        (None, rel1) \<Rightarrow> ((0, True), rel1)
      | (Some buf, rel1) \<Rightarrow>
          (let rel2 = vacuum_slots blcksz
                 (\<lambda>r slot. fsm_vacuum_page blcksz l r
                    (logpageno (fsm_get_child blcksz \<lparr>level = Suc l, logpageno = n\<rparr> slot)))
                 buf (SlotsPerFSMPage blcksz) 0 False rel1;
               page = BufferGetPage rel2 buf
           in ((fsm_get_max_avail page, False), write_page rel2 buf (page\<lparr>fp_next_slot := 0\<rparr>))))"

text \<open>
  The recursion climbs from \<open>addr\<close>; it is bounded by the levels above it. The source compares with
  \<^verbatim>\<open>==\<close>; an address above the root fails the assertion of \<^verbatim>\<open>fsm_get_parent\<close> and does not occur.
\<close>

function fsm_update_recursive :: "nat \<Rightarrow> fsm_rel \<Rightarrow> FSMAddress \<Rightarrow> uint8 \<Rightarrow> bool \<Rightarrow> fsm_rel option" where
  "fsm_update_recursive blcksz rel addr new_cat search =
     (if level addr \<ge> FSM_ROOT_LEVEL blcksz then Some rel
      else
        (case fsm_get_parent blcksz addr of
           (parent, parentslot) \<Rightarrow>
             (case fsm_set_and_search blcksz rel parent parentslot new_cat 0 search of
                None \<Rightarrow> None
              | Some (dummy, rel1) \<Rightarrow> fsm_update_recursive blcksz rel1 parent new_cat search)))"
  by pat_completeness auto
termination
  by (relation "measure (\<lambda>(b, rel, addr, c, s). FSM_ROOT_LEVEL b - level addr)")
    (auto simp: fsm_get_parent_def)

section \<open>Public functions\<close>

definition GetPageWithFreeSpace :: "nat \<Rightarrow> fsm_rel \<Rightarrow> nat \<Rightarrow> (fsm_error + nat \<times> fsm_rel) option" where
  "GetPageWithFreeSpace blcksz rel spaceNeeded =
     (case fsm_space_needed_to_cat blcksz spaceNeeded of
        Inl e \<Rightarrow> Some (Inl e)
      | Inr min_cat \<Rightarrow> map_option Inr (fsm_search blcksz rel min_cat))"

definition RecordAndGetPageWithFreeSpace ::
  "nat \<Rightarrow> fsm_rel \<Rightarrow> nat \<Rightarrow> nat \<Rightarrow> nat \<Rightarrow> (fsm_error + nat \<times> fsm_rel) option" where
  "RecordAndGetPageWithFreeSpace blcksz rel oldPage oldSpaceAvail spaceNeeded =
     (let old_cat = fsm_space_avail_to_cat blcksz oldSpaceAvail
      in case fsm_space_needed_to_cat blcksz spaceNeeded of
           Inl e \<Rightarrow> Some (Inl e)
         | Inr search_cat \<Rightarrow>
             (case fsm_get_location blcksz oldPage of
                (addr, slot) \<Rightarrow>
                  (case fsm_set_and_search blcksz rel addr slot old_cat search_cat True of
                     None \<Rightarrow> None
                   | Some (search_slot, rel1) \<Rightarrow>
                       if search_slot \<noteq> -1
                       then Some (Inr (fsm_get_heap_blk blcksz addr (nat search_slot), rel1))
                       else map_option Inr (fsm_search blcksz rel1 search_cat))))"

definition RecordPageWithFreeSpace :: "nat \<Rightarrow> fsm_rel \<Rightarrow> nat \<Rightarrow> nat \<Rightarrow> fsm_rel option" where
  "RecordPageWithFreeSpace blcksz rel heapBlk spaceAvail =
     (let new_cat = fsm_space_avail_to_cat blcksz spaceAvail
      in case fsm_get_location blcksz heapBlk of
           (addr, slot) \<Rightarrow> map_option snd (fsm_set_and_search blcksz rel addr slot new_cat 0 True))"

text \<open>The loop of \<^verbatim>\<open>UpdateFreeSpaceMap\<close>, with fuel for its rounds.\<close>

fun update_map_loop :: "nat \<Rightarrow> nat \<Rightarrow> fsm_rel \<Rightarrow> nat \<Rightarrow> nat \<Rightarrow> uint8 \<Rightarrow> bool \<Rightarrow> fsm_rel option" where
  "update_map_loop blcksz 0 rel blockNum endBlkNum new_cat search = None"
| "update_map_loop blcksz (Suc fuel) rel blockNum endBlkNum new_cat search =
     (if blockNum \<le> endBlkNum then
        (let addr = fst (fsm_get_location blcksz blockNum)
         in case fsm_update_recursive blcksz rel addr new_cat search of
              None \<Rightarrow> None
            | Some rel1 \<Rightarrow>
                (let lastBlkOnPage = fsm_get_lastblckno blcksz addr
                 in if lastBlkOnPage \<ge> endBlkNum then Some rel1
                    else update_map_loop blcksz fuel rel1 ((lastBlkOnPage + 1) mod 2 ^ 32)
                           endBlkNum new_cat search))
      else Some rel)"

definition UpdateFreeSpaceMap ::
  "nat \<Rightarrow> nat \<Rightarrow> fsm_rel \<Rightarrow> nat \<Rightarrow> nat \<Rightarrow> nat \<Rightarrow> bool \<Rightarrow> fsm_rel option" where
  "UpdateFreeSpaceMap blcksz fuel rel startBlkNum endBlkNum freespace search =
     update_map_loop blcksz fuel rel startBlkNum endBlkNum (fsm_space_avail_to_cat blcksz freespace) search"

definition GetRecordedFreeSpace :: "nat \<Rightarrow> fsm_rel \<Rightarrow> nat \<Rightarrow> nat \<times> fsm_rel" where
  "GetRecordedFreeSpace blcksz rel heapBlk =
     (case fsm_get_location blcksz heapBlk of
        (addr, slot) \<Rightarrow>
          (case fsm_readbuf blcksz rel addr False of
             (None, rel1) \<Rightarrow> (0, rel1)
           | (Some buf, rel1) \<Rightarrow>
               (fsm_space_cat_to_avail blcksz (fsm_get_avail blcksz (BufferGetPage rel1 buf) slot), rel1)))"

text \<open>
  \<^verbatim>\<open>XLogReadBufferExtended\<close> extends the fork as needed and leaves the cached size alone;
  relations in segment files are skipped in replay.
\<close>

definition XLogRecordPageWithFreeSpace :: "nat \<Rightarrow> bool \<Rightarrow> fsm_rel \<Rightarrow> nat \<Rightarrow> nat \<Rightarrow> fsm_rel" where
  "XLogRecordPageWithFreeSpace blcksz isSegment rel heapBlk spaceAvail =
     (if isSegment then rel
      else
        (let new_cat = fsm_space_avail_to_cat blcksz spaceAvail
         in case fsm_get_location blcksz heapBlk of
              (addr, slot) \<Rightarrow>
                (let blkno = fsm_logical_to_physical blcksz addr;
                     rel1 = rel\<lparr>fsm_fork := Some (extend_loop blcksz
                              (blkno + 1 - length (fork_pages rel)) (fork_pages rel))\<rparr>
                 in write_page rel1 blkno (snd (fsm_set_avail blcksz (BufferGetPage rel1 blkno) slot new_cat)))))"

definition FreeSpaceMapTruncateRel :: "nat \<Rightarrow> fsm_rel \<Rightarrow> nat \<Rightarrow> fsm_rel" where
  "FreeSpaceMapTruncateRel blcksz rel nblocks =
     (if fsm_fork rel = None then rel
      else
        (case fsm_get_location blcksz nblocks of
           (first_removed_address, first_removed_slot) \<Rightarrow>
             if first_removed_slot > 0 then
               (case fsm_readbuf blcksz rel first_removed_address False of
                  (None, rel1) \<Rightarrow> rel1
                | (Some buf, rel1) \<Rightarrow>
                    (let page = snd (fsm_truncate_avail blcksz (BufferGetPage rel1 buf) first_removed_slot);
                         rel2 = write_page rel1 buf page;
                         new_nfsmblocks = fsm_logical_to_physical blcksz first_removed_address + 1
                     in rel2\<lparr>fsm_fork := Some (take new_nfsmblocks (fork_pages rel2)),
                             smgr_fsm_nblocks := Some new_nfsmblocks\<rparr>))
             else
               (let new_nfsmblocks = fsm_logical_to_physical blcksz first_removed_address
                in if length (fork_pages rel) \<le> new_nfsmblocks then rel
                   else rel\<lparr>fsm_fork := Some (take new_nfsmblocks (fork_pages rel)),
                            smgr_fsm_nblocks := Some new_nfsmblocks\<rparr>)))"

definition FreeSpaceMapVacuum :: "nat \<Rightarrow> fsm_rel \<Rightarrow> fsm_rel" where
  "FreeSpaceMapVacuum blcksz rel =
     snd (fsm_vacuum_page blcksz (level (g_fsm_root_address blcksz)) rel (logpageno (g_fsm_root_address blcksz)))"

definition FreeSpaceMapCalTruncBlkNo :: "nat \<Rightarrow> nat \<Rightarrow> nat" where
  "FreeSpaceMapCalTruncBlkNo blcksz relBlkNo =
     fsm_logical_to_physical blcksz (fst (fsm_get_location blcksz relBlkNo))"

end
