(* ===== verification/Free_Space.thy ===== *)
theory Free_Space
  imports Free_Space_Model
begin

text \<open>
  Correctness of the free space map. \<open>avail_at\<close> is the category recorded in a slot of the page at
  an address, zero where the fork has no such page, and \<open>recorded\<close> the one of a heap block. The
  lemmas follow the code upwards: categories, the layout of the tree in the fork, reading and
  extending the fork, the workhorses, and the public functions.
\<close>

section \<open>Block sizes\<close>

text \<open>The default block size and the larger ones, for which the tree has three levels.\<close>

definition fsm_blcksz :: "nat \<Rightarrow> bool" where
  "fsm_blcksz b \<longleftrightarrow> 8192 \<le> b \<and> b \<le> 32768"

lemma fsm_blcksz_valid: "fsm_blcksz b \<Longrightarrow> valid_blcksz b"
  by (simp add: fsm_blcksz_def valid_blcksz_def)

lemma slots_bounds: "fsm_blcksz b \<Longrightarrow> 4069 \<le> SlotsPerFSMPage b \<and> SlotsPerFSMPage b < 16384"
  by (auto simp: fsm_blcksz_def LeafNodesPerPage_def NodesPerPage_def NonLeafNodesPerPage_def)

lemma depth_3 [simp]: "fsm_blcksz b \<Longrightarrow> FSM_TREE_DEPTH b = 3"
  using slots_bounds [of b] by (simp add: FSM_TREE_DEPTH_def)

lemma root_level_2 [simp]: "fsm_blcksz b \<Longrightarrow> FSM_ROOT_LEVEL b = 2"
  by (simp add: FSM_ROOT_LEVEL_def)

lemma slots_pos [simp]: "fsm_blcksz b \<Longrightarrow> 0 < SlotsPerFSMPage b"
  using slots_bounds [of b] by simp

section \<open>Categories\<close>

lemma cat_step_bounds: "fsm_blcksz b \<Longrightarrow> 32 \<le> FSM_CAT_STEP b"
  by (auto simp: fsm_blcksz_def FSM_CAT_STEP_def)

lemma cat_254: "fsm_blcksz b \<Longrightarrow> 254 * FSM_CAT_STEP b \<le> MaxFSMRequestSize b"
  by (auto simp: fsm_blcksz_def FSM_CAT_STEP_def MaxFSMRequestSize_def)

lemma unat_cat: "n \<le> 255 \<Longrightarrow> unat (of_nat n :: uint8) = n"
  by (simp add: unat_of_nat take_bit_eq_mod)

lemma cat_to_avail_unat:
  "fsm_space_cat_to_avail b c = (if unat c = 255 then MaxFSMRequestSize b else unat c * FSM_CAT_STEP b)"
proof -
  have "c = 255 \<longleftrightarrow> unat c = 255" by (simp add: word_unat_eq_iff)
  then show ?thesis by (simp add: fsm_space_cat_to_avail_def)
qed

lemma avail_to_cat_unat:
  "unat (fsm_space_avail_to_cat b avail) =
     (if avail \<ge> MaxFSMRequestSize b then 255 else min 254 (avail div FSM_CAT_STEP b))"
  by (auto simp: fsm_space_avail_to_cat_def Let_def unat_cat min_def)

lemma needed_to_cat_unat:
  "fsm_space_needed_to_cat b needed = Inr c \<Longrightarrow> 0 < needed \<Longrightarrow>
   unat c = min 255 ((needed + FSM_CAT_STEP b - 1) div FSM_CAT_STEP b) \<and> needed \<le> MaxFSMRequestSize b"
  by (auto simp: fsm_space_needed_to_cat_def Let_def unat_cat min_def split: if_splits)

lemma cat_to_avail_mono:
  assumes "fsm_blcksz b" "c \<le> d"
  shows "fsm_space_cat_to_avail b c \<le> fsm_space_cat_to_avail b d"
proof -
  have "unat c \<le> unat d" using assms(2) by (simp add: word_le_nat_alt)
  moreover have "unat d < 2 ^ LENGTH(8)" by (rule unsigned_less)
  moreover have "unat c * FSM_CAT_STEP b \<le> MaxFSMRequestSize b" if "unat c \<le> 254"
    using mult_le_mono1 [OF that, of "FSM_CAT_STEP b"] cat_254 [OF assms(1)] by linarith
  ultimately show ?thesis by (auto simp: cat_to_avail_unat)
qed

lemma ceiling_div: "0 < (s :: nat) \<Longrightarrow> n \<le> (n + s - 1) div s * s"
  using dividend_less_div_times [of s "n + s - 1"] by (simp add: add.commute)

lemma needed_le_cat:
  assumes "fsm_blcksz b" "fsm_space_needed_to_cat b needed = Inr c"
  shows "needed \<le> fsm_space_cat_to_avail b c"
proof (cases "needed = 0")
  case False
  then have c: "unat c = min 255 ((needed + FSM_CAT_STEP b - 1) div FSM_CAT_STEP b)"
    and n: "needed \<le> MaxFSMRequestSize b" using needed_to_cat_unat [OF assms(2)] by simp_all
  have "needed \<le> unat c * FSM_CAT_STEP b" if "unat c \<noteq> 255"
    using that c ceiling_div [of "FSM_CAT_STEP b" needed] cat_step_bounds [OF assms(1)] by (auto simp: min_def split: if_splits)
  with n show ?thesis by (simp add: cat_to_avail_unat)
qed simp

lemma avail_to_cat_lower:
  assumes "fsm_blcksz b"
  shows "fsm_space_cat_to_avail b (fsm_space_avail_to_cat b avail) \<le> avail"
proof (cases "avail \<ge> MaxFSMRequestSize b")
  case False
  have "min 254 (avail div FSM_CAT_STEP b) * FSM_CAT_STEP b \<le> avail div FSM_CAT_STEP b * FSM_CAT_STEP b"
    by (rule mult_le_mono1) simp
  also have "\<dots> \<le> avail" by simp
  finally show ?thesis using False by (simp add: cat_to_avail_unat avail_to_cat_unat)
qed (simp add: cat_to_avail_unat avail_to_cat_unat)

lemma needed_cat_positive: 
  assumes "fsm_blcksz b" "fsm_space_needed_to_cat b needed = Inr c"
  shows "c \<noteq> 0"
proof (cases "needed = 0")
  case True
  then show ?thesis using assms(2) by (auto simp: fsm_space_needed_to_cat_def)
next
  case False
  then have "FSM_CAT_STEP b \<le> needed + FSM_CAT_STEP b - 1" by simp
  then have "0 < (needed + FSM_CAT_STEP b - 1) div FSM_CAT_STEP b"
    using cat_step_bounds [OF assms(1)] by (simp add: div_greater_zero_iff)
  then have "0 < unat c" using needed_to_cat_unat [OF assms(2)] False by simp
  then show ?thesis by auto
qed

section \<open>The tree in the fork\<close>

definition addr_ok :: "nat \<Rightarrow> FSMAddress \<Rightarrow> bool" where
  "addr_ok b addr \<longleftrightarrow> level addr \<le> FSM_ROOT_LEVEL b"

lemma first_leaf_loop_eq: "first_leaf_loop s l n = n * s ^ l"
  by (induction s l n rule: first_leaf_loop.induct) simp_all

text \<open>Pages at or before the position of a leaf page, level by level.\<close>

definition pages_upto :: "nat \<Rightarrow> nat \<Rightarrow> nat" where
  "pages_upto s k = k + k div s + k div s div s"

lemma physical_eq:
  assumes "fsm_blcksz b" "addr_ok b addr"
  shows "fsm_logical_to_physical b addr =
    pages_upto (SlotsPerFSMPage b) (logpageno addr * SlotsPerFSMPage b ^ level addr) + (2 - level addr)"
  using assms by (auto simp: fsm_logical_to_physical_def first_leaf_loop_eq pages_upto_def addr_ok_def numeral_3_eq_3 Let_def)

lemma div_step: "0 < (s :: nat) \<Longrightarrow> (k div s) \<le> (k + 1) div s"
  by (simp add: div_le_mono)

lemma div_step_dvd: "0 < s \<Longrightarrow> (s :: nat) dvd k + 1 \<Longrightarrow> (k + 1) div s = k div s + 1"
  by (metis Suc_eq_plus1 div_Suc dvd_eq_mod_eq_0)

lemma pages_upto_step:
  assumes "0 < s" "s ^ l dvd k + 1" "l \<le> 2"
  shows "pages_upto s k + 1 + l \<le> pages_upto s (k + 1)"
proof -
  consider "l = 0" | "l = 1" | "l = 2" using assms(3) by linarith
  then show ?thesis
  proof cases
    case 1
    have "k div s \<le> (k + 1) div s" "k div s div s \<le> (k + 1) div s div s" by (simp_all add: div_le_mono)
    then show ?thesis unfolding pages_upto_def 1 by linarith
  next
    case 2
    with assms(2) have "s dvd k + 1" by simp
    from div_step_dvd [OF assms(1) this] 2 show ?thesis
      using div_step [OF assms(1), of "k div s"] by (simp add: pages_upto_def)
  next
    case 3
    have d1: "s dvd k + 1" using assms(2) 3 by (metis dvd_mult_left power2_eq_square)
    have e1: "(k + 1) div s = k div s + 1" by (rule div_step_dvd [OF assms(1) d1])
    obtain q where q: "k + 1 = s * s * q" using assms(2) unfolding 3 power2_eq_square by (rule dvdE)
    have "(k + 1) div s = s * q" unfolding q mult.assoc using assms(1) by simp
    then have "s dvd (k + 1) div s" by simp
    then have "(k div s + 1) div s = k div s div s + 1" using e1 by (intro div_step_dvd [OF assms(1)]) simp
    with e1 3 show ?thesis by (simp add: pages_upto_def)
  qed
qed

lemma pages_upto_mono: "0 < s \<Longrightarrow> j \<le> k \<Longrightarrow> pages_upto s j \<le> pages_upto s k"
  by (simp add: pages_upto_def add_mono div_le_mono)

text \<open>A page whose first leaf comes later is stored later.\<close>

lemma physical_less:
  assumes "fsm_blcksz b" "addr_ok b x" "addr_ok b y"
    and "logpageno x * SlotsPerFSMPage b ^ level x < logpageno y * SlotsPerFSMPage b ^ level y"
  shows "fsm_logical_to_physical b x < fsm_logical_to_physical b y"
proof -
  let ?s = "SlotsPerFSMPage b" let ?j = "logpageno x * ?s ^ level x" let ?k = "logpageno y * ?s ^ level y"
  have pos: "0 < ?s" and l: "level y \<le> 2" using assms by (simp_all add: addr_ok_def)
  obtain k where k: "?k = k + 1" using assms(4) by (metis Suc_eq_plus1 less_imp_Suc_add)
  have "?s ^ level y dvd k + 1" unfolding k [symmetric] by simp
  from pages_upto_step [OF pos this l] pages_upto_mono [OF pos, of ?j k] assms(4) k
  have "pages_upto ?s ?j + 1 + level y \<le> pages_upto ?s ?k" by simp
  then show ?thesis using l by (simp add: physical_eq assms(1-3))
qed

lemma physical_inj:
  assumes "fsm_blcksz b" "addr_ok b x" "addr_ok b y"
    and "fsm_logical_to_physical b x = fsm_logical_to_physical b y"
  shows "x = y"
proof -
  let ?s = "SlotsPerFSMPage b"
  have eq: "logpageno x * ?s ^ level x = logpageno y * ?s ^ level y"
    using physical_less [OF assms(1-3)] physical_less [OF assms(1,3,2)] assms(4)
    by (metis less_irrefl linorder_neqE_nat)
  with assms have "2 - level x = 2 - level y" by (simp add: physical_eq)
  then have "level x = level y" using assms(1-3) by (auto simp: addr_ok_def)
  moreover from this eq have "logpageno x = logpageno y" using slots_pos [OF assms(1)] by simp
  ultimately show ?thesis by simp
qed

lemma location_ok: "fsm_blcksz b \<Longrightarrow> addr_ok b (fst (fsm_get_location b blk))"
  by (simp add: fsm_get_location_def addr_ok_def)

lemma location_slot: "fsm_blcksz b \<Longrightarrow> snd (fsm_get_location b blk) < SlotsPerFSMPage b"
  by (simp add: fsm_get_location_def)

lemma location_inj:
  "fsm_blcksz b \<Longrightarrow> fsm_get_location b x = fsm_get_location b y \<Longrightarrow> x = y"
  by (auto simp: fsm_get_location_def) (metis div_mult_mod_eq)

lemma heap_blk_location:
  "blk < 2 ^ 32 \<Longrightarrow> fsm_get_location b blk = (addr, slot) \<Longrightarrow> fsm_get_heap_blk b addr slot = blk"
  by (auto simp: fsm_get_location_def fsm_get_heap_blk_def)

lemma parent_child:
  "fsm_blcksz b \<Longrightarrow> 0 < level addr \<Longrightarrow> slot < SlotsPerFSMPage b \<Longrightarrow>
   fsm_get_parent b (fsm_get_child b addr slot) = (addr, slot)"
  by (simp add: fsm_get_parent_def fsm_get_child_def)

section \<open>Reading and extending the fork\<close>

definition rel_wf :: "nat \<Rightarrow> fsm_rel \<Rightarrow> bool" where
  "rel_wf b rel \<longleftrightarrow> (\<forall>p \<in> set (fork_pages rel). page_wf b p) \<and>
     (case smgr_fsm_nblocks rel of None \<Rightarrow> True | Some n \<Rightarrow> n \<le> length (fork_pages rel))"

definition avail_at :: "nat \<Rightarrow> fsm_rel \<Rightarrow> FSMAddress \<Rightarrow> nat \<Rightarrow> uint8" where
  "avail_at b rel addr slot =
     (let buf = fsm_logical_to_physical b addr
      in if buf < length (fork_pages rel) then fsm_get_avail b (fork_pages rel ! buf) slot else 0)"

definition recorded :: "nat \<Rightarrow> fsm_rel \<Rightarrow> nat \<Rightarrow> uint8" where
  "recorded b rel heapBlk = (case fsm_get_location b heapBlk of (addr, slot) \<Rightarrow> avail_at b rel addr slot)"

lemma fork_pages_Some [simp]: "fork_pages (rel\<lparr>fsm_fork := Some ps\<rparr>) = ps"
  "fork_pages (rel\<lparr>fsm_fork := Some ps, smgr_fsm_nblocks := n\<rparr>) = ps"
  "fork_pages (rel\<lparr>smgr_fsm_nblocks := n\<rparr>) = fork_pages rel"
  by (simp_all add: fork_pages_def)

lemma extend_loop_eq: "extend_loop b n ps = ps @ replicate n (zero_page b)"
  by (induction b n ps rule: extend_loop.induct) (simp_all add: replicate_append_same)

lemma zero_page_wf: "page_wf b (zero_page b)"
  by (simp add: page_wf_def zero_page_def)

lemma zero_page_avail: "fsm_blcksz b \<Longrightarrow> s < SlotsPerFSMPage b \<Longrightarrow> fsm_get_avail b (zero_page b) s = 0"
  using geometry(6) [OF fsm_blcksz_valid, of b] by (simp add: fsm_get_avail_def zero_page_def)

lemma fsm_extend_pages: "fork_pages (fsm_extend b rel n) = fork_pages rel @ replicate (n - length (fork_pages rel)) (zero_page b)"
  by (auto simp: fsm_extend_def Let_def extend_loop_eq) (simp_all add: fork_pages_def)

lemma fsm_extend_nblocks: "smgr_fsm_nblocks (fsm_extend b rel n) = Some (length (fork_pages (fsm_extend b rel n)))"
  by (simp add: fsm_extend_def Let_def)

lemma readbuf_no_extend:
  assumes "rel_wf b rel" "fsm_readbuf b rel addr False = (buf, rel1)"
  shows "fork_pages rel1 = fork_pages rel" "rel_wf b rel1" "fsm_fork rel1 = fsm_fork rel"
    "buf = (if fsm_logical_to_physical b addr < length (fork_pages rel)
            then Some (fsm_logical_to_physical b addr) else None)"
proof -
  let ?p = "fsm_logical_to_physical b addr"
  have "smgr_fsm_nblocks rel = Some n \<Longrightarrow> n \<le> length (fork_pages rel)" for n
    using assms(1) by (simp add: rel_wf_def)
  then show "fork_pages rel1 = fork_pages rel" "rel_wf b rel1" "fsm_fork rel1 = fsm_fork rel"
    "buf = (if ?p < length (fork_pages rel) then Some ?p else None)"
    using assms by (auto simp: fsm_readbuf_def Let_def rel_wf_def split: if_splits option.splits)
qed

lemma readbuf_extend:
  assumes "rel_wf b rel" "fsm_readbuf b rel addr True = (buf, rel1)"
  shows "buf = Some (fsm_logical_to_physical b addr)" "rel_wf b rel1"
    "fork_pages rel1 = fork_pages rel @
       replicate (fsm_logical_to_physical b addr + 1 - length (fork_pages rel)) (zero_page b)"
proof -
  let ?p = "fsm_logical_to_physical b addr"
  have cached: "smgr_fsm_nblocks rel = Some n \<Longrightarrow> n \<le> length (fork_pages rel)" for n
    using assms(1) by (simp add: rel_wf_def)
  show "buf = Some ?p"
    using assms by (auto simp: fsm_readbuf_def Let_def split: if_splits)
  show pages: "fork_pages rel1 = fork_pages rel @ replicate (?p + 1 - length (fork_pages rel)) (zero_page b)"
    using assms cached by (fastforce simp: fsm_readbuf_def Let_def fsm_extend_pages split: if_splits)
  have "case smgr_fsm_nblocks rel1 of None \<Rightarrow> True | Some n \<Rightarrow> n \<le> length (fork_pages rel1)"
    using assms cached by (auto simp: fsm_readbuf_def Let_def fsm_extend_nblocks split: if_splits)
  then show "rel_wf b rel1" using assms(1) pages zero_page_wf by (auto simp: rel_wf_def)
qed

lemma avail_at_cong: "fork_pages rel1 = fork_pages rel \<Longrightarrow> avail_at b rel1 = avail_at b rel"
  by (simp add: avail_at_def fun_eq_iff Let_def)

lemma avail_at_extend:
  assumes "fsm_blcksz b" "fork_pages rel1 = fork_pages rel @ replicate n (zero_page b)" "s < SlotsPerFSMPage b"
  shows "avail_at b rel1 addr s = avail_at b rel addr s"
  using assms zero_page_avail [OF assms(1,3)] by (auto simp: avail_at_def Let_def nth_append)

lemma write_page_pages [simp]: "fork_pages (write_page rel buf p) = (fork_pages rel)[buf := p]"
  by (simp add: write_page_def)

lemma write_page_wf: "rel_wf b rel \<Longrightarrow> page_wf b p \<Longrightarrow> rel_wf b (write_page rel buf p)"
  using set_update_subset_insert [of "fork_pages rel" buf p]
  by (auto simp: rel_wf_def write_page_def split: option.splits)

lemma avail_at_write:
  assumes "fsm_blcksz b" "addr_ok b addr" "addr_ok b x" "fsm_logical_to_physical b addr < length (fork_pages rel)"
  shows "avail_at b (write_page rel (fsm_logical_to_physical b addr) p) x s =
    (if x = addr then fsm_get_avail b p s else avail_at b rel x s)"
  using physical_inj [OF assms(1,2,3)] assms(4) by (auto simp: avail_at_def Let_def nth_list_update)

lemma page_at_wf: "rel_wf b rel \<Longrightarrow> buf < length (fork_pages rel) \<Longrightarrow> page_wf b (BufferGetPage rel buf)"
  by (simp add: rel_wf_def BufferGetPage_def)

text \<open>The search within a page keeps the slots, also where it repairs the page.\<close>

lemma search_keeps_slots:
  "valid_blcksz b \<Longrightarrow> page_wf b page \<Longrightarrow> fsm_search_avail b (\<lambda>p. p) fuel page m adv excl = Some (r, page') \<Longrightarrow>
   fsm_get_avail b page' = fsm_get_avail b page \<and> page_wf b page'"
proof (induction fuel arbitrary: page excl)
  case (Suc fuel)
  obtain c page1 where rb: "fsm_rebuild_page b page = (c, page1)" by fastforce
  note spec = fsm_rebuild_page_spec [OF Suc.prems(1,2) rb]
  have "fsm_get_avail b page1 = fsm_get_avail b page" using spec(2) by (simp add: fsm_get_avail_def fun_eq_iff)
  moreover have "page_wf b page1" using spec(1) by (rule fsm_ok_wf)
  ultimately show ?case
    using Suc.prems Suc.IH [of page1 True] rb
    by (auto simp: fsm_search_avail_step Let_def page_wf_def fsm_get_avail_def fun_eq_iff
        split: if_splits option.splits)
qed simp

lemma search_page:
  assumes "fsm_blcksz b" "page_wf b page"
  shows "\<exists>r page'. fsm_search_avail b (\<lambda>p. p) 2 page m adv excl = Some (r, page') \<and> page_wf b page' \<and>
    fsm_get_avail b page' = fsm_get_avail b page \<and>
    (r = -1 \<or> (\<exists>slot. r = int slot \<and> slot < SlotsPerFSMPage b \<and> m \<le> fsm_get_avail b page slot))"
  using fsm_search_avail_spec [OF fsm_blcksz_valid [OF assms(1)] assms(2), of "\<lambda>p. p" 0 m adv excl]
    search_keeps_slots [OF fsm_blcksz_valid [OF assms(1)] assms(2), of 2 m adv excl]
  by (auto simp: search_result_def numeral_2_eq_2)

lemma set_page:
  assumes "fsm_blcksz b" "page_wf b page" "slot < SlotsPerFSMPage b"
  shows "page_wf b (snd (fsm_set_avail b page slot v))"
    "fsm_get_avail b (snd (fsm_set_avail b page slot v)) s = (if s = slot then v else fsm_get_avail b page s)"
  using fsm_set_avail_spec(1,2) [OF fsm_blcksz_valid [OF assms(1)] assms(2,3)] by (metis prod.collapse)+

section \<open>Setting and searching\<close>

lemma set_and_search_spec:
  assumes "fsm_blcksz b" "rel_wf b rel" "addr_ok b addr" "slot < SlotsPerFSMPage b"
  shows "\<exists>r rel'. fsm_set_and_search b rel addr slot v m srch = Some (r, rel') \<and> rel_wf b rel' \<and>
    (\<forall>x s. addr_ok b x \<longrightarrow> s < SlotsPerFSMPage b \<longrightarrow>
       avail_at b rel' x s = (if x = addr \<and> s = slot then v else avail_at b rel x s)) \<and>
    length (fork_pages rel') = max (length (fork_pages rel)) (fsm_logical_to_physical b addr + 1) \<and>
    (r = -1 \<or> (\<exists>t. r = int t \<and> t < SlotsPerFSMPage b \<and> m \<le> avail_at b rel' addr t))"
proof -
  let ?p = "fsm_logical_to_physical b addr"
  obtain buf rel1 where rb: "fsm_readbuf b rel addr True = (buf, rel1)" by fastforce
  note read = readbuf_extend [OF assms(2) rb]
  have len: "?p < length (fork_pages rel1)" "length (fork_pages rel1) = max (length (fork_pages rel)) (?p + 1)"
    using read(3) by auto
  define page where "page = snd (fsm_set_avail b (BufferGetPage rel1 ?p) slot v)"
  note set = set_page [OF assms(1) page_at_wf [OF read(2) len(1)] assms(4), of v, folded page_def]
  define rel2 where "rel2 = write_page rel1 ?p page"
  have wf2: "rel_wf b rel2" unfolding rel2_def by (rule write_page_wf [OF read(2) set(1)])
  have here: "fsm_get_avail b (BufferGetPage rel1 ?p) s = avail_at b rel addr s" if "s < SlotsPerFSMPage b" for s
    using avail_at_extend [OF assms(1) read(3) that, of addr] len(1) by (simp add: avail_at_def Let_def BufferGetPage_def)
  have av: "avail_at b (write_page rel' ?p q) x s = (if x = addr \<and> s = slot then v else avail_at b rel x s)"
    if "addr_ok b x" "s < SlotsPerFSMPage b" "fsm_get_avail b q = fsm_get_avail b page"
      "rel' = rel1 \<or> rel' = rel2" for rel' q x s
  proof (cases "x = addr")
    case True
    with that len(1) show ?thesis using avail_at_write [OF assms(1,3) that(1), of rel' q s] set(2) here
      by (auto simp: rel2_def)
  next
    case False
    from that(4) have "avail_at b rel' x s = avail_at b rel1 x s"
      using avail_at_write [OF assms(1,3) that(1) len(1), of page s] False by (auto simp: rel2_def)
    moreover have "?p < length (fork_pages rel')" using that(4) len(1) by (auto simp: rel2_def)
    ultimately show ?thesis
      using avail_at_write [OF assms(1,3) that(1), of rel' q s] False avail_at_extend [OF assms(1) read(3) that(2), of x]
      by simp
  qed
  obtain r page1 where srch: "fsm_search_avail b (\<lambda>p. p) 2 page m (level addr = 0) True = Some (r, page1)"
    and p1: "page_wf b page1" "fsm_get_avail b page1 = fsm_get_avail b page"
    and r: "r = -1 \<or> (\<exists>t. r = int t \<and> t < SlotsPerFSMPage b \<and> m \<le> fsm_get_avail b page t)"
    using search_page [OF assms(1) set(1)] by blast
  have fin: "m \<le> avail_at b (write_page rel2 ?p page1) addr t"
    if "t < SlotsPerFSMPage b" "m \<le> fsm_get_avail b page t" for t
    using that av [OF assms(3) that(1) p1(2), of rel2] set(2) here [OF that(1)] by (auto split: if_splits)
  define res where "res = (if m \<noteq> 0 \<and> srch then (r, write_page rel2 ?p page1) else (-1, rel2))"
  have "fsm_set_and_search b rel addr slot v m srch = Some res"
    using srch by (simp add: fsm_set_and_search_def rb read(1) Let_def res_def flip: page_def rel2_def)
  moreover have "rel_wf b (snd res)" using wf2 write_page_wf [OF wf2 p1(1)] by (simp add: res_def)
  moreover have "avail_at b (snd res) x s = (if x = addr \<and> s = slot then v else avail_at b rel x s)"
    if "addr_ok b x" "s < SlotsPerFSMPage b" for x s
    using av [OF that p1(2), of rel2] av [OF that refl, of rel1] by (auto simp: res_def rel2_def)
  moreover have "length (fork_pages (snd res)) = max (length (fork_pages rel)) (?p + 1)"
    using len(2) by (simp add: res_def rel2_def)
  moreover have "fst res = -1 \<or> (\<exists>t. fst res = int t \<and> t < SlotsPerFSMPage b \<and> m \<le> avail_at b (snd res) addr t)"
    using r fin by (auto simp: res_def)
  ultimately show ?thesis by (cases res) auto
qed

text \<open>
  A round of the search. It never touches the categories of the bottom level, and where it descends,
  the page it comes from exists.
\<close>

definition has_page :: "nat \<Rightarrow> fsm_rel \<Rightarrow> FSMAddress \<Rightarrow> bool" where
  "has_page b rel addr \<longleftrightarrow> fsm_logical_to_physical b addr < length (fork_pages rel)"

definition search_state :: "nat \<Rightarrow> fsm_rel \<Rightarrow> FSMAddress \<Rightarrow> bool" where
  "search_state b rel addr \<longleftrightarrow> rel_wf b rel \<and> addr_ok b addr \<and>
     (level addr = FSM_ROOT_LEVEL b \<or> has_page b rel (fst (fsm_get_parent b addr)))"

definition same_bottom :: "nat \<Rightarrow> fsm_rel \<Rightarrow> fsm_rel \<Rightarrow> bool" where
  "same_bottom b rel rel' \<longleftrightarrow> length (fork_pages rel') = length (fork_pages rel) \<and>
     (\<forall>n s. s < SlotsPerFSMPage b \<longrightarrow>
        avail_at b rel' \<lparr>level = 0, logpageno = n\<rparr> s = avail_at b rel \<lparr>level = 0, logpageno = n\<rparr> s)"

lemma same_bottom_trans: "same_bottom b r1 r2 \<Longrightarrow> same_bottom b r2 r3 \<Longrightarrow> same_bottom b r1 r3"
  by (simp add: same_bottom_def)

text \<open>What one page contributes to a round.\<close>

lemma search_in_page:
  assumes "fsm_blcksz b" "rel_wf b rel" "addr_ok b addr" "has_page b rel addr"
  defines "buf \<equiv> fsm_logical_to_physical b addr"
  shows "\<exists>slot page. fsm_search_avail b (\<lambda>p. p) 2 (BufferGetPage rel buf) m adv excl = Some (slot, page) \<and>
    rel_wf b (write_page rel buf page) \<and> same_bottom b rel (write_page rel buf page) \<and>
    (slot = -1 \<or> (\<exists>s. slot = int s \<and> s < SlotsPerFSMPage b \<and> m \<le> avail_at b rel addr s))"
proof -
  have buf: "buf < length (fork_pages rel)" using assms(4) by (simp add: has_page_def buf_def)
  obtain slot page where s: "fsm_search_avail b (\<lambda>p. p) 2 (BufferGetPage rel buf) m adv excl = Some (slot, page)"
    "page_wf b page" "fsm_get_avail b page = fsm_get_avail b (BufferGetPage rel buf)"
    "slot = -1 \<or> (\<exists>t. slot = int t \<and> t < SlotsPerFSMPage b \<and> m \<le> fsm_get_avail b (BufferGetPage rel buf) t)"
    using search_page [OF assms(1) page_at_wf [OF assms(2) buf]] by blast
  have here: "fsm_get_avail b (BufferGetPage rel buf) t = avail_at b rel addr t" for t
    using buf by (simp add: avail_at_def Let_def BufferGetPage_def buf_def)
  have "same_bottom b rel (write_page rel buf page)"
    using avail_at_write [OF assms(1,3), of _ rel page] buf s(3) here
    by (auto simp: same_bottom_def buf_def addr_ok_def assms(1))
  with s here show ?thesis using write_page_wf [OF assms(2) s(2)] by auto
qed

definition round_result ::
  "nat \<Rightarrow> uint8 \<Rightarrow> FSMAddress \<Rightarrow> nat \<Rightarrow> fsm_rel \<Rightarrow> nat + FSMAddress \<times> nat \<Rightarrow> bool" where
  "round_result b m addr restarts rel' res \<longleftrightarrow>
     (case res of
        Inl blk \<Rightarrow> blk = InvalidBlockNumber \<or>
          (level addr = 0 \<and> has_page b rel' addr \<and>
             (\<exists>s. s < SlotsPerFSMPage b \<and> blk = fsm_get_heap_blk b addr s \<and> m \<le> avail_at b rel' addr s))
      | Inr (addr', restarts') \<Rightarrow> search_state b rel' addr' \<and>
          (Suc (level addr') = level addr \<and> restarts' = restarts \<or>
           level addr' = FSM_ROOT_LEVEL b \<and> restarts' = restarts + 1 \<and> restarts \<le> 10000))"

lemma search_round_failed:
  assumes "fsm_blcksz b" "rel_wf b rel" "addr_ok b addr" "level addr \<noteq> FSM_ROOT_LEVEL b"
    "has_page b rel (fst (fsm_get_parent b addr))"
  shows "\<exists>r rel'. fsm_set_and_search b rel (fst (fsm_get_parent b addr)) (snd (fsm_get_parent b addr)) v 0 True =
      Some (r, rel') \<and> rel_wf b rel' \<and> same_bottom b rel rel'"
proof -
  let ?parent = "fst (fsm_get_parent b addr)" and ?slot = "snd (fsm_get_parent b addr)"
  have ok: "addr_ok b ?parent" "?slot < SlotsPerFSMPage b" "level ?parent \<noteq> 0"
    using assms(1,3,4) by (simp_all add: fsm_get_parent_def addr_ok_def)
  from set_and_search_spec [OF assms(1,2) ok(1,2), of v 0 True] obtain r rel' where
    r: "fsm_set_and_search b rel ?parent ?slot v 0 True = Some (r, rel')" "rel_wf b rel'"
    "\<And>x s. addr_ok b x \<Longrightarrow> s < SlotsPerFSMPage b \<Longrightarrow>
       avail_at b rel' x s = (if x = ?parent \<and> s = ?slot then v else avail_at b rel x s)"
    "length (fork_pages rel') = max (length (fork_pages rel)) (fsm_logical_to_physical b ?parent + 1)"
    by blast
  have "length (fork_pages rel') = length (fork_pages rel)"
    using r(4) assms(5) by (simp add: has_page_def)
  moreover have "\<lparr>level = 0, logpageno = n\<rparr> \<noteq> ?parent" for n using ok(3) by (metis FSMAddress.select_convs(1))
  ultimately have "same_bottom b rel rel'"
    using r(3) assms(1) by (simp add: same_bottom_def addr_ok_def)
  with r(1,2) show ?thesis by blast
qed

lemma has_page_same: "same_bottom b rel rel' \<Longrightarrow> has_page b rel' addr = has_page b rel addr"
  by (simp add: same_bottom_def has_page_def)

lemma bottom_addr: "level addr = 0 \<Longrightarrow> addr = \<lparr>level = 0, logpageno = logpageno addr\<rparr>"
  by simp

lemma search_round_spec:
  assumes "fsm_blcksz b" "search_state b rel addr"
  shows "\<exists>res rel'. search_round b rel m addr restarts = Some (res, rel') \<and> rel_wf b rel' \<and>
    same_bottom b rel rel' \<and> round_result b m addr restarts rel' res"
proof -
  let ?buf = "fsm_logical_to_physical b addr"
  have wf: "rel_wf b rel" and ok: "addr_ok b addr" using assms(2) by (simp_all add: search_state_def)
  obtain buf rel1 where rb: "fsm_readbuf b rel addr False = (buf, rel1)" by fastforce
  note read = readbuf_no_extend [OF wf rb]
  have same1: "same_bottom b rel rel1" using avail_at_cong [OF read(1)] read(1) by (simp add: same_bottom_def)
  have "\<exists>slot mx rel2. (case buf of None \<Rightarrow> Some (-1, 0, rel1)
        | Some buf \<Rightarrow> (case fsm_search_avail b (\<lambda>p. p) 2 (BufferGetPage rel1 buf) m (level addr = 0) False of
            None \<Rightarrow> None
          | Some (slot, page) \<Rightarrow>
              Some (slot, if slot = -1 then fsm_get_max_avail page else 0, write_page rel1 buf page)))
      = Some (slot, mx, rel2) \<and> rel_wf b rel2 \<and> same_bottom b rel rel2 \<and>
      (slot = -1 \<or> has_page b rel2 addr \<and> (\<exists>s. slot = int s \<and> s < SlotsPerFSMPage b \<and> m \<le> avail_at b rel addr s))"
  proof (cases "has_page b rel addr")
    case True
    then have page: "has_page b rel1 addr" "buf = Some ?buf" using read(1,4) by (simp_all add: has_page_def)
    from search_in_page [OF assms(1) read(2) ok page(1), of m "level addr = 0" False]
    obtain slot pg where "fsm_search_avail b (\<lambda>p. p) 2 (BufferGetPage rel1 ?buf) m (level addr = 0) False = Some (slot, pg)"
      "rel_wf b (write_page rel1 ?buf pg)" "same_bottom b rel1 (write_page rel1 ?buf pg)"
      "slot = -1 \<or> (\<exists>s. slot = int s \<and> s < SlotsPerFSMPage b \<and> m \<le> avail_at b rel1 addr s)"
      by blast
    moreover have "avail_at b rel1 = avail_at b rel" using read(1) by (rule avail_at_cong)
    ultimately show ?thesis using page same_bottom_trans [OF same1] has_page_same by fastforce
  next
    case False
    then have "buf = None" using read(4) by (simp add: has_page_def)
    with read(2) same1 show ?thesis by auto
  qed
  then obtain slot mx rel2 where inp: "(case buf of None \<Rightarrow> Some (-1, 0, rel1)
        | Some buf \<Rightarrow> (case fsm_search_avail b (\<lambda>p. p) 2 (BufferGetPage rel1 buf) m (level addr = 0) False of
            None \<Rightarrow> None
          | Some (slot, page) \<Rightarrow>
              Some (slot, if slot = -1 then fsm_get_max_avail page else 0, write_page rel1 buf page)))
      = Some (slot, mx, rel2)" and wf2: "rel_wf b rel2" and same2: "same_bottom b rel rel2"
    and slot: "slot = -1 \<or> has_page b rel2 addr \<and> (\<exists>s. slot = int s \<and> s < SlotsPerFSMPage b \<and> m \<le> avail_at b rel addr s)"
    by blast
  have round: "search_round b rel m addr restarts =
    (if slot \<noteq> -1 then
       (if level addr = 0 then Some (Inl (fsm_get_heap_blk b addr (nat slot)), rel2)
        else Some (Inr (fsm_get_child b addr (nat slot), restarts), rel2))
     else if level addr = FSM_ROOT_LEVEL b then Some (Inl InvalidBlockNumber, rel2)
     else (case fsm_set_and_search b rel2 (fst (fsm_get_parent b addr)) (snd (fsm_get_parent b addr)) mx 0 True of
             None \<Rightarrow> None
           | Some (dummy, rel3) \<Rightarrow>
               if restarts > 10000 then Some (Inl InvalidBlockNumber, rel3)
               else Some (Inr (g_fsm_root_address b, restarts + 1), rel3)))"
    using inp by (auto simp: search_round_def rb Let_def split: option.splits prod.splits)
  consider (root) "slot = -1" "level addr = FSM_ROOT_LEVEL b" | (again) "slot = -1" "level addr \<noteq> FSM_ROOT_LEVEL b"
    | (found) s where "slot = int s" "s < SlotsPerFSMPage b" "m \<le> avail_at b rel addr s" "has_page b rel2 addr"
    using slot by blast
  then show ?thesis
  proof cases
    case root
    with wf2 same2 show ?thesis unfolding round by (simp add: round_result_def)
  next
    case again
    then have "has_page b rel2 (fst (fsm_get_parent b addr))"
      using assms(2) has_page_same [OF same2] by (simp add: search_state_def)
    from search_round_failed [OF assms(1) wf2 ok again(2) this] obtain r rel3 where
      "fsm_set_and_search b rel2 (fst (fsm_get_parent b addr)) (snd (fsm_get_parent b addr)) mx 0 True = Some (r, rel3)"
      "rel_wf b rel3" "same_bottom b rel2 rel3" by blast
    with again same_bottom_trans [OF same2] show ?thesis unfolding round
      by (auto simp: round_result_def search_state_def g_fsm_root_address_def addr_ok_def)
  next
    case found
    show ?thesis
    proof (cases "level addr = 0")
      case True
      then have "avail_at b rel2 addr s = avail_at b rel addr s"
        using same2 found(2) bottom_addr [OF True] by (metis same_bottom_def)
      with True found wf2 same2 show ?thesis unfolding round by (auto simp: round_result_def)
    next
      case False
      have "fst (fsm_get_parent b (fsm_get_child b addr s)) = addr"
        using parent_child [OF assms(1) _ found(2), of addr] False by simp
      with False found wf2 same2 ok show ?thesis unfolding round
        by (auto simp: round_result_def search_state_def fsm_get_child_def addr_ok_def)
    qed
  qed
qed

lemma fsm_search_loop_spec:
  assumes "fsm_blcksz b"
  shows "search_state b rel addr \<Longrightarrow> restarts \<le> 10001 \<Longrightarrow> (10001 - restarts) * 4 + level addr < fuel \<Longrightarrow>
    \<exists>blk rel'. fsm_search_loop b fuel rel m addr restarts = Some (blk, rel') \<and> rel_wf b rel' \<and> same_bottom b rel rel' \<and>
      (blk = InvalidBlockNumber \<or> (\<exists>n s. s < SlotsPerFSMPage b \<and> has_page b rel' \<lparr>level = 0, logpageno = n\<rparr> \<and>
         blk = (n * SlotsPerFSMPage b + s) mod 2 ^ 32 \<and> m \<le> avail_at b rel' \<lparr>level = 0, logpageno = n\<rparr> s))"
proof (induction fuel arbitrary: rel addr restarts)
  case (Suc fuel)
  obtain res rel' where res: "search_round b rel m addr restarts = Some (res, rel')" "rel_wf b rel'"
    "same_bottom b rel rel'" "round_result b m addr restarts rel' res"
    using search_round_spec [OF assms Suc.prems(1)] by blast
  show ?case
  proof (cases res)
    case (Inl blk)
    from res(4) Inl consider "blk = InvalidBlockNumber"
      | s where "level addr = 0" "has_page b rel' addr" "s < SlotsPerFSMPage b"
        "blk = fsm_get_heap_blk b addr s" "m \<le> avail_at b rel' addr s"
      by (auto simp: round_result_def)
    then show ?thesis
    proof cases
      case 2
      have eq: "\<lparr>level = 0, logpageno = logpageno addr\<rparr> = addr" using 2(1) by simp
      have "blk = (logpageno addr * SlotsPerFSMPage b + s) mod 2 ^ 32" using 2(4) by (simp add: fsm_get_heap_blk_def)
      with 2(2,3,5) eq have "\<exists>n s. s < SlotsPerFSMPage b \<and> has_page b rel' \<lparr>level = 0, logpageno = n\<rparr> \<and>
         blk = (n * SlotsPerFSMPage b + s) mod 2 ^ 32 \<and> m \<le> avail_at b rel' \<lparr>level = 0, logpageno = n\<rparr> s"
        by (intro exI [of _ "logpageno addr"] exI [of _ s]) simp
      with Inl res show ?thesis by simp
    qed (use Inl res in simp)
  next
    case (Inr x)
    obtain addr' restarts' where x: "x = (addr', restarts')" by fastforce
    have st: "search_state b rel' addr'" "(10001 - restarts') * 4 + level addr' < fuel" "restarts' \<le> 10001"
      using res(4) Inr x Suc.prems(2,3) assms by (auto simp: round_result_def)
    from Suc.IH [OF st(1,3,2)] obtain blk rel'' where
      "fsm_search_loop b fuel rel' m addr' restarts' = Some (blk, rel'')" "rel_wf b rel''" "same_bottom b rel' rel''"
      "blk = InvalidBlockNumber \<or> (\<exists>n s. s < SlotsPerFSMPage b \<and> has_page b rel'' \<lparr>level = 0, logpageno = n\<rparr> \<and>
         blk = (n * SlotsPerFSMPage b + s) mod 2 ^ 32 \<and> m \<le> avail_at b rel'' \<lparr>level = 0, logpageno = n\<rparr> s)" by blast
    with res Inr x same_bottom_trans [OF res(3)] show ?thesis by auto
  qed
qed simp

section \<open>The public functions\<close>

lemma recorded_eq: "recorded b rel blk = avail_at b rel (fst (fsm_get_location b blk)) (snd (fsm_get_location b blk))"
  by (simp add: recorded_def split: prod.splits)

lemma recorded_same_bottom: "fsm_blcksz b \<Longrightarrow> same_bottom b rel rel' \<Longrightarrow> recorded b rel' = recorded b rel"
  by (auto simp: recorded_eq same_bottom_def fsm_get_location_def)

lemma GetRecordedFreeSpace_eq:
  assumes "rel_wf b rel"
  shows "fst (GetRecordedFreeSpace b rel blk) = fsm_space_cat_to_avail b (recorded b rel blk)"
proof -
  obtain addr slot where loc: "fsm_get_location b blk = (addr, slot)" by fastforce
  obtain buf rel1 where rb: "fsm_readbuf b rel addr False = (buf, rel1)" by fastforce
  note read = readbuf_no_extend [OF assms rb]
  have zero: "fsm_space_cat_to_avail b 0 = 0" by (simp add: fsm_space_cat_to_avail_def)
  show ?thesis
    using read(1,4) zero
    by (cases buf) (auto simp: GetRecordedFreeSpace_def recorded_eq loc rb avail_at_def Let_def
        BufferGetPage_def split: if_splits)
qed

text \<open>
  The fork of a heap below the last map page: every block its slots stand for is a block number.
\<close>

definition fork_small :: "nat \<Rightarrow> fsm_rel \<Rightarrow> bool" where
  "fork_small b rel \<longleftrightarrow> length (fork_pages rel) \<le>
     fsm_logical_to_physical b \<lparr>level = 0, logpageno = (2 ^ 32 - 1) div SlotsPerFSMPage b\<rparr>"

text \<open>The blocks of such a heap.\<close>

definition block_small :: "nat \<Rightarrow> nat \<Rightarrow> bool" where
  "block_small b blk \<longleftrightarrow> blk div SlotsPerFSMPage b < (2 ^ 32 - 1) div SlotsPerFSMPage b"

lemma fork_small_grow:
  assumes "fsm_blcksz b" "fork_small b rel" "block_small b blk"
    "length (fork_pages rel') =
       max (length (fork_pages rel)) (fsm_logical_to_physical b (fst (fsm_get_location b blk)) + 1)"
  shows "fork_small b rel'"
proof -
  let ?N = "\<lparr>level = 0, logpageno = (2 ^ 32 - 1) div SlotsPerFSMPage b\<rparr>"
  have "addr_ok b ?N" by (simp add: addr_ok_def)
  from physical_less [OF assms(1) location_ok [OF assms(1)] this, of blk] assms(3)
  have "fsm_logical_to_physical b (fst (fsm_get_location b blk)) < fsm_logical_to_physical b ?N"
    by (simp add: block_small_def fsm_get_location_def)
  with assms(2,4) show ?thesis by (simp add: fork_small_def)
qed

lemma recorded_update:
  assumes "fsm_blcksz b" "fsm_get_location b blk = (addr, slot)"
    and "\<And>x s. addr_ok b x \<Longrightarrow> s < SlotsPerFSMPage b \<Longrightarrow>
      avail_at b rel' x s = (if x = addr \<and> s = slot then v else avail_at b rel x s)"
  shows "recorded b rel' = (recorded b rel)(blk := v)"
proof
  fix x
  note at = assms(3) [OF location_ok [OF assms(1), of x] location_slot [OF assms(1), of x]]
  show "recorded b rel' x = ((recorded b rel)(blk := v)) x"
  proof (cases "x = blk")
    case True
    then show ?thesis using at assms(2) by (simp add: recorded_eq)
  next
    case False
    then have "\<not> (fst (fsm_get_location b x) = addr \<and> snd (fsm_get_location b x) = slot)"
      using location_inj [OF assms(1), of x blk] assms(2) by (metis prod.collapse)
    with False at show ?thesis by (auto simp: recorded_eq)
  qed
qed

lemma RecordPage_spec:
  assumes "fsm_blcksz b" "rel_wf b rel"
  shows "\<exists>rel'. RecordPageWithFreeSpace b rel blk avail = Some rel' \<and> rel_wf b rel' \<and>
    recorded b rel' = (recorded b rel)(blk := fsm_space_avail_to_cat b avail) \<and>
    (fork_small b rel \<longrightarrow> block_small b blk \<longrightarrow> fork_small b rel')"
proof -
  obtain addr slot where loc: "fsm_get_location b blk = (addr, slot)" by fastforce
  have ok: "addr_ok b addr" "slot < SlotsPerFSMPage b"
    using location_ok [OF assms(1), of blk] location_slot [OF assms(1), of blk] loc by simp_all
  from set_and_search_spec [OF assms ok, of "fsm_space_avail_to_cat b avail" 0 True] obtain r rel' where
    r: "fsm_set_and_search b rel addr slot (fsm_space_avail_to_cat b avail) 0 True = Some (r, rel')" "rel_wf b rel'"
    "\<And>x s. addr_ok b x \<Longrightarrow> s < SlotsPerFSMPage b \<Longrightarrow> avail_at b rel' x s =
       (if x = addr \<and> s = slot then fsm_space_avail_to_cat b avail else avail_at b rel x s)"
    "length (fork_pages rel') = max (length (fork_pages rel)) (fsm_logical_to_physical b addr + 1)"
    by blast
  have "fork_small b rel \<longrightarrow> block_small b blk \<longrightarrow> fork_small b rel'"
    using fork_small_grow [OF assms(1), of rel blk rel'] r(4) loc by simp
  moreover have "recorded b rel' = (recorded b rel)(blk := fsm_space_avail_to_cat b avail)"
    by (rule recorded_update [OF assms(1) loc r(3)])
  ultimately show ?thesis using r loc by (auto simp: RecordPageWithFreeSpace_def fun_eq_iff)
qed

lemma fork_small_block:
  assumes "fsm_blcksz b" "fork_small b rel" "has_page b rel \<lparr>level = 0, logpageno = n\<rparr>" "s < SlotsPerFSMPage b"
  shows "n * SlotsPerFSMPage b + s < 2 ^ 32 - 1"
proof -
  let ?S = "SlotsPerFSMPage b" let ?N = "(2 ^ 32 - 1) div ?S"
  have "n < ?N"
  proof (rule ccontr)
    assume "\<not> n < ?N"
    then have "fsm_logical_to_physical b \<lparr>level = 0, logpageno = ?N\<rparr> \<le>
        fsm_logical_to_physical b \<lparr>level = 0, logpageno = n\<rparr>"
      using pages_upto_mono [of ?S ?N n] slots_pos [OF assms(1)] by (simp add: physical_eq assms(1) addr_ok_def)
    with assms(2,3) show False by (simp add: fork_small_def has_page_def)
  qed
  then have "Suc n * ?S \<le> ?N * ?S" by (intro mult_le_mono1) simp
  also have "\<dots> \<le> 2 ^ 32 - 1" by simp
  finally have "n * ?S + ?S \<le> 2 ^ 32 - 1" by (simp add: add.commute)
  with assms(4) show ?thesis by linarith
qed

lemma recorded_of_slot:
  "fsm_blcksz b \<Longrightarrow> s < SlotsPerFSMPage b \<Longrightarrow>
   recorded b rel (n * SlotsPerFSMPage b + s) = avail_at b rel \<lparr>level = 0, logpageno = n\<rparr> s"
  by (simp add: recorded_eq fsm_get_location_def)

lemma root_state: "fsm_blcksz b \<Longrightarrow> rel_wf b rel \<Longrightarrow> search_state b rel (g_fsm_root_address b)"
  by (simp add: search_state_def g_fsm_root_address_def addr_ok_def)

lemma fsm_search_spec:
  assumes "fsm_blcksz b" "rel_wf b rel" "fork_small b rel"
  shows "\<exists>blk rel'. fsm_search b rel m = Some (blk, rel') \<and> rel_wf b rel' \<and> fork_small b rel' \<and>
    recorded b rel' = recorded b rel \<and> (blk = InvalidBlockNumber \<or> blk < InvalidBlockNumber \<and> m \<le> recorded b rel blk)"
proof -
  have "(10001 - 0) * 4 + level (g_fsm_root_address b) < 50000"
    using assms(1) by (simp add: g_fsm_root_address_def)
  from fsm_search_loop_spec [OF assms(1) root_state [OF assms(1,2)] _ this, of m] obtain blk rel' where
    r: "fsm_search b rel m = Some (blk, rel')" "rel_wf b rel'" "same_bottom b rel rel'"
    "blk = InvalidBlockNumber \<or> (\<exists>n s. s < SlotsPerFSMPage b \<and> has_page b rel' \<lparr>level = 0, logpageno = n\<rparr> \<and>
       blk = (n * SlotsPerFSMPage b + s) mod 2 ^ 32 \<and> m \<le> avail_at b rel' \<lparr>level = 0, logpageno = n\<rparr> s)"
    by (auto simp: fsm_search_def)
  have small: "fork_small b rel'" using r(3) assms(3) by (simp add: fork_small_def same_bottom_def)
  have same: "recorded b rel' = recorded b rel" using recorded_same_bottom [OF assms(1) r(3)] .
  have "blk < InvalidBlockNumber \<and> m \<le> recorded b rel blk" if "blk \<noteq> InvalidBlockNumber"
  proof -
    from r(4) that obtain n s where ns: "s < SlotsPerFSMPage b" "has_page b rel' \<lparr>level = 0, logpageno = n\<rparr>"
      "blk = (n * SlotsPerFSMPage b + s) mod 2 ^ 32" "m \<le> avail_at b rel' \<lparr>level = 0, logpageno = n\<rparr> s" by blast
    from fork_small_block [OF assms(1) small ns(2,1)] ns(3)
    have "blk = n * SlotsPerFSMPage b + s" "blk < InvalidBlockNumber" by (simp_all add: InvalidBlockNumber_def)
    with ns(1,4) show ?thesis using recorded_of_slot [OF assms(1) ns(1), of rel' n] same by simp
  qed
  with r small same show ?thesis by blast
qed

text \<open>Updating the levels above a bottom page.\<close>

lemma update_recursive_step:
  assumes "fsm_blcksz b" "rel_wf b rel" "level addr < 2"
  defines "parent \<equiv> fst (fsm_get_parent b addr)" and "slot \<equiv> snd (fsm_get_parent b addr)"
  shows "\<exists>rel1. fsm_update_recursive b rel addr c srch = fsm_update_recursive b rel1 parent c srch \<and> rel_wf b rel1 \<and>
    (\<forall>x s. addr_ok b x \<longrightarrow> s < SlotsPerFSMPage b \<longrightarrow>
       avail_at b rel1 x s = (if x = parent \<and> s = slot then c else avail_at b rel x s))"
proof -
  have ok: "addr_ok b parent" "slot < SlotsPerFSMPage b"
    using assms(1,3) by (simp_all add: parent_def slot_def fsm_get_parent_def addr_ok_def)
  have gp: "fsm_get_parent b addr = (parent, slot)" by (simp add: parent_def slot_def)
  from set_and_search_spec [OF assms(1,2) ok, of c 0 srch] obtain r rel1 where
    r: "fsm_set_and_search b rel parent slot c 0 srch = Some (r, rel1)" "rel_wf b rel1"
    "\<forall>x s. addr_ok b x \<longrightarrow> s < SlotsPerFSMPage b \<longrightarrow>
       avail_at b rel1 x s = (if x = parent \<and> s = slot then c else avail_at b rel x s)" by blast
  have "fsm_update_recursive b rel addr c srch = fsm_update_recursive b rel1 parent c srch"
    using r(1) assms(1,3) gp by (subst fsm_update_recursive.simps) simp
  with r(2,3) show ?thesis by blast
qed

declare fsm_update_recursive.simps [simp del]

lemma update_recursive_root: "fsm_blcksz b \<Longrightarrow> 2 \<le> level addr \<Longrightarrow> fsm_update_recursive b rel addr c srch = Some rel"
  by (subst fsm_update_recursive.simps) simp

lemma update_recursive_spec:
  assumes "fsm_blcksz b" "rel_wf b rel"
  defines "S \<equiv> SlotsPerFSMPage b"
  shows "\<exists>rel'. fsm_update_recursive b rel \<lparr>level = 0, logpageno = n\<rparr> c srch = Some rel' \<and> rel_wf b rel' \<and>
    (\<forall>x s. addr_ok b x \<longrightarrow> s < S \<longrightarrow> avail_at b rel' x s =
       (if x = \<lparr>level = 1, logpageno = n div S\<rparr> \<and> s = n mod S \<or>
           x = \<lparr>level = 2, logpageno = n div S div S\<rparr> \<and> s = n div S mod S then c else avail_at b rel x s))"
proof -
  have up0: "fsm_get_parent b \<lparr>level = 0, logpageno = n\<rparr> = (\<lparr>level = 1, logpageno = n div S\<rparr>, n mod S)"
    and up1: "fsm_get_parent b \<lparr>level = 1, logpageno = n div S\<rparr> =
      (\<lparr>level = 2, logpageno = n div S div S\<rparr>, n div S mod S)"
    by (simp_all add: fsm_get_parent_def S_def)
  from update_recursive_step [OF assms(1,2), of "\<lparr>level = 0, logpageno = n\<rparr>" c srch] up0 obtain rel1 where
    r1: "fsm_update_recursive b rel \<lparr>level = 0, logpageno = n\<rparr> c srch =
      fsm_update_recursive b rel1 \<lparr>level = 1, logpageno = n div S\<rparr> c srch" "rel_wf b rel1"
    "\<forall>x s. addr_ok b x \<longrightarrow> s < S \<longrightarrow> avail_at b rel1 x s =
      (if x = \<lparr>level = 1, logpageno = n div S\<rparr> \<and> s = n mod S then c else avail_at b rel x s)"
    by (auto simp: S_def)
  from update_recursive_step [OF assms(1) r1(2), of "\<lparr>level = 1, logpageno = n div S\<rparr>" c srch] up1 obtain rel2 where
    r2: "fsm_update_recursive b rel1 \<lparr>level = 1, logpageno = n div S\<rparr> c srch =
      fsm_update_recursive b rel2 \<lparr>level = 2, logpageno = n div S div S\<rparr> c srch" "rel_wf b rel2"
    "\<forall>x s. addr_ok b x \<longrightarrow> s < S \<longrightarrow> avail_at b rel2 x s =
      (if x = \<lparr>level = 2, logpageno = n div S div S\<rparr> \<and> s = n div S mod S then c else avail_at b rel1 x s)"
    by (auto simp: S_def)
  have "fsm_update_recursive b rel2 \<lparr>level = 2, logpageno = n div S div S\<rparr> c srch = Some rel2"
    using assms(1) by (simp add: update_recursive_root)
  with r1 r2 show ?thesis by auto
qed

section \<open>Consistent pages\<close>

definition rel_ok :: "nat \<Rightarrow> fsm_rel \<Rightarrow> bool" where
  "rel_ok b rel \<longleftrightarrow> (\<forall>p \<in> set (fork_pages rel). fsm_ok b p)"

lemma write_page_ok: "rel_ok b rel \<Longrightarrow> fsm_ok b p \<Longrightarrow> rel_ok b (write_page rel buf p)"
  using set_update_subset_insert [of "fork_pages rel" buf p] by (auto simp: rel_ok_def)

lemma readbuf_extend_ok:
  assumes "fsm_blcksz b" "rel_wf b rel" "rel_ok b rel" "fsm_readbuf b rel addr True = (buf, rel1)"
  shows "rel_ok b rel1"
  using readbuf_extend(3) [OF assms(2,4)] assms(3) zero_page_ok [OF fsm_blcksz_valid [OF assms(1)]]
  by (auto simp: rel_ok_def)

lemma set_and_search_keeps_ok:
  assumes "fsm_blcksz b" "rel_wf b rel" "rel_ok b rel" "slot < SlotsPerFSMPage b"
    and "fsm_set_and_search b rel addr slot v m srch = Some (r, rel')"
  shows "rel_ok b rel'"
proof -
  let ?p = "fsm_logical_to_physical b addr"
  note valid = fsm_blcksz_valid [OF assms(1)]
  obtain buf rel1 where rb: "fsm_readbuf b rel addr True = (buf, rel1)" by fastforce
  note read = readbuf_extend [OF assms(2) rb]
  have ok1: "rel_ok b rel1" by (rule readbuf_extend_ok [OF assms(1-3) rb])
  have "?p < length (fork_pages rel1)" using read(3) by auto
  then have "fsm_ok b (BufferGetPage rel1 ?p)" using ok1 by (simp add: rel_ok_def BufferGetPage_def)
  moreover define page where "page = snd (fsm_set_avail b (BufferGetPage rel1 ?p) slot v)"
  ultimately have ok: "fsm_ok b page"
    using fsm_set_avail_spec(5) [OF valid fsm_ok_wf assms(4)] by (metis prod.collapse)
  have "fsm_ok b page1" if "fsm_search_avail b (\<lambda>p. p) 2 page m (level addr = 0) True = Some (r, page1)" for page1
    using fsm.search_ok [of b page "\<lambda>p. p" m _ _ r page1] that ok valid by blast
  with assms(5) rb read(1) show ?thesis
    using write_page_ok [OF ok1 ok] write_page_ok [OF write_page_ok [OF ok1 ok]]
    by (auto simp: fsm_set_and_search_def Let_def page_def split: option.splits if_splits)
qed

text \<open>Where every page of the fork is consistent, the combined set and search finds a slot whenever the page has one.\<close>

lemma set_and_search_complete:
  assumes "fsm_blcksz b" "rel_wf b rel" "rel_ok b rel" "addr_ok b addr" "slot < SlotsPerFSMPage b" "m \<noteq> 0"
    and "fsm_set_and_search b rel addr slot v m True = Some (r, rel')" "t < SlotsPerFSMPage b"
    and "m \<le> avail_at b rel' addr t"
  shows "r \<noteq> -1"
proof
  assume r: "r = -1"
  let ?p = "fsm_logical_to_physical b addr"
  note valid = fsm_blcksz_valid [OF assms(1)]
  obtain buf rel1 where rb: "fsm_readbuf b rel addr True = (buf, rel1)" by fastforce
  note read = readbuf_extend [OF assms(2) rb]
  have len: "?p < length (fork_pages rel1)" using read(3) by auto
  have "fsm_ok b (BufferGetPage rel1 ?p)"
    using readbuf_extend_ok [OF assms(1-3) rb] len by (simp add: rel_ok_def BufferGetPage_def)
  moreover define page where "page = snd (fsm_set_avail b (BufferGetPage rel1 ?p) slot v)"
  ultimately have ok: "fsm_ok b page"
    using fsm_set_avail_spec(5) [OF valid fsm_ok_wf assms(5)] by (metis prod.collapse)
  obtain page1 where s: "fsm_search_avail b (\<lambda>p. p) 2 page m (level addr = 0) True = Some (r, page1)"
    and rel': "rel' = write_page (write_page rel1 ?p page) ?p page1"
    using assms(6,7) rb read(1) by (auto simp: fsm_set_and_search_def Let_def page_def split: option.splits)
  from fsm.search_ok [of b page "\<lambda>p. p" m _ _ r page1] s ok valid r
  have "fsm_get_max_avail page < m" "\<And>u. fsm_get_avail b page1 u = fsm_get_avail b page u" by auto
  then have "fsm_get_avail b page1 t < m" using root_less_iff [OF valid ok, of m] assms(8) by auto
  moreover have "avail_at b rel' addr t = fsm_get_avail b page1 t"
    using avail_at_write [OF assms(1,4,4), of "write_page rel1 ?p page" page1 t] len rel' by simp
  ultimately show False using assms(9) by simp
qed

section \<open>Truncating the relation\<close>

lemma div_mod_less_iff: "(x :: nat) < y \<longleftrightarrow> x div s < y div s \<or> x div s = y div s \<and> x mod s < y mod s"
  by (metis add_less_cancel_left div_le_mono div_mult_mod_eq less_le not_le)

lemma bottom_physical_less:
  assumes "fsm_blcksz b"
  shows "fsm_logical_to_physical b \<lparr>level = 0, logpageno = m\<rparr> < fsm_logical_to_physical b \<lparr>level = 0, logpageno = n\<rparr> \<longleftrightarrow> m < n"
proof -
  have ok: "addr_ok b \<lparr>level = 0, logpageno = k\<rparr>" for k by (simp add: addr_ok_def)
  have "fsm_logical_to_physical b \<lparr>level = 0, logpageno = x\<rparr> < fsm_logical_to_physical b \<lparr>level = 0, logpageno = y\<rparr>"
    if "x < y" for x y using physical_less [OF assms ok ok] that by simp
  then show ?thesis by (metis less_asym linorder_neqE_nat less_irrefl)
qed

lemma avail_at_take:
  "fork_pages rel' = take k (fork_pages rel) \<Longrightarrow>
   avail_at b rel' addr s = (if fsm_logical_to_physical b addr < k then avail_at b rel addr s else 0)"
  by (auto simp: avail_at_def Let_def)

lemma truncate_spec:
  assumes "fsm_blcksz b" "rel_wf b rel"
  shows "rel_wf b (FreeSpaceMapTruncateRel b rel nblocks) \<and>
    recorded b (FreeSpaceMapTruncateRel b rel nblocks) blk = (if blk < nblocks then recorded b rel blk else 0)"
proof -
  let ?S = "SlotsPerFSMPage b"
  let ?n = "nblocks div ?S" and ?s = "nblocks mod ?S" and ?m = "blk div ?S" and ?t = "blk mod ?S"
  let ?N = "\<lparr>level = 0, logpageno = ?n\<rparr>" and ?M = "\<lparr>level = 0, logpageno = ?m\<rparr>"
  let ?p = "fsm_logical_to_physical b ?N"
  have loc: "fsm_get_location b nblocks = (?N, ?s)" by (simp add: fsm_get_location_def)
  have rec: "recorded b r blk = avail_at b r ?M ?t" for r by (simp add: recorded_eq fsm_get_location_def)
  have t: "?t < ?S" "?s < ?S" using assms(1) by simp_all
  have ok: "addr_ok b ?N" "addr_ok b ?M" by (simp_all add: addr_ok_def)
  have less: "blk < nblocks \<longleftrightarrow> ?m < ?n \<or> ?m = ?n \<and> ?t < ?s" by (rule div_mod_less_iff)
  have order: "fsm_logical_to_physical b ?M < ?p \<longleftrightarrow> ?m < ?n" by (rule bottom_physical_less [OF assms(1)])
  have eqp: "fsm_logical_to_physical b ?M = ?p \<longleftrightarrow> ?m = ?n" using physical_inj [OF assms(1) ok(2,1)] by auto
  show ?thesis
  proof (cases "fsm_fork rel")
    case None
    then have "avail_at b rel ?M ?t = 0" by (simp add: avail_at_def fork_pages_def)
    with None assms(2) show ?thesis by (simp add: FreeSpaceMapTruncateRel_def rec)
  next
    case (Some pages)
    obtain buf rel1 where rb: "fsm_readbuf b rel ?N False = (buf, rel1)" by fastforce
    note read = readbuf_no_extend [OF assms(2) rb]
    have av1: "avail_at b rel1 = avail_at b rel" using read(1) by (rule avail_at_cong)
    consider (zero) "?s = 0" | (gone) "0 < ?s" "\<not> has_page b rel ?N" | (cut) "0 < ?s" "has_page b rel ?N" by auto
    then show ?thesis
    proof cases
      case zero
      define k where "k = ?p"
      show ?thesis
      proof (cases "length (fork_pages rel) \<le> k")
        case True
        then have "avail_at b rel ?M ?t = 0" if "\<not> ?m < ?n"
          using that order by (simp add: avail_at_def k_def Let_def)
        with True zero Some loc assms(2) show ?thesis
          by (auto simp: FreeSpaceMapTruncateRel_def rec less k_def Let_def)
      next
        case False
        let ?r = "rel\<lparr>fsm_fork := Some (take k (fork_pages rel)), smgr_fsm_nblocks := Some k\<rparr>"
        have "FreeSpaceMapTruncateRel b rel nblocks = ?r"
          using False zero Some loc by (simp add: FreeSpaceMapTruncateRel_def Let_def k_def)
        moreover have "rel_wf b ?r" using assms(2) False by (auto simp: rel_wf_def dest: in_set_takeD)
        moreover have "avail_at b ?r ?M ?t = (if ?m < ?n then avail_at b rel ?M ?t else 0)"
          using order by (subst avail_at_take [where k = k and rel = rel]) (simp_all add: k_def)
        ultimately show ?thesis using zero by (simp add: rec less)
      qed
    next
      case gone
      then have "buf = None" using read(4) by (simp add: has_page_def)
      then have res: "FreeSpaceMapTruncateRel b rel nblocks = rel1"
        using gone(1) Some loc rb by (simp add: FreeSpaceMapTruncateRel_def)
      have "avail_at b rel ?M ?t = 0" if "\<not> ?m < ?n"
        using that order gone(2) by (simp add: avail_at_def has_page_def Let_def)
      with res read(2) av1 show ?thesis by (auto simp: rec less)
    next
      case cut
      then have buf: "buf = Some ?p" "?p < length (fork_pages rel1)" using read(1,4) by (simp_all add: has_page_def)
      define page where "page = snd (fsm_truncate_avail b (BufferGetPage rel1 ?p) ?s)"
      obtain ch where tr: "fsm_truncate_avail b (BufferGetPage rel1 ?p) ?s = (ch, page)" by (metis page_def prod.collapse)
      note trunc = fsm_truncate_avail_spec [OF fsm_blcksz_valid [OF assms(1)] page_at_wf [OF read(2) buf(2)] t(2) tr]
      let ?r2 = "write_page rel1 ?p page"
      let ?r = "?r2\<lparr>fsm_fork := Some (take (?p + 1) (fork_pages ?r2)), smgr_fsm_nblocks := Some (?p + 1)\<rparr>"
      have res: "FreeSpaceMapTruncateRel b rel nblocks = ?r"
        using cut Some loc rb buf(1) by (simp add: FreeSpaceMapTruncateRel_def Let_def page_def)
      have "rel_wf b ?r2" by (rule write_page_wf [OF read(2) trunc(1)])
      then have "rel_wf b ?r" using buf(2) by (auto simp: rel_wf_def dest: in_set_takeD)
      moreover have "avail_at b ?r ?M ?t = (if ?m \<le> ?n then avail_at b ?r2 ?M ?t else 0)"
        using order eqp by (subst avail_at_take [where k = "?p + 1" and rel = ?r2]) (auto simp: less_Suc_eq)
      moreover have "avail_at b ?r2 ?M ?t =
          (if ?m = ?n then (if ?t < ?s then avail_at b rel ?M ?t else 0) else avail_at b rel ?M ?t)"
        using avail_at_write [OF assms(1) ok buf(2), of page ?t] trunc(3) [OF t(1)] buf(2) read(1) av1
        by (auto simp: avail_at_def BufferGetPage_def Let_def)
      ultimately show ?thesis using res by (auto simp: rec less)
    qed
  qed
qed

end
