(* ===== verification/Free_Space_Properties.thy ===== *)
theory Free_Space_Properties
  imports Free_Space
begin

text \<open>
  The interface of the free space map as the heap access method uses it, the locale
  \<open>free_space_map\<close>, its interpretation on the model, and the properties of the map.
\<close>

section \<open>The interface\<close>

text \<open>
  \<open>record_space\<close> notes the free space of a block and \<open>find_space\<close> asks for a block with enough
  of it; the category recorded for a block is \<open>cat_of\<close>. \<open>usable\<close> says which blocks the relation may have.
\<close>

locale free_space_map =
  fixes good :: "'r \<Rightarrow> bool"
    and usable :: "nat \<Rightarrow> bool"
    and cat_of :: "'r \<Rightarrow> nat \<Rightarrow> 'c :: linorder"
    and to_cat :: "nat \<Rightarrow> 'c"
    and enough :: "nat \<Rightarrow> 'c \<Rightarrow> bool"
    and record_space :: "'r \<Rightarrow> nat \<Rightarrow> nat \<Rightarrow> 'r option"
    and find_space :: "'r \<Rightarrow> nat \<Rightarrow> ('e + nat \<times> 'r) option"
    and record_find :: "'r \<Rightarrow> nat \<Rightarrow> nat \<Rightarrow> nat \<Rightarrow> ('e + nat \<times> 'r) option"
    and none_found :: nat
  assumes record_law: "good r \<Longrightarrow> usable blk \<Longrightarrow> \<exists>r'. record_space r blk avail = Some r' \<and> good r' \<and>
      cat_of r' = (cat_of r)(blk := to_cat avail)"
    and find_law: "good r \<Longrightarrow> find_space r needed = Some (Inr (blk, r')) \<Longrightarrow>
      good r' \<and> cat_of r' = cat_of r \<and> (blk = none_found \<or> enough needed (cat_of r blk))"
    and record_find_law: "good r \<Longrightarrow> usable old \<Longrightarrow> record_find r old avail needed = Some (Inr (blk, r')) \<Longrightarrow>
      good r' \<and> cat_of r' = (cat_of r)(old := to_cat avail) \<and> (blk = none_found \<or> enough needed (cat_of r' blk))"
    and find_returns: "good r \<Longrightarrow> \<exists>x. find_space r needed = Some x"
    and cat_law: "enough needed (to_cat avail) \<Longrightarrow> needed \<le> avail"
begin

text \<open>A history of recordings, oldest first.\<close>

fun record_all :: "(nat \<times> nat) list \<Rightarrow> 'r \<Rightarrow> 'r option" where
  "record_all [] r = Some r"
| "record_all ((blk, avail) # ops) r =
     (case record_space r blk avail of None \<Rightarrow> None | Some r' \<Rightarrow> record_all ops r')"

lemma record_all_law:
  "good r \<Longrightarrow> (\<forall>(blk, avail) \<in> set ops. usable blk) \<Longrightarrow>
   \<exists>r'. record_all ops r = Some r' \<and> good r' \<and>
     (\<forall>blk. cat_of r' blk = (case map_of (rev ops) blk of None \<Rightarrow> cat_of r blk | Some avail \<Rightarrow> to_cat avail))"
proof (induction ops arbitrary: r)
  case (Cons op ops)
  obtain blk avail where op: "op = (blk, avail)" by fastforce
  with Cons.prems record_law [of r blk avail] obtain r1 where
    r1: "record_space r blk avail = Some r1" "good r1" "cat_of r1 = (cat_of r)(blk := to_cat avail)" by auto
  from Cons.IH [OF r1(2)] Cons.prems(2) obtain r' where
    r': "record_all ops r1 = Some r'" "good r'"
    "\<forall>x. cat_of r' x = (case map_of (rev ops) x of None \<Rightarrow> cat_of r1 x | Some avail \<Rightarrow> to_cat avail)" by auto
  with op r1 show ?case by (auto simp: map_add_def split: option.splits)
qed simp

text \<open>
  A block that is found was last recorded with enough space, if before the history nothing was
  recorded that a request could be satisfied with.
\<close>

lemma found_was_recorded:
  assumes "good r" "\<forall>(blk, avail) \<in> set ops. usable blk" "usable old" "\<forall>blk. \<not> enough needed (cat_of r blk)"
    and "record_all ops r = Some r'" "record_find r' old avail needed = Some (Inr (blk, r''))" "blk \<noteq> none_found"
  shows "\<exists>avail'. map_of (rev (ops @ [(old, avail)])) blk = Some avail' \<and> needed \<le> avail'"
proof -
  from record_all_law [OF assms(1,2)] assms(5) have r': "good r'"
    "cat_of r' blk = (case map_of (rev ops) blk of None \<Rightarrow> cat_of r blk | Some avail \<Rightarrow> to_cat avail)" by auto
  with record_find_law [OF r'(1) assms(3,6)] assms(7)
  have "enough needed (((cat_of r')(old := to_cat avail)) blk)" by auto
  with r'(2) assms(4) cat_law show ?thesis by (auto split: option.splits if_splits)
qed

end

definition enough_cat :: "nat \<Rightarrow> nat \<Rightarrow> uint8 \<Rightarrow> bool" where
  "enough_cat b needed c \<longleftrightarrow> (case fsm_space_needed_to_cat b needed of Inl e \<Rightarrow> False | Inr n \<Rightarrow> n \<le> c)"

lemma enough_cat_sound:
  assumes "fsm_blcksz b" "enough_cat b needed (fsm_space_avail_to_cat b avail)"
  shows "needed \<le> avail"
proof -
  obtain n where n: "fsm_space_needed_to_cat b needed = Inr n" "n \<le> fsm_space_avail_to_cat b avail"
    using assms(2) by (auto simp: enough_cat_def split: sum.splits)
  have "needed \<le> fsm_space_cat_to_avail b n" by (rule needed_le_cat [OF assms(1) n(1)])
  also have "\<dots> \<le> fsm_space_cat_to_avail b (fsm_space_avail_to_cat b avail)"
    by (rule cat_to_avail_mono [OF assms(1) n(2)])
  also have "\<dots> \<le> avail" by (rule avail_to_cat_lower [OF assms(1)])
  finally show ?thesis .
qed

lemma fsm_blcksz_default [simp]: "fsm_blcksz 8192"
  by (simp add: fsm_blcksz_def)

lemma GetPage_spec:
  assumes "fsm_blcksz b" "rel_wf b rel" "fork_small b rel"
  shows "\<exists>x. GetPageWithFreeSpace b rel needed = Some x"
    and "GetPageWithFreeSpace b rel needed = Some (Inr (blk, rel')) \<Longrightarrow> rel_wf b rel' \<and> fork_small b rel' \<and>
      recorded b rel' = recorded b rel \<and> (blk = InvalidBlockNumber \<or> enough_cat b needed (recorded b rel blk))"
proof -
  show "\<exists>x. GetPageWithFreeSpace b rel needed = Some x"
    using fsm_search_spec [OF assms] by (fastforce simp: GetPageWithFreeSpace_def split: sum.splits)
  assume get: "GetPageWithFreeSpace b rel needed = Some (Inr (blk, rel'))"
  then obtain c where c: "fsm_space_needed_to_cat b needed = Inr c" "fsm_search b rel c = Some (blk, rel')"
    by (auto simp: GetPageWithFreeSpace_def split: sum.splits)
  then show "rel_wf b rel' \<and> fork_small b rel' \<and> recorded b rel' = recorded b rel \<and>
      (blk = InvalidBlockNumber \<or> enough_cat b needed (recorded b rel blk))"
    using fsm_search_spec [OF assms, of c] by (auto simp: enough_cat_def)
qed

lemma RecordAndGet_spec:
  assumes "fsm_blcksz b" "rel_wf b rel" "fork_small b rel" "block_small b old"
  shows "\<exists>x. RecordAndGetPageWithFreeSpace b rel old avail needed = Some x"
    and "RecordAndGetPageWithFreeSpace b rel old avail needed = Some (Inr (blk, rel')) \<Longrightarrow>
      rel_wf b rel' \<and> fork_small b rel' \<and>
      recorded b rel' = (recorded b rel)(old := fsm_space_avail_to_cat b avail) \<and>
      (blk = InvalidBlockNumber \<or> enough_cat b needed (recorded b rel' blk))"
proof -
  let ?old = "fsm_space_avail_to_cat b avail" and ?S = "SlotsPerFSMPage b"
  obtain addr slot where loc: "fsm_get_location b old = (addr, slot)" by fastforce
  have ok: "addr_ok b addr" "slot < ?S" and addr: "addr = \<lparr>level = 0, logpageno = logpageno addr\<rparr>"
    using loc assms(1) by (auto simp: fsm_get_location_def addr_ok_def)
  have step: "\<exists>r rel1. fsm_set_and_search b rel addr slot ?old c True = Some (r, rel1) \<and>
      rel_wf b rel1 \<and> fork_small b rel1 \<and> recorded b rel1 = (recorded b rel)(old := ?old) \<and>
      (r = -1 \<or> (\<exists>t. r = int t \<and> fsm_get_heap_blk b addr t < InvalidBlockNumber \<and>
         c \<le> recorded b rel1 (fsm_get_heap_blk b addr t)))" for c
  proof -
    from set_and_search_spec [OF assms(1,2) ok, of ?old c True] obtain r rel1 where
      r: "fsm_set_and_search b rel addr slot ?old c True = Some (r, rel1)" "rel_wf b rel1"
      "\<And>x s. addr_ok b x \<Longrightarrow> s < ?S \<Longrightarrow> avail_at b rel1 x s = (if x = addr \<and> s = slot then ?old else avail_at b rel x s)"
      "length (fork_pages rel1) = max (length (fork_pages rel)) (fsm_logical_to_physical b addr + 1)"
      "r = -1 \<or> (\<exists>t. r = int t \<and> t < ?S \<and> c \<le> avail_at b rel1 addr t)" by blast
    have small: "fork_small b rel1" using fork_small_grow [OF assms(1,3,4)] r(4) loc by simp
    have rec: "recorded b rel1 = (recorded b rel)(old := ?old)"
      by (rule recorded_update [OF assms(1) loc r(3)])
    have "fsm_get_heap_blk b addr t < InvalidBlockNumber \<and> c \<le> recorded b rel1 (fsm_get_heap_blk b addr t)"
      if t: "t < ?S" "c \<le> avail_at b rel1 addr t" for t
    proof -
      have "has_page b rel1 \<lparr>level = 0, logpageno = logpageno addr\<rparr>"
        using r(4) addr by (simp add: has_page_def)
      from fork_small_block [OF assms(1) small this t(1)]
      have blk: "fsm_get_heap_blk b addr t = logpageno addr * ?S + t" "logpageno addr * ?S + t < InvalidBlockNumber"
        by (simp_all add: fsm_get_heap_blk_def InvalidBlockNumber_def)
      then show ?thesis using recorded_of_slot [OF assms(1) t(1), of rel1 "logpageno addr"] addr t(2) by simp
    qed
    with r small rec show ?thesis by blast
  qed
  show "\<exists>x. RecordAndGetPageWithFreeSpace b rel old avail needed = Some x"
  proof (cases "fsm_space_needed_to_cat b needed")
    case (Inr c)
    from step [of c] obtain r rel1 where "fsm_set_and_search b rel addr slot ?old c True = Some (r, rel1)"
      "rel_wf b rel1" "fork_small b rel1" by blast
    with fsm_search_spec [OF assms(1), of rel1 c] Inr loc show ?thesis
      by (auto simp: RecordAndGetPageWithFreeSpace_def)
  qed (simp add: RecordAndGetPageWithFreeSpace_def)
  assume get: "RecordAndGetPageWithFreeSpace b rel old avail needed = Some (Inr (blk, rel'))"
  then obtain c where c: "fsm_space_needed_to_cat b needed = Inr c"
    by (auto simp: RecordAndGetPageWithFreeSpace_def split: sum.splits)
  from step [of c] obtain r rel1 where s: "fsm_set_and_search b rel addr slot ?old c True = Some (r, rel1)"
    "rel_wf b rel1" "fork_small b rel1" "recorded b rel1 = (recorded b rel)(old := ?old)"
    "r = -1 \<or> (\<exists>t. r = int t \<and> fsm_get_heap_blk b addr t < InvalidBlockNumber \<and>
         c \<le> recorded b rel1 (fsm_get_heap_blk b addr t))" by blast
  show "rel_wf b rel' \<and> fork_small b rel' \<and> recorded b rel' = (recorded b rel)(old := ?old) \<and>
      (blk = InvalidBlockNumber \<or> enough_cat b needed (recorded b rel' blk))"
  proof (cases "r = -1")
    case True
    with get c s(1) loc have "fsm_search b rel1 c = Some (blk, rel')"
      by (auto simp: RecordAndGetPageWithFreeSpace_def)
    with fsm_search_spec [OF assms(1) s(2,3), of c] s(4) c show ?thesis by (auto simp: enough_cat_def)
  next
    case False
    with get c s loc show ?thesis by (auto simp: RecordAndGetPageWithFreeSpace_def enough_cat_def)
  qed
qed

text \<open>The interface on the model, at the default block size.\<close>

interpretation heap_fsm: free_space_map "\<lambda>rel. rel_wf 8192 rel \<and> fork_small 8192 rel" "block_small 8192"
  "recorded 8192" "fsm_space_avail_to_cat 8192" "enough_cat 8192"
  "RecordPageWithFreeSpace 8192" "GetPageWithFreeSpace 8192" "RecordAndGetPageWithFreeSpace 8192" InvalidBlockNumber
proof unfold_locales
  fix r blk avail
  assume "rel_wf 8192 r \<and> fork_small 8192 r" "block_small 8192 blk"
  then show "\<exists>r'. RecordPageWithFreeSpace 8192 r blk avail = Some r' \<and> (rel_wf 8192 r' \<and> fork_small 8192 r') \<and>
      recorded 8192 r' = (recorded 8192 r)(blk := fsm_space_avail_to_cat 8192 avail)"
    using RecordPage_spec [of 8192 r blk avail] by auto
next
  fix r needed blk r'
  assume "rel_wf 8192 r \<and> fork_small 8192 r" "GetPageWithFreeSpace 8192 r needed = Some (Inr (blk, r'))"
  with GetPage_spec(2) [of 8192 r needed blk r']
  show "(rel_wf 8192 r' \<and> fork_small 8192 r') \<and> recorded 8192 r' = recorded 8192 r \<and>
      (blk = InvalidBlockNumber \<or> enough_cat 8192 needed (recorded 8192 r blk))" by simp
next
  fix r old avail needed blk r'
  assume "rel_wf 8192 r \<and> fork_small 8192 r" "block_small 8192 old"
    "RecordAndGetPageWithFreeSpace 8192 r old avail needed = Some (Inr (blk, r'))"
  with RecordAndGet_spec(2) [OF fsm_blcksz_default, of r old avail needed blk r']
  show "(rel_wf 8192 r' \<and> fork_small 8192 r') \<and>
      recorded 8192 r' = (recorded 8192 r)(old := fsm_space_avail_to_cat 8192 avail) \<and>
      (blk = InvalidBlockNumber \<or> enough_cat 8192 needed (recorded 8192 r' blk))" by blast
next
  fix r needed
  assume "rel_wf 8192 r \<and> fork_small 8192 r"
  then show "\<exists>x. GetPageWithFreeSpace 8192 r needed = Some x" using GetPage_spec(1) [of 8192 r needed] by simp
qed (rule enough_cat_sound [OF fsm_blcksz_default])

text \<open>A relation without a map.\<close>

definition no_fsm :: fsm_rel where
  "no_fsm = \<lparr>fsm_fork = None, smgr_fsm_nblocks = None\<rparr>"

lemma no_fsm_good: "rel_wf b no_fsm" "fork_small b no_fsm" "recorded b no_fsm blk = 0"
  by (simp_all add: no_fsm_def rel_wf_def fork_small_def recorded_eq avail_at_def fork_pages_def)

section \<open>Properties of the map\<close>

text \<open>
  Categories never promise more than there is: reading back a recorded amount does not exceed
  it, and a page whose recorded category meets the one requested for a size has at least that size,
  although the one rounds down and the other up; the largest request the map accepts is met by the
  highest category, a larger one is an error.
\<close>

theorem fsm_categories_sound:
  assumes "fsm_blcksz b"
  shows "fsm_space_cat_to_avail b (fsm_space_avail_to_cat b avail) \<le> avail \<and>
    (needed > MaxFSMRequestSize b \<longleftrightarrow> fsm_space_needed_to_cat b needed = Inl Invalid_Request_Size) \<and>
    (case fsm_space_needed_to_cat b needed of
       Inl e \<Rightarrow> True
     | Inr c \<Rightarrow> c \<noteq> 0 \<and> needed \<le> fsm_space_cat_to_avail b c \<and> c \<le> fsm_space_avail_to_cat b (MaxFSMRequestSize b) \<and>
         (c \<le> fsm_space_avail_to_cat b avail \<longrightarrow> needed \<le> avail))"
proof (cases "fsm_space_needed_to_cat b needed")
  case (Inl e)
  then show ?thesis using avail_to_cat_lower [OF assms] by (auto simp: fsm_space_needed_to_cat_def Let_def split: if_splits)
next
  case (Inr c)
  have "needed \<le> MaxFSMRequestSize b" using Inr by (auto simp: fsm_space_needed_to_cat_def split: if_splits)
  moreover have "unat c < 2 ^ LENGTH(8)" by (rule unsigned_less)
  then have "c \<le> 255" by (simp add: word_le_nat_alt)
  moreover have "needed \<le> avail" if "c \<le> fsm_space_avail_to_cat b avail"
    using enough_cat_sound [OF assms, of needed avail] Inr that by (simp add: enough_cat_def)
  ultimately show ?thesis
    using Inr needed_cat_positive [OF assms Inr] needed_le_cat [OF assms Inr] avail_to_cat_lower [OF assms]
    by (simp add: fsm_space_avail_to_cat_def)
qed

theorem fsm_categories_sound_witness:
  "fsm_space_cat_to_avail 8192 (fsm_space_avail_to_cat 8192 100) \<le> 100"
  using fsm_categories_sound [of 8192 100 50] by simp





text \<open>
  C13. Asking for space always returns, however inconsistent the upper levels are, within the
  rounds that the restart valve allows: with the error for a request too large, with no block, or
  with a block that the map records as having at least the space asked for; and nothing recorded
  about any block changes.
\<close>

theorem get_page_sound:
  assumes "fsm_blcksz b" and "rel_wf b rel" and "fork_small b rel"
  shows "(needed > MaxFSMRequestSize b \<and> GetPageWithFreeSpace b rel needed = Some (Inl Invalid_Request_Size)) \<or>
    (\<exists>blk rel'. GetPageWithFreeSpace b rel needed = Some (Inr (blk, rel')) \<and> rel_wf b rel' \<and>
       recorded b rel' = recorded b rel \<and>
       (blk = InvalidBlockNumber \<or> needed \<le> fst (GetRecordedFreeSpace b rel blk)))"
proof (cases "fsm_space_needed_to_cat b needed")
  case (Inl e)
  then show ?thesis by (auto simp: GetPageWithFreeSpace_def fsm_space_needed_to_cat_def Let_def split: if_splits)
next
  case (Inr c)
  from fsm_search_spec [OF assms, of c] obtain blk rel' where
    r: "fsm_search b rel c = Some (blk, rel')" "rel_wf b rel'" "recorded b rel' = recorded b rel"
    "blk = InvalidBlockNumber \<or> c \<le> recorded b rel blk" by blast
  have "needed \<le> fst (GetRecordedFreeSpace b rel blk)" if "c \<le> recorded b rel blk"
    using needed_le_cat [OF assms(1) Inr] cat_to_avail_mono [OF assms(1) that] assms(2)
    by (simp add: GetRecordedFreeSpace_eq)
  with r Inr show ?thesis by (auto simp: GetPageWithFreeSpace_def)
qed

theorem get_page_sound_witness:
  "\<exists>x. GetPageWithFreeSpace 8192 no_fsm 100 = Some x"
  using get_page_sound [of 8192 no_fsm 100] no_fsm_good by auto

text \<open>
  C12. From a relation without a map, through any sequence of recordings and a final combined
  record-and-find: the block that the request is answered with was last recorded, in this history,
  with at least the space asked for.
\<close>

theorem found_block_was_recorded:
  assumes "list_all (\<lambda>(blk, avail). block_small 8192 blk) (ops @ [(old, oldAvail)])"
    and "heap_fsm.record_all ops no_fsm = Some rel"
    and "RecordAndGetPageWithFreeSpace 8192 rel old oldAvail needed = Some (Inr (blk, rel'))"
    and "blk \<noteq> InvalidBlockNumber"
  shows "\<exists>avail. map_of (rev (ops @ [(old, oldAvail)])) blk = Some avail \<and> needed \<le> avail"
proof -
  have "\<not> enough_cat 8192 needed (recorded 8192 no_fsm x)" for x
    using needed_cat_positive [of 8192 needed]
    by (auto simp: no_fsm_good enough_cat_def split: sum.splits)
  then show ?thesis
    using assms no_fsm_good heap_fsm.found_was_recorded [of no_fsm ops old needed rel oldAvail blk rel']
    by (simp add: list_all_iff)
qed

theorem found_block_was_recorded_witness:
  "\<exists>rel blk rel' (avail :: nat). heap_fsm.record_all [(0, 5000)] no_fsm = Some rel \<and>
     RecordAndGetPageWithFreeSpace 8192 rel 1 10 100 = Some (Inr (blk, rel')) \<and>
     map_of [(1, 10), (0, 5000)] blk = Some avail \<and> 100 \<le> avail"
proof -
  let ?addr = "\<lparr>level = 0, logpageno = 0\<rparr>"
  have slots: "(1::nat) < SlotsPerFSMPage 8192" "0 < SlotsPerFSMPage 8192" using slots_bounds [of 8192] by simp_all
  have loc: "fsm_get_location 8192 0 = (?addr, 0)" "fsm_get_location 8192 1 = (?addr, 1)"
    using slots by (simp_all add: fsm_get_location_def)
  have ok: "addr_ok 8192 ?addr" by (simp add: addr_ok_def)
  have small: "block_small 8192 0" "block_small 8192 1"
    by (simp_all add: block_small_def LeafNodesPerPage_def NodesPerPage_def NonLeafNodesPerPage_def)
  from RecordPage_spec [of 8192 no_fsm 0 5000] no_fsm_good obtain rel where
    rel: "RecordPageWithFreeSpace 8192 no_fsm 0 5000 = Some rel" "rel_wf 8192 rel" "fork_small 8192 rel"
    "recorded 8192 rel 0 = fsm_space_avail_to_cat 8192 5000" using small(1) by auto
  have "rel_ok 8192 no_fsm" by (simp add: rel_ok_def no_fsm_def fork_pages_def)
  with rel(1) have rel_ok: "rel_ok 8192 rel"
    using set_and_search_keeps_ok [of 8192 no_fsm 0] no_fsm_good slots loc
    by (auto simp: RecordPageWithFreeSpace_def)
  have cats: "fsm_space_needed_to_cat 8192 100 = Inr 4" "fsm_space_avail_to_cat 8192 5000 = 156"
    by (simp_all add: fsm_space_needed_to_cat_def fsm_space_avail_to_cat_def MaxFSMRequestSize_def FSM_CAT_STEP_def)
  from set_and_search_spec [of 8192 rel ?addr 1 "fsm_space_avail_to_cat 8192 10" 4 True] rel(2) ok slots
  obtain r rel' where s: "fsm_set_and_search 8192 rel ?addr 1 (fsm_space_avail_to_cat 8192 10) 4 True = Some (r, rel')"
    "avail_at 8192 rel' ?addr 0 = avail_at 8192 rel ?addr 0" "r = -1 \<or> (\<exists>t. r = int t \<and> t < SlotsPerFSMPage 8192)"
    by auto
  have "(4 :: uint8) \<le> avail_at 8192 rel' ?addr 0" using s(2) rel(4) loc(1) cats(2) by (simp add: recorded_eq)
  with set_and_search_complete [of 8192 rel ?addr 1 4 "fsm_space_avail_to_cat 8192 10" r rel' 0] s(1) rel(2) rel_ok ok slots
  have "r \<noteq> -1" by simp
  with s(1) cats(1) loc(2)
  have get: "RecordAndGetPageWithFreeSpace 8192 rel 1 10 100 = Some (Inr (fsm_get_heap_blk 8192 ?addr (nat r), rel'))"
    by (simp add: RecordAndGetPageWithFreeSpace_def)
  have "fsm_get_heap_blk 8192 ?addr (nat r) \<noteq> InvalidBlockNumber"
    using s(3) \<open>r \<noteq> -1\<close> slots_bounds [of 8192] by (auto simp: fsm_get_heap_blk_def InvalidBlockNumber_def)
  moreover have hist: "heap_fsm.record_all [(0, 5000)] no_fsm = Some rel" using rel(1) by simp
  moreover have "list_all (\<lambda>(blk, avail). block_small 8192 blk) ([(0, 5000)] @ [(1, 10 :: nat)])"
    using small by simp
  ultimately obtain avail :: nat where "map_of (rev ([(0, 5000)] @ [(1, 10)])) (fsm_get_heap_blk 8192 ?addr (nat r)) = Some avail"
    "100 \<le> avail" using found_block_was_recorded [OF _ _ get] by blast
  then have "map_of [(1, 10), (0, 5000)] (fsm_get_heap_blk 8192 ?addr (nat r)) = Some avail \<and> 100 \<le> avail"
    by (simp only: append.simps rev.simps)
  with hist get show ?thesis by blast
qed

lemma lastblckno_exact:
  "fsm_blcksz b \<Longrightarrow> Suc n * SlotsPerFSMPage b \<le> 2 ^ 32 \<Longrightarrow>
   fsm_get_lastblckno b \<lparr>level = 0, logpageno = n\<rparr> = Suc n * SlotsPerFSMPage b - 1"
proof -
  assume b: "fsm_blcksz b" and le: "Suc n * SlotsPerFSMPage b \<le> 2 ^ 32"
  have "n * SlotsPerFSMPage b + (SlotsPerFSMPage b - 1) = Suc n * SlotsPerFSMPage b - 1"
    using slots_pos [OF b] by simp
  moreover define x where "x = Suc n * SlotsPerFSMPage b"
  have "x \<le> 2 ^ 32" "0 < x" using le slots_pos [OF b] by (simp_all add: x_def)
  then have "x - 1 < 2 ^ 32" by linarith
  ultimately show ?thesis unfolding fsm_get_lastblckno_def fsm_get_heap_blk_def x_def by simp
qed

lemma update_map_loop_spec:
  assumes "fsm_blcksz b" "Suc (endB div SlotsPerFSMPage b) * SlotsPerFSMPage b < 2 ^ 32"
  shows "rel_wf b rel \<Longrightarrow> endB div SlotsPerFSMPage b < fuel + blk div SlotsPerFSMPage b \<Longrightarrow> 0 < fuel \<Longrightarrow>
    \<exists>rel'. update_map_loop b fuel rel blk endB c srch = Some rel' \<and> rel_wf b rel' \<and> recorded b rel' = recorded b rel"
proof (induction fuel arbitrary: rel blk)
  case (Suc fuel)
  let ?S = "SlotsPerFSMPage b" let ?n = "blk div ?S"
  show ?case
  proof (cases "blk \<le> endB")
    case False
    then show ?thesis using Suc.prems by simp
  next
    case True
    have n: "?n \<le> endB div ?S" using True by (rule div_le_mono)
    have exact: "fsm_get_lastblckno b \<lparr>level = 0, logpageno = ?n\<rparr> = Suc ?n * ?S - 1"
    proof (rule lastblckno_exact [OF assms(1)])
      have "Suc ?n * ?S \<le> Suc (endB div ?S) * ?S" using n by (intro mult_le_mono1) simp
      with assms(2) show "Suc ?n * ?S \<le> 2 ^ 32" by linarith
    qed
    from update_recursive_spec [OF assms(1) Suc.prems(1), of ?n c srch] obtain rel1 where
      r: "fsm_update_recursive b rel \<lparr>level = 0, logpageno = ?n\<rparr> c srch = Some rel1" "rel_wf b rel1"
      "\<forall>x s. addr_ok b x \<longrightarrow> s < ?S \<longrightarrow> avail_at b rel1 x s =
         (if x = \<lparr>level = 1, logpageno = ?n div ?S\<rparr> \<and> s = ?n mod ?S \<or>
             x = \<lparr>level = 2, logpageno = ?n div ?S div ?S\<rparr> \<and> s = ?n div ?S mod ?S then c else avail_at b rel x s)"
      by blast
    have rec: "recorded b rel1 = recorded b rel"
      using r(3) assms(1) by (auto simp: recorded_eq fsm_get_location_def addr_ok_def)
    show ?thesis
    proof (cases "Suc ?n * ?S - 1 \<ge> endB")
      case True
      then show ?thesis using r rec exact \<open>blk \<le> endB\<close> by (simp add: fsm_get_location_def Let_def)
    next
      case False
      then have less: "Suc ?n * ?S \<le> endB" by linarith
      then have "Suc ?n \<le> endB div ?S" using slots_pos [OF assms(1)] by (simp add: less_eq_div_iff_mult_less_eq)
      moreover have endB: "endB < 2 ^ 32"
      proof -
        have "endB < Suc (endB div ?S) * ?S" using dividend_less_div_times [OF slots_pos [OF assms(1)], of endB] by simp
        with assms(2) show ?thesis by linarith
      qed
      moreover have "(Suc ?n * ?S - 1 + 1) mod 2 ^ 32 = Suc ?n * ?S"
        using less endB slots_pos [OF assms(1)] by simp
      moreover have "0 < fuel" using Suc.prems(2) calculation(1) by linarith
      moreover have "Suc ?n * ?S div ?S = Suc ?n" using slots_pos [OF assms(1)] by (simp del: mult_Suc)
      ultimately show ?thesis
        using Suc.IH [OF r(2), of "Suc ?n * ?S"] Suc.prems(2) r(1) rec exact False \<open>blk \<le> endB\<close>
        by (simp add: fsm_get_location_def Let_def del: mult_Suc)
    qed
  qed
qed simp

text \<open>
  C28. The bulk update of the upper levels ends, as long as the last map page involved is not the
  one that holds the largest block numbers: one round per map page is enough. No category of a
  heap block changes.
\<close>

theorem update_map_terminates:
  assumes "fsm_blcksz b" and "rel_wf b rel"
    and "Suc (endBlk div SlotsPerFSMPage b) * SlotsPerFSMPage b < 2 ^ 32"
  shows "\<exists>rel'. UpdateFreeSpaceMap b (Suc (endBlk div SlotsPerFSMPage b)) rel startBlk endBlk avail srch = Some rel' \<and>
    rel_wf b rel' \<and> recorded b rel' = recorded b rel"
  using update_map_loop_spec [OF assms(1,3,2), of "Suc (endBlk div SlotsPerFSMPage b)" startBlk]
  by (simp add: UpdateFreeSpaceMap_def)

theorem update_map_terminates_witness:
  "\<exists>rel'. UpdateFreeSpaceMap 8192 (Suc (100 div SlotsPerFSMPage 8192)) no_fsm 10 100 8000 True = Some rel'"
  using update_map_terminates [of 8192 no_fsm 100 10 8000 True] no_fsm_good
  by (auto simp: LeafNodesPerPage_def NodesPerPage_def NonLeafNodesPerPage_def)

text \<open>
  C29. On the last map page, the one with the block numbers from 4294963777 on, the number of the
  page's last block wraps around, is taken for a small one, and the bulk update starts over from
  the beginning of the relation: it never ends.
\<close>

lemma last_page_never_done:
  assumes "blk \<le> endB" "4294963777 \<le> endB" "endB \<le> 4294967294"
  shows "fsm_get_lastblckno 8192 (fst (fsm_get_location 8192 blk)) < endB"
proof -
  have S: "SlotsPerFSMPage 8192 = 4069" by (simp add: LeafNodesPerPage_def NodesPerPage_def NonLeafNodesPerPage_def)
  let ?n = "blk div 4069"
  have n: "?n \<le> 1055533" using assms by (simp add: div_le_mono [of blk 4294967294 4069, simplified])
  show ?thesis
  proof (cases "?n = 1055533")
    case True
    then have "fsm_get_lastblckno 8192 (fst (fsm_get_location 8192 blk)) = 549"
      unfolding fsm_get_lastblckno_def fsm_get_heap_blk_def fsm_get_location_def S by simp
    then show ?thesis using assms(2) by simp
  next
    case False
    with n have "?n * 4069 + 4068 < 4294963777" by linarith
    then have "fsm_get_lastblckno 8192 (fst (fsm_get_location 8192 blk)) < 4294963777"
      unfolding fsm_get_lastblckno_def fsm_get_heap_blk_def fsm_get_location_def S by simp
    then show ?thesis using assms(2) by simp
  qed
qed

lemma update_map_loop_diverges:
  "blk \<le> endB \<Longrightarrow> 4294963777 \<le> endB \<Longrightarrow> endB \<le> 4294967294 \<Longrightarrow>
   update_map_loop 8192 fuel rel blk endB c srch = None"
proof (induction fuel arbitrary: rel blk)
  case (Suc fuel)
  let ?last = "fsm_get_lastblckno 8192 (fst (fsm_get_location 8192 blk))"
  have less: "?last < endB" by (rule last_page_never_done [OF Suc.prems])
  then have "(?last + 1) mod 2 ^ 32 \<le> endB" using Suc.prems(3) by simp
  with Suc.IH Suc.prems less show ?case by (simp add: Let_def split: option.split)
qed simp

theorem update_map_diverges_on_last_page:
  assumes "startBlk \<le> endBlk" and "4294963777 \<le> endBlk" and "endBlk \<le> 4294967294"
  shows "UpdateFreeSpaceMap 8192 fuel rel startBlk endBlk avail srch = None"
  using update_map_loop_diverges [OF assms] by (simp add: UpdateFreeSpaceMap_def)

theorem update_map_diverges_on_last_page_witness:
  "UpdateFreeSpaceMap 8192 1000 no_fsm 4294967294 4294967294 8000 True = None"
  by (rule update_map_diverges_on_last_page) simp_all

text \<open>
  C30. What the bulk update stores above a bottom page is the category it was called with, in the
  slots on the path to the root, whatever the bottom page itself holds: the slot of a page that has
  more space than the new blocks is lowered.
\<close>

theorem update_recursive_stores_category:
  assumes "fsm_blcksz b" and "rel_wf b rel"
  shows "\<exists>rel'. fsm_update_recursive b rel \<lparr>level = 0, logpageno = n\<rparr> new_cat srch = Some rel' \<and>
    avail_at b rel' \<lparr>level = 1, logpageno = n div SlotsPerFSMPage b\<rparr> (n mod SlotsPerFSMPage b) = new_cat \<and>
    avail_at b rel' \<lparr>level = 2, logpageno = n div SlotsPerFSMPage b div SlotsPerFSMPage b\<rparr>
      (n div SlotsPerFSMPage b mod SlotsPerFSMPage b) = new_cat \<and>
    recorded b rel' = recorded b rel"
proof -
  from update_recursive_spec [OF assms, of n new_cat srch] obtain rel' where
    r: "fsm_update_recursive b rel \<lparr>level = 0, logpageno = n\<rparr> new_cat srch = Some rel'"
    "\<And>x s. addr_ok b x \<Longrightarrow> s < SlotsPerFSMPage b \<Longrightarrow> avail_at b rel' x s =
       (if x = \<lparr>level = 1, logpageno = n div SlotsPerFSMPage b\<rparr> \<and> s = n mod SlotsPerFSMPage b \<or>
           x = \<lparr>level = 2, logpageno = n div SlotsPerFSMPage b div SlotsPerFSMPage b\<rparr> \<and>
             s = n div SlotsPerFSMPage b mod SlotsPerFSMPage b then new_cat else avail_at b rel x s)" by blast
  have "recorded b rel' = recorded b rel"
    using r(2) assms(1) by (auto simp: recorded_eq fsm_get_location_def addr_ok_def)
  with r assms(1) show ?thesis by (auto simp: addr_ok_def)
qed

theorem update_recursive_stores_category_witness:
  "\<exists>rel'. fsm_update_recursive 8192 no_fsm \<lparr>level = 0, logpageno = 5\<rparr> 7 True = Some rel'"
  using update_recursive_stores_category [of 8192 no_fsm 5 7 True] no_fsm_good by auto

text \<open>
  C27. Truncation of the relation forgets exactly the removed blocks: what is recorded for the
  blocks that stay is unchanged and nothing is recorded for the others.
\<close>

theorem truncate_forgets_removed_blocks:
  assumes "fsm_blcksz b" and "rel_wf b rel"
  shows "rel_wf b (FreeSpaceMapTruncateRel b rel nblocks) \<and>
    recorded b (FreeSpaceMapTruncateRel b rel nblocks) blk = (if blk < nblocks then recorded b rel blk else 0)"
  by (rule truncate_spec [OF assms])

theorem truncate_forgets_removed_blocks_witness:
  "recorded 8192 (FreeSpaceMapTruncateRel 8192 no_fsm 100) 200 = 0"
  using truncate_forgets_removed_blocks [of 8192 no_fsm 100 200] no_fsm_good by simp

end
