(* ===== verification/Commit_Log_Model.thy ===== *)
theory Commit_Log_Model
  imports OG_Prelude
begin

text \<open>
  The commit log, \<^verbatim>\<open>src/gausskernel/storage/access/transam/clog.cpp\<close>, with the layout macros of
  \<^verbatim>\<open>src/include/access/clog.h\<close>: two bits per transaction, four transactions in a byte.

  A page buffer of BLCKSZ bytes is a function from byte offsets; \<^verbatim>\<open>group_lsn\<close> holds the
  latest asynchronous commit LSN of every group of 32 transactions of the page. The SLRU
  buffer pool below this file is a partial map from page numbers to pages; a page it does not
  hold cannot be read, which is the error of \<^verbatim>\<open>SimpleLruReadPage\<close>. The field
  \<open>released\<close> is a history variable: the contents other threads could see each time
  the control lock was given up, oldest first.
\<close>

type_synonym TransactionId = uint64
type_synonym XLogRecPtr = uint64

definition InvalidTransactionId :: TransactionId where "InvalidTransactionId = 0"
definition BootstrapTransactionId :: TransactionId where "BootstrapTransactionId = 1"
definition FrozenTransactionId :: TransactionId where "FrozenTransactionId = 2"
definition FirstNormalTransactionId :: TransactionId where "FirstNormalTransactionId = 3"

lemmas special_xids = InvalidTransactionId_def BootstrapTransactionId_def FrozenTransactionId_def
  FirstNormalTransactionId_def

definition TransactionIdIsValid :: "TransactionId \<Rightarrow> bool" where
  "TransactionIdIsValid xid \<longleftrightarrow> xid \<noteq> InvalidTransactionId"

definition TransactionIdIsNormal :: "TransactionId \<Rightarrow> bool" where
  "TransactionIdIsNormal xid \<longleftrightarrow> xid \<ge> FirstNormalTransactionId"

definition TransactionIdPrecedes :: "TransactionId \<Rightarrow> TransactionId \<Rightarrow> bool" where
  "TransactionIdPrecedes id1 id2 \<longleftrightarrow> id1 < id2"

datatype CLogXidStatus =
    CLOG_XID_STATUS_IN_PROGRESS
  | CLOG_XID_STATUS_COMMITTED
  | CLOG_XID_STATUS_ABORTED
  | CLOG_XID_STATUS_SUB_COMMITTED

fun status_code :: "CLogXidStatus \<Rightarrow> uint8" where
  "status_code CLOG_XID_STATUS_IN_PROGRESS = 0"
| "status_code CLOG_XID_STATUS_COMMITTED = 1"
| "status_code CLOG_XID_STATUS_ABORTED = 2"
| "status_code CLOG_XID_STATUS_SUB_COMMITTED = 3"

definition status_of_code :: "uint8 \<Rightarrow> CLogXidStatus" where
  "status_of_code v =
     (if v = 0 then CLOG_XID_STATUS_IN_PROGRESS
      else if v = 1 then CLOG_XID_STATUS_COMMITTED
      else if v = 2 then CLOG_XID_STATUS_ABORTED
      else CLOG_XID_STATUS_SUB_COMMITTED)"

definition BLCKSZ :: nat where "BLCKSZ = 8192"
definition CLOG_BITS_PER_XACT :: nat where "CLOG_BITS_PER_XACT = 2"
definition CLOG_XACTS_PER_BYTE :: nat where "CLOG_XACTS_PER_BYTE = 4"
definition CLOG_XACTS_PER_PAGE :: nat where "CLOG_XACTS_PER_PAGE = BLCKSZ * CLOG_XACTS_PER_BYTE"
definition CLOG_XACT_BITMASK :: uint8 where
  "CLOG_XACT_BITMASK = push_bit CLOG_BITS_PER_XACT 1 - 1"
definition CLOG_XACTS_PER_LSN_GROUP :: nat where "CLOG_XACTS_PER_LSN_GROUP = 32"
definition THRESHOLD_SUBTRANS_CLOG_OPT :: nat where "THRESHOLD_SUBTRANS_CLOG_OPT = 5"

lemmas clog_constants = BLCKSZ_def CLOG_BITS_PER_XACT_def CLOG_XACTS_PER_BYTE_def
  CLOG_XACTS_PER_PAGE_def CLOG_XACT_BITMASK_def CLOG_XACTS_PER_LSN_GROUP_def

definition TransactionIdToPage :: "TransactionId \<Rightarrow> nat" where
  "TransactionIdToPage xid = unat xid div CLOG_XACTS_PER_PAGE"

definition TransactionIdToPgIndex :: "TransactionId \<Rightarrow> nat" where
  "TransactionIdToPgIndex xid = unat xid mod CLOG_XACTS_PER_PAGE"

definition TransactionIdToByte :: "TransactionId \<Rightarrow> nat" where
  "TransactionIdToByte xid = TransactionIdToPgIndex xid div CLOG_XACTS_PER_BYTE"

definition TransactionIdToBIndex :: "TransactionId \<Rightarrow> nat" where
  "TransactionIdToBIndex xid = unat xid mod CLOG_XACTS_PER_BYTE"

text \<open>The index of the transaction's group within the LSNs of its own slot.\<close>

definition GetLSNIndex :: "TransactionId \<Rightarrow> nat" where
  "GetLSNIndex xid = unat xid mod CLOG_XACTS_PER_PAGE div CLOG_XACTS_PER_LSN_GROUP"

record clog_page =
  page_buffer :: "nat \<Rightarrow> uint8"
  group_lsn :: "nat \<Rightarrow> XLogRecPtr"

type_synonym clog_pages = "nat \<Rightarrow> clog_page option"

record clog_ctl =
  slru :: clog_pages
  released :: "clog_pages list"
  latest_page_number :: "nat \<Rightarrow> nat"       \<comment> \<open>of each partition\<close>
  force_check_first_xid :: "nat \<Rightarrow> bool"   \<comment> \<open>of each partition\<close>

datatype clog_error =
    Clog_status_error   \<comment> \<open>PANIC: CLOG STATUS ERROR, CLOG PAGE STATUS ERROR\<close>
  | Clog_read_error     \<comment> \<open>the page cannot be read\<close>

text \<open>
  A backend waiting for a group update: the fields \<^verbatim>\<open>clogGroupMember*\<close> of its PGPROC and
  its cached subtransactions.
\<close>

record group_member =
  clogGroupMemberXid :: TransactionId
  clogGroupMemberSubxids :: "TransactionId list"
  clogGroupMemberXidStatus :: CLogXidStatus
  clogGroupMemberLsn :: XLogRecPtr
  clogGroupMemberPage :: nat

text \<open>
  What the functions read of the thread: the recovery and standby flags, the transaction and
  subtransactions its PGXACT and PGPROC entries show, whether the control lock could be taken
  at once, and, when it could not, the list of backends on whose behalf the leader of the
  group acts (\<^verbatim>\<open>None\<close> when the head of the waiting list is for another page).
\<close>

record clog_env =
  InRecovery :: bool
  SS_STANDBY_MODE :: bool
  pgxact_xid :: TransactionId
  proc_subxids :: "TransactionId list"
  control_lock_free :: bool
  clogGroup :: "group_member list option"
  ustore_verify_whitebox :: bool
  NUM_CLOG_PARTITIONS :: nat

section \<open>Reading and writing one transaction\<close>

definition CLogSetStatusBit ::
  "clog_env \<Rightarrow> CLogXidStatus \<Rightarrow> XLogRecPtr \<Rightarrow> TransactionId \<Rightarrow> clog_page \<Rightarrow> clog_error + clog_page" where
  "CLogSetStatusBit env status lsn xid page =
     (let byteno = TransactionIdToByte xid;
          bshift = TransactionIdToBIndex xid * CLOG_BITS_PER_XACT;
          curval = drop_bit bshift (page_buffer page byteno) AND CLOG_XACT_BITMASK
      in if InRecovery env \<and> status = CLOG_XID_STATUS_SUB_COMMITTED \<and>
            curval = status_code CLOG_XID_STATUS_COMMITTED
         then Inr page
         else if SS_STANDBY_MODE env then Inr page
         else if \<not> (curval = 0 \<or>
                     (curval = status_code CLOG_XID_STATUS_SUB_COMMITTED \<and>
                      status \<noteq> CLOG_XID_STATUS_IN_PROGRESS) \<or>
                     curval = status_code status \<or>
                     (curval = status_code CLOG_XID_STATUS_COMMITTED \<and>
                      status = CLOG_XID_STATUS_SUB_COMMITTED))
         then Inl Clog_status_error
         else
           let byteval = page_buffer page byteno;
               byteval = byteval AND NOT (push_bit bshift (push_bit CLOG_BITS_PER_XACT 1 - 1));
               byteval = byteval OR push_bit bshift (status_code status);
               page = page\<lparr>page_buffer := (page_buffer page)(byteno := byteval)\<rparr>
           in if lsn \<noteq> 0
              then let lsnindex = GetLSNIndex xid
                   in if group_lsn page lsnindex < lsn
                      then Inr (page\<lparr>group_lsn := (group_lsn page)(lsnindex := lsn)\<rparr>)
                      else Inr page
              else Inr page)"

definition CLogGetStatus :: "clog_pages \<Rightarrow> TransactionId \<Rightarrow> clog_error + (CLogXidStatus \<times> XLogRecPtr)" where
  "CLogGetStatus pages xid =
     (let byteno = TransactionIdToByte xid;
          bshift = TransactionIdToBIndex xid * CLOG_BITS_PER_XACT
      in case pages (TransactionIdToPage xid) of
           None \<Rightarrow> Inl Clog_read_error
         | Some page \<Rightarrow>
             Inr (status_of_code (drop_bit bshift (page_buffer page byteno) AND CLOG_XACT_BITMASK),
                  group_lsn page (GetLSNIndex xid)))"

section \<open>The transactions of one page\<close>

text \<open>The main transaction, if any, after its subtransactions are marked subcommitted.\<close>

definition set_main_transaction ::
  "clog_env \<Rightarrow> TransactionId \<Rightarrow> TransactionId list \<Rightarrow> CLogXidStatus \<Rightarrow> XLogRecPtr \<Rightarrow> clog_page \<Rightarrow>
   clog_error + clog_page" where
  "set_main_transaction env xid subxids status lsn page =
     (if TransactionIdIsValid xid
      then result_bind
             (if status = CLOG_XID_STATUS_COMMITTED
              then for_each (CLogSetStatusBit env CLOG_XID_STATUS_SUB_COMMITTED lsn) subxids page
              else Inr page)
             (CLogSetStatusBit env status lsn xid)
      else Inr page)"

definition CLogSetPageStatusInternal ::
  "clog_env \<Rightarrow> TransactionId \<Rightarrow> TransactionId list \<Rightarrow> CLogXidStatus \<Rightarrow> XLogRecPtr \<Rightarrow> nat \<Rightarrow>
   clog_pages \<Rightarrow> clog_error + clog_pages" where
  "CLogSetPageStatusInternal env xid subxids status lsn pageno pages =
     (if \<not> (status = CLOG_XID_STATUS_COMMITTED \<or> status = CLOG_XID_STATUS_ABORTED \<or>
            (status = CLOG_XID_STATUS_SUB_COMMITTED \<and> \<not> TransactionIdIsValid xid))
      then Inl Clog_status_error
      else case pages pageno of
        None \<Rightarrow> Inl Clog_read_error
      | Some page \<Rightarrow>
          result_bind (set_main_transaction env xid subxids status lsn page)
            (\<lambda>page. result_bind (for_each (CLogSetStatusBit env status lsn) subxids page)
            (\<lambda>page. Inr (pages(pageno \<mapsto> page)))))"

text \<open>
  The leader of a group walks the list it took from \<^verbatim>\<open>clogGroupFirst\<close> and updates the log
  for every member under one lock.
\<close>

definition walk_group :: "clog_env \<Rightarrow> group_member list \<Rightarrow> clog_pages \<Rightarrow> clog_error + clog_pages" where
  "walk_group env =
     for_each (\<lambda>m. CLogSetPageStatusInternal env (clogGroupMemberXid m) (clogGroupMemberSubxids m)
                     (clogGroupMemberXidStatus m) (clogGroupMemberLsn m) (clogGroupMemberPage m))"

definition release_lock :: "clog_ctl \<Rightarrow> clog_pages \<Rightarrow> clog_ctl" where
  "release_lock ctl pages = ctl\<lparr>slru := pages, released := released ctl @ [pages]\<rparr>"

definition CLogSetPageStatus ::
  "clog_env \<Rightarrow> TransactionId \<Rightarrow> TransactionId list \<Rightarrow> CLogXidStatus \<Rightarrow> XLogRecPtr \<Rightarrow> nat \<Rightarrow> bool \<Rightarrow>
   clog_ctl \<Rightarrow> clog_error + clog_ctl" where
  "CLogSetPageStatus env xid subxids status lsn pageno all_xact_same_page ctl =
     (let own = result_bind (CLogSetPageStatusInternal env xid subxids status lsn pageno (slru ctl))
                  (\<lambda>pages. Inr (release_lock ctl pages))
      in if all_xact_same_page \<and> xid = pgxact_xid env \<and>
            length subxids \<le> THRESHOLD_SUBTRANS_CLOG_OPT \<and>
            length subxids = length (proc_subxids env) \<and> subxids = proc_subxids env
         then if control_lock_free env then own
              else case clogGroup env of
                     Some members \<Rightarrow>
                       result_bind (walk_group env members (slru ctl))
                         (\<lambda>pages. Inr (release_lock ctl pages))
                   | None \<Rightarrow> own
         else own)"

section \<open>A transaction tree\<close>

text \<open>The leading entries of the array that lie on the given page.\<close>

fun num_on_page :: "nat \<Rightarrow> TransactionId list \<Rightarrow> nat" where
  "num_on_page pageno [] = 0"
| "num_on_page pageno (x # xs) =
     (if TransactionIdToPage x \<noteq> pageno then 0 else Suc (num_on_page pageno xs))"

lemma num_on_page_le: "num_on_page pageno xs \<le> length xs"
  by (induction xs) auto

function set_by_pages_loop ::
  "clog_env \<Rightarrow> CLogXidStatus \<Rightarrow> XLogRecPtr \<Rightarrow> nat \<Rightarrow> TransactionId list \<Rightarrow> clog_ctl \<Rightarrow> clog_error + clog_ctl" where
  "set_by_pages_loop env status lsn pageno subxids ctl =
     (if subxids = [] then Inr ctl
      else
        let n = num_on_page pageno subxids;
            nextpageno = (if n < length subxids then TransactionIdToPage (subxids ! n) else pageno)
        in result_bind
             (CLogSetPageStatus env InvalidTransactionId (take n subxids) status lsn pageno False ctl)
             (set_by_pages_loop env status lsn nextpageno (drop n subxids)))"
  by pat_completeness auto
termination
proof (relation "measure (\<lambda>(env, status, lsn, pageno, subxids, ctl).
    2 * length subxids + (if subxids \<noteq> [] \<and> TransactionIdToPage (hd subxids) \<noteq> pageno then 1 else 0))",
    goal_cases)
  case (2 env status lsn pageno subxids ctl n nextpageno ctl')
  then obtain x xs where xs: "subxids = x # xs" by (cases subxids) auto
  show ?case
  proof (cases "n < length subxids")
    case True
    then show ?thesis using 2 xs by (auto simp: hd_drop_conv_nth split: if_splits)
  next
    case False
    then show ?thesis using 2 xs by auto
  qed
qed simp

definition set_status_by_pages ::
  "clog_env \<Rightarrow> TransactionId list \<Rightarrow> CLogXidStatus \<Rightarrow> XLogRecPtr \<Rightarrow> clog_ctl \<Rightarrow> clog_error + clog_ctl" where
  "set_status_by_pages env subxids status lsn ctl =
     set_by_pages_loop env status lsn (TransactionIdToPage (hd subxids)) subxids ctl"

definition CLogSetTreeStatus ::
  "clog_env \<Rightarrow> TransactionId \<Rightarrow> TransactionId list \<Rightarrow> CLogXidStatus \<Rightarrow> XLogRecPtr \<Rightarrow> clog_ctl \<Rightarrow>
   clog_error + clog_ctl" where
  "CLogSetTreeStatus env xid subxids status lsn ctl =
     (let pageno = TransactionIdToPage xid;
          i = num_on_page pageno subxids
      in if \<not> (status = CLOG_XID_STATUS_COMMITTED \<or> status = CLOG_XID_STATUS_ABORTED)
         then Inl Clog_status_error
         else if i = length subxids
         then CLogSetPageStatus env xid subxids status lsn pageno True ctl
         else
           result_bind
             (if status = CLOG_XID_STATUS_COMMITTED
              then set_status_by_pages env (drop i subxids) CLOG_XID_STATUS_SUB_COMMITTED lsn ctl
              else Inr ctl)
             (\<lambda>ctl. result_bind (CLogSetPageStatus env xid (take i subxids) status lsn pageno False ctl)
             (set_status_by_pages env (drop i subxids) status lsn)))"

section \<open>Start of the server\<close>

definition StartupCLOG :: "clog_env \<Rightarrow> TransactionId \<Rightarrow> clog_ctl \<Rightarrow> clog_ctl" where
  "StartupCLOG env nextXid ctl =
     (let pageno = TransactionIdToPage nextXid; part = pageno mod NUM_CLOG_PARTITIONS env
      in ctl\<lparr>latest_page_number := (latest_page_number ctl)(part := pageno)\<rparr>)"

definition TrimCLOG :: "clog_env \<Rightarrow> TransactionId \<Rightarrow> clog_ctl \<Rightarrow> clog_error + clog_ctl" where
  "TrimCLOG env nextXid ctl =
     (if ustore_verify_whitebox env then Inr ctl
      else if SS_STANDBY_MODE env then Inr ctl
      else
        let xid = nextXid;
            pageno = TransactionIdToPage xid;
            part = pageno mod NUM_CLOG_PARTITIONS env;
            ctl = ctl\<lparr>latest_page_number := (latest_page_number ctl)(part := pageno)\<rparr>
        in if TransactionIdToPgIndex xid \<noteq> 0
           then
             let byteno = TransactionIdToByte xid;
                 bshift = TransactionIdToBIndex xid * CLOG_BITS_PER_XACT
             in case slru ctl pageno of
                  None \<Rightarrow> Inl Clog_read_error
                | Some page \<Rightarrow>
                    let buf = page_buffer page;
                        buf = buf(byteno := buf byteno AND (push_bit bshift 1 - 1));
                        buf = (\<lambda>i. if byteno + 1 \<le> i \<and> i < BLCKSZ then 0 else buf i)
                    in Inr (release_lock ctl ((slru ctl)(pageno \<mapsto> page\<lparr>page_buffer := buf\<rparr>)))
           else Inr (ctl\<lparr>force_check_first_xid := (force_check_first_xid ctl)(part := True)\<rparr>))"

end
