(* ===== verification/Commit_Log.thy ===== *)
theory Commit_Log
  imports Commit_Log_Model
begin

text \<open>
  Facts on the commit log: what the two bits of a transaction mean, how one update changes
  them, and how the updates of a page, of a chunk of pages and of a whole transaction tree
  change the statuses. \<open>clog_status\<close> is the abstraction: the status of every
  transaction whose page exists.
\<close>

section \<open>Two bits in a byte\<close>

definition get2 :: "nat \<Rightarrow> uint8 \<Rightarrow> uint8" where
  "get2 k b = drop_bit (k * 2) b AND 3"

definition put2 :: "nat \<Rightarrow> uint8 \<Rightarrow> uint8 \<Rightarrow> uint8" where
  "put2 k c b = b AND NOT (push_bit (k * 2) 3) OR push_bit (k * 2) c"

lemma three_mask: "(3 :: uint8) = mask 2"
  by (simp add: mask_eq_exp_minus_1)

lemma two_bits: "(c :: uint8) AND 3 = c \<Longrightarrow> bit c m \<Longrightarrow> m < 2"
  by (metis bit_and_iff bit_mask_iff three_mask)

lemma bit_get2: "bit (get2 k b) n \<longleftrightarrow> n < 2 \<and> bit b (k * 2 + n)"
  unfolding get2_def three_mask by (auto simp: bit_simps)

lemma bit_put2:
  "c AND 3 = c \<Longrightarrow> k < 4 \<Longrightarrow>
   bit (put2 k c b) m \<longleftrightarrow> (if k * 2 \<le> m \<and> m < k * 2 + 2 then bit c (m - k * 2) else bit b m)"
  unfolding put2_def three_mask
  by (auto simp: bit_simps dest: two_bits [unfolded three_mask] bit_imp_le_length)

lemma get2_put2_same: "k < 4 \<Longrightarrow> c AND 3 = c \<Longrightarrow> get2 k (put2 k c b) = c"
  by (rule bit_eqI) (auto simp: bit_get2 bit_put2 dest: two_bits)

lemma get2_put2_other:
  "k < 4 \<Longrightarrow> j \<noteq> k \<Longrightarrow> c AND 3 = c \<Longrightarrow> get2 j (put2 k c b) = get2 j b"
  by (rule bit_eqI) (auto simp: bit_get2 bit_put2)

lemma status_code_3 [simp]: "status_code s AND 3 = status_code s"
  by (cases s) auto

lemma status_of_code_inverse [simp]: "status_of_code (status_code s) = s"
  by (cases s) (auto simp: status_of_code_def)

lemma less_4_cases: "(w :: uint8) < 4 \<Longrightarrow> w = 0 \<or> w = 1 \<or> w = 2 \<or> w = 3"
proof -
  assume "w < 4"
  then have "unat w < 4" by (simp add: word_less_nat_alt)
  then have "unat w = unat (0 :: uint8) \<or> unat w = unat (1 :: uint8) \<or> unat w = unat (2 :: uint8) \<or>
             unat w = unat (3 :: uint8)" by auto
  then show ?thesis unfolding word_unat_eq_iff .
qed

lemma get2_less: "get2 k b < 4"
proof -
  have "get2 k b = take_bit 2 (drop_bit (k * 2) b)"
    unfolding get2_def three_mask by (simp add: take_bit_eq_mask)
  then have "unat (get2 k b) = take_bit 2 (unat (drop_bit (k * 2) b))"
    by (simp add: unsigned_take_bit_eq)
  also have "\<dots> < 2 ^ 2" by (rule take_bit_nat_less_exp)
  finally show ?thesis by (simp add: word_less_nat_alt)
qed

lemma get2_status: "get2 k b = status_code (status_of_code (get2 k b))"
  using less_4_cases [OF get2_less [of k b]] by (auto simp: status_of_code_def)

section \<open>The status of a transaction\<close>

definition page_status :: "clog_page \<Rightarrow> TransactionId \<Rightarrow> CLogXidStatus" where
  "page_status page xid =
     status_of_code (get2 (TransactionIdToBIndex xid) (page_buffer page (TransactionIdToByte xid)))"

definition clog_status :: "clog_pages \<Rightarrow> TransactionId \<Rightarrow> CLogXidStatus option" where
  "clog_status pages xid = map_option (\<lambda>page. page_status page xid) (pages (TransactionIdToPage xid))"

definition clog_lsn :: "clog_pages \<Rightarrow> TransactionId \<Rightarrow> XLogRecPtr option" where
  "clog_lsn pages xid = map_option (\<lambda>page. group_lsn page (GetLSNIndex xid)) (pages (TransactionIdToPage xid))"

lemma CLogGetStatus_alt:
  "CLogGetStatus pages xid =
     (case pages (TransactionIdToPage xid) of
        None \<Rightarrow> Inl Clog_read_error
      | Some page \<Rightarrow> Inr (page_status page xid, group_lsn page (GetLSNIndex xid)))"
  by (simp add: CLogGetStatus_def page_status_def get2_def CLOG_BITS_PER_XACT_def CLOG_XACT_BITMASK_def
      cong: option.case_cong)

lemma CLogGetStatus_iff:
  "CLogGetStatus pages xid = Inr (st, lsn) \<longleftrightarrow> clog_status pages xid = Some st \<and> clog_lsn pages xid = Some lsn"
  by (auto simp: CLogGetStatus_alt clog_status_def clog_lsn_def split: option.splits)

lemma same_entry:
  "TransactionIdToPage x = TransactionIdToPage y \<Longrightarrow> TransactionIdToByte x = TransactionIdToByte y \<Longrightarrow>
   TransactionIdToBIndex x = TransactionIdToBIndex y \<Longrightarrow> x = y"
proof -
  assume p: "TransactionIdToPage x = TransactionIdToPage y" and b: "TransactionIdToByte x = TransactionIdToByte y"
    and i: "TransactionIdToBIndex x = TransactionIdToBIndex y"
  have dm: "a mod (8192 * 4) mod 4 = a mod 4" for a :: nat
    by (simp add: mod_mod_cancel)
  have "unat x mod 32768 mod 4 = unat y mod 32768 mod 4"
    using i dm by (simp add: TransactionIdToBIndex_def clog_constants)
  moreover have "unat x mod 32768 div 4 = unat y mod 32768 div 4"
    using b by (simp add: TransactionIdToByte_def TransactionIdToPgIndex_def clog_constants)
  ultimately have "unat x mod 32768 = unat y mod 32768" by (metis div_mult_mod_eq)
  moreover have "unat x div 32768 = unat y div 32768"
    using p by (simp add: TransactionIdToPage_def clog_constants)
  ultimately have "unat x = unat y" by (metis div_mult_mod_eq)
  then show "x = y" by (simp add: word_unat_eq_iff)
qed

lemma BIndex_less [simp]: "TransactionIdToBIndex xid < 4"
  by (simp add: TransactionIdToBIndex_def clog_constants)

lemma byte_in_page: "TransactionIdToByte xid < BLCKSZ"
  by (simp add: TransactionIdToByte_def TransactionIdToPgIndex_def clog_constants less_mult_imp_div_less)

text \<open>
  The transition an update makes: a repeated subcommit during recovery and every update on a
  shared-storage standby are ignored, a change of a final status is refused.
\<close>

definition next_status :: "clog_env \<Rightarrow> CLogXidStatus \<Rightarrow> CLogXidStatus \<Rightarrow> CLogXidStatus option" where
  "next_status env new cur =
     (if InRecovery env \<and> new = CLOG_XID_STATUS_SUB_COMMITTED \<and> cur = CLOG_XID_STATUS_COMMITTED then Some cur
      else if SS_STANDBY_MODE env then Some cur
      else if cur = CLOG_XID_STATUS_IN_PROGRESS \<or>
              (cur = CLOG_XID_STATUS_SUB_COMMITTED \<and> new \<noteq> CLOG_XID_STATUS_IN_PROGRESS) \<or> cur = new \<or>
              (cur = CLOG_XID_STATUS_COMMITTED \<and> new = CLOG_XID_STATUS_SUB_COMMITTED)
      then Some new else None)"

lemma next_status_idem: "next_status env new cur = Some s \<Longrightarrow> next_status env new s = Some s"
  by (auto simp: next_status_def split: if_splits)

lemma code_eq_iff: "get2 k b = status_code s \<longleftrightarrow> status_of_code (get2 k b) = s"
  by (metis get2_status status_of_code_inverse)

lemma code_zero_iff: "get2 k b = 0 \<longleftrightarrow> status_of_code (get2 k b) = CLOG_XID_STATUS_IN_PROGRESS"
  using code_eq_iff [of k b CLOG_XID_STATUS_IN_PROGRESS] by simp

definition put_status :: "clog_page \<Rightarrow> TransactionId \<Rightarrow> CLogXidStatus \<Rightarrow> XLogRecPtr \<Rightarrow> clog_page" where
  "put_status page xid st lsn =
     page\<lparr>page_buffer := (page_buffer page)(TransactionIdToByte xid :=
            put2 (TransactionIdToBIndex xid) (status_code st) (page_buffer page (TransactionIdToByte xid))),
          group_lsn := (group_lsn page)(GetLSNIndex xid := max (group_lsn page (GetLSNIndex xid)) lsn)\<rparr>"

lemma CLogSetStatusBit_alt:
  "CLogSetStatusBit env st lsn xid page =
     (case next_status env st (page_status page xid) of
        None \<Rightarrow> Inl Clog_status_error
      | Some s \<Rightarrow>
          if (InRecovery env \<and> st = CLOG_XID_STATUS_SUB_COMMITTED \<and>
              page_status page xid = CLOG_XID_STATUS_COMMITTED) \<or> SS_STANDBY_MODE env
          then Inr page else Inr (put_status page xid st lsn))"
proof -
  let ?k = "TransactionIdToBIndex xid" and ?b = "page_buffer page (TransactionIdToByte xid)"
  have cur: "drop_bit (?k * CLOG_BITS_PER_XACT) ?b AND CLOG_XACT_BITMASK = get2 ?k ?b"
    by (simp add: get2_def CLOG_BITS_PER_XACT_def CLOG_XACT_BITMASK_def)
  have put: "(?b AND NOT (push_bit (?k * CLOG_BITS_PER_XACT) (push_bit CLOG_BITS_PER_XACT 1 - 1))) OR
      push_bit (?k * CLOG_BITS_PER_XACT) (status_code st) = put2 ?k (status_code st) ?b"
    by (simp add: put2_def CLOG_BITS_PER_XACT_def)
  show ?thesis
    unfolding CLogSetStatusBit_def Let_def cur put code_eq_iff code_zero_iff page_status_def
    by (auto simp: next_status_def put_status_def max_def fun_upd_idem)
qed

lemma page_status_put:
  "TransactionIdToPage x = TransactionIdToPage xid \<Longrightarrow>
   page_status (put_status page xid st lsn) x = (if x = xid then st else page_status page x)"
  using same_entry [of x xid]
  by (cases "TransactionIdToBIndex x = TransactionIdToBIndex xid")
    (auto simp: page_status_def put_status_def get2_put2_same get2_put2_other)

lemma group_lsn_put: "group_lsn page i \<le> group_lsn (put_status page xid st lsn) i"
  by (simp add: put_status_def)

lemma CLogSetStatusBit_Inr:
  assumes "CLogSetStatusBit env st lsn xid page = Inr page'"
  shows "next_status env st (page_status page xid) = Some (page_status page' xid)"
    and "TransactionIdToPage x = TransactionIdToPage xid \<Longrightarrow> x \<noteq> xid \<Longrightarrow> page_status page' x = page_status page x"
    and "group_lsn page i \<le> group_lsn page' i"
  using assms unfolding CLogSetStatusBit_alt
  by (auto split: option.splits if_splits simp: page_status_put group_lsn_put next_status_def)

lemma CLogSetStatusBit_ok:
  "next_status env st (page_status page xid) = Some s \<Longrightarrow> \<exists>page'. CLogSetStatusBit env st lsn xid page = Inr page'"
  unfolding CLogSetStatusBit_alt by auto

section \<open>The transactions of one page\<close>

text \<open>The status after the updates of a list of transactions.\<close>

definition upd_status :: "clog_env \<Rightarrow> CLogXidStatus \<Rightarrow> TransactionId set \<Rightarrow>
   (TransactionId \<Rightarrow> CLogXidStatus option) \<Rightarrow> TransactionId \<Rightarrow> CLogXidStatus option" where
  "upd_status env st X m = (\<lambda>x. if x \<in> X then Option.bind (m x) (next_status env st) else m x)"

lemma for_each_page:
  assumes "for_each (CLogSetStatusBit env st lsn) xs page = Inr page'"
    and "\<forall>x \<in> set xs. TransactionIdToPage x = pageno"
  shows "(\<forall>x. TransactionIdToPage x = pageno \<longrightarrow>
            upd_status env st (set xs) (\<lambda>x. Some (page_status page x)) x = Some (page_status page' x))"
  using assms
proof (induction xs arbitrary: page)
  case Nil
  then show ?case by (simp add: upd_status_def)
next
  case (Cons a xs)
  then obtain q where q: "CLogSetStatusBit env st lsn a page = Inr q"
    and r: "for_each (CLogSetStatusBit env st lsn) xs q = Inr page'"
    by (auto simp: result_bind_Inr_iff)
  note step = CLogSetStatusBit_Inr [OF q]
  have IH: "TransactionIdToPage x = pageno \<Longrightarrow>
     upd_status env st (set xs) (\<lambda>x. Some (page_status q x)) x = Some (page_status page' x)" for x
    using Cons.IH [OF r] Cons.prems by simp
  show ?case
  proof (intro allI impI)
    fix x assume px: "TransactionIdToPage x = pageno"
    show "upd_status env st (set (a # xs)) (\<lambda>x. Some (page_status page x)) x = Some (page_status page' x)"
    proof (cases "x = a")
      case True
      then show ?thesis using IH [OF px] step(1) next_status_idem [OF step(1)]
        by (auto simp: upd_status_def split: if_splits)
    next
      case False
      then show ?thesis using IH [OF px] step(2) [of x] px Cons.prems by (auto simp: upd_status_def)
    qed
  qed
qed

lemma for_each_page_ok:
  assumes "\<forall>x \<in> set xs. TransactionIdToPage x = pageno \<and> next_status env st (page_status page x) \<noteq> None"
  shows "\<exists>page'. for_each (CLogSetStatusBit env st lsn) xs page = Inr page'"
  using assms
proof (induction xs arbitrary: page)
  case (Cons a xs)
  then obtain q where q: "CLogSetStatusBit env st lsn a page = Inr q"
    using CLogSetStatusBit_ok by (metis list.set_intros(1) not_None_eq)
  note step = CLogSetStatusBit_Inr [OF q]
  have "\<forall>x \<in> set xs. TransactionIdToPage x = pageno \<and> next_status env st (page_status q x) \<noteq> None"
  proof
    fix x assume x: "x \<in> set xs"
    show "TransactionIdToPage x = pageno \<and> next_status env st (page_status q x) \<noteq> None"
    proof (cases "x = a")
      case True
      then show ?thesis using Cons.prems next_status_idem [OF step(1)] by auto
    next
      case False
      then show ?thesis using Cons.prems x step(2) [of x] by auto
    qed
  qed
  then show ?case using Cons.IH q by simp
qed simp

lemma lift_page:
  assumes "pages pageno = Some page" and "for_each (CLogSetStatusBit env st lsn) xs page = Inr page'"
    and "\<forall>x \<in> set xs. TransactionIdToPage x = pageno"
  shows "clog_status (pages(pageno \<mapsto> page')) = upd_status env st (set xs) (clog_status pages)"
proof
  fix x
  show "clog_status (pages(pageno \<mapsto> page')) x = upd_status env st (set xs) (clog_status pages) x"
  proof (cases "TransactionIdToPage x = pageno")
    case True
    then show ?thesis using for_each_page [OF assms(2,3)] assms(1)
      by (auto simp: clog_status_def upd_status_def)
  next
    case False
    then show ?thesis using assms(3) by (auto simp: clog_status_def upd_status_def)
  qed
qed

lemma lift_bit:
  assumes "pages pageno = Some page" "CLogSetStatusBit env st lsn xid page = Inr page'"
    and "TransactionIdToPage xid = pageno"
  shows "clog_status (pages(pageno \<mapsto> page')) = upd_status env st {xid} (clog_status pages)"
  using lift_page [of pages pageno page env st lsn "[xid]" page'] assms by simp

definition main_update :: "clog_env \<Rightarrow> TransactionId \<Rightarrow> TransactionId set \<Rightarrow> CLogXidStatus \<Rightarrow>
   (TransactionId \<Rightarrow> CLogXidStatus option) \<Rightarrow> TransactionId \<Rightarrow> CLogXidStatus option" where
  "main_update env xid X st m =
     (if TransactionIdIsValid xid
      then upd_status env st {xid}
             (if st = CLOG_XID_STATUS_COMMITTED then upd_status env CLOG_XID_STATUS_SUB_COMMITTED X m else m)
      else m)"

lemma set_main_transaction_Inr:
  assumes main: "set_main_transaction env xid xs st lsn page = Inr p1" and page: "pages pageno = Some page"
    and on: "\<forall>x \<in> set xs. TransactionIdToPage x = pageno"
    and xid: "TransactionIdIsValid xid \<Longrightarrow> TransactionIdToPage xid = pageno"
  shows "clog_status (pages(pageno \<mapsto> p1)) = main_update env xid (set xs) st (clog_status pages)"
proof (cases "TransactionIdIsValid xid")
  case True
  then obtain p0 where p0: "(if st = CLOG_XID_STATUS_COMMITTED
                   then for_each (CLogSetStatusBit env CLOG_XID_STATUS_SUB_COMMITTED lsn) xs page
                   else Inr page) = Inr p0" and b: "CLogSetStatusBit env st lsn xid p0 = Inr p1"
    using main by (auto simp: set_main_transaction_def result_bind_Inr_iff)
  have "clog_status (pages(pageno \<mapsto> p0)) = (if st = CLOG_XID_STATUS_COMMITTED
            then upd_status env CLOG_XID_STATUS_SUB_COMMITTED (set xs) (clog_status pages) else clog_status pages)"
    using p0 lift_page [of pages pageno page env CLOG_XID_STATUS_SUB_COMMITTED lsn xs p0] page on
    by (auto split: if_splits simp: fun_upd_idem)
  then show ?thesis using lift_bit [OF _ b xid [OF True], of "pages(pageno \<mapsto> p0)"] True
    by (simp add: main_update_def)
next
  case False
  then show ?thesis using main page by (auto simp: set_main_transaction_def main_update_def fun_upd_idem)
qed

lemma CLogSetPageStatusInternal_Inr:
  assumes "CLogSetPageStatusInternal env xid xs st lsn pageno pages = Inr pages'"
    and on: "\<forall>x \<in> set xs. TransactionIdToPage x = pageno"
    and xid: "TransactionIdIsValid xid \<Longrightarrow> TransactionIdToPage xid = pageno"
  shows "clog_status pages' = upd_status env st (set xs) (main_update env xid (set xs) st (clog_status pages))"
    and "dom pages' = dom pages"
proof -
  obtain page p1 p2 where page: "pages pageno = Some page"
    and p1: "set_main_transaction env xid xs st lsn page = Inr p1"
    and p2: "for_each (CLogSetStatusBit env st lsn) xs p1 = Inr p2" and p': "pages' = pages(pageno \<mapsto> p2)"
    using assms(1)
    by (auto simp: CLogSetPageStatusInternal_def result_bind_Inr_iff split: option.splits if_splits)
  show "dom pages' = dom pages" using p' page by auto
  show "clog_status pages' = upd_status env st (set xs) (main_update env xid (set xs) st (clog_status pages))"
    using lift_page [of "pages(pageno \<mapsto> p1)" pageno p1, OF _ p2 on]
      set_main_transaction_Inr [of env xid xs st lsn page p1 pages pageno, OF p1 page on xid] p' by simp
qed

definition allowed :: "CLogXidStatus \<Rightarrow> CLogXidStatus \<Rightarrow> bool" where
  "allowed st cur \<longleftrightarrow> cur = CLOG_XID_STATUS_IN_PROGRESS \<or> cur = CLOG_XID_STATUS_SUB_COMMITTED \<or> cur = st \<or>
     (cur = CLOG_XID_STATUS_COMMITTED \<and> st = CLOG_XID_STATUS_SUB_COMMITTED)"

lemma allowed_next: "allowed st cur \<Longrightarrow> st \<noteq> CLOG_XID_STATUS_IN_PROGRESS \<Longrightarrow> next_status env st cur \<noteq> None"
  by (auto simp: allowed_def next_status_def)

lemma allowed_sub_commit:
  "allowed CLOG_XID_STATUS_COMMITTED cur \<Longrightarrow>
   \<exists>s. next_status env CLOG_XID_STATUS_SUB_COMMITTED cur = Some s \<and> allowed CLOG_XID_STATUS_COMMITTED s"
  by (auto simp: allowed_def next_status_def)

lemma allowed_stays:
  "allowed st cur \<Longrightarrow> st \<noteq> CLOG_XID_STATUS_IN_PROGRESS \<Longrightarrow> next_status env st cur = Some s \<Longrightarrow> allowed st s"
  by (auto simp: allowed_def next_status_def split: if_splits)

lemma allowed_after:
  assumes "for_each (CLogSetStatusBit env st' lsn) xs page = Inr page'"
    and "\<forall>x \<in> set xs. TransactionIdToPage x = pageno" and "TransactionIdToPage y = pageno"
    and "allowed st (page_status page y)"
    and "\<And>cur s. allowed st cur \<Longrightarrow> next_status env st' cur = Some s \<Longrightarrow> allowed st s"
  shows "allowed st (page_status page' y)"
  using for_each_page [OF assms(1,2)] assms(3-) by (auto simp: upd_status_def split: if_splits)

lemma commit_stays:
  "allowed CLOG_XID_STATUS_COMMITTED cur \<Longrightarrow>
   next_status env CLOG_XID_STATUS_SUB_COMMITTED cur = Some s \<Longrightarrow> allowed CLOG_XID_STATUS_COMMITTED s"
  using allowed_sub_commit [of cur env] by auto

lemma sub_pass_ok:
  assumes on: "\<forall>x \<in> set xs. TransactionIdToPage x = pageno"
    and xid: "TransactionIdToPage xid = pageno"
    and al: "\<forall>x \<in> insert xid (set xs). allowed st (page_status page x)"
  shows "\<exists>p0. (if st = CLOG_XID_STATUS_COMMITTED
            then for_each (CLogSetStatusBit env CLOG_XID_STATUS_SUB_COMMITTED lsn) xs page
            else Inr page) = Inr p0 \<and> (\<forall>x \<in> insert xid (set xs). allowed st (page_status p0 x))"
proof (cases "st = CLOG_XID_STATUS_COMMITTED")
  case c: True
  obtain p0 where p0: "for_each (CLogSetStatusBit env CLOG_XID_STATUS_SUB_COMMITTED lsn) xs page = Inr p0"
    using for_each_page_ok [of xs pageno env CLOG_XID_STATUS_SUB_COMMITTED page lsn] on al c allowed_sub_commit
    by (metis insert_iff option.distinct(1))
  have "allowed st (page_status p0 x)" if "x \<in> insert xid (set xs)" for x
    by (rule allowed_after [OF p0 on]) (use that on xid al c commit_stays in auto)
  then show ?thesis using p0 c by simp
qed (use al in auto)

lemma set_main_transaction_ok:
  assumes st: "st \<noteq> CLOG_XID_STATUS_IN_PROGRESS"
    and on: "\<forall>x \<in> set xs. TransactionIdToPage x = pageno"
    and xid: "TransactionIdIsValid xid \<Longrightarrow> TransactionIdToPage xid = pageno \<and> allowed st (page_status page xid)"
    and al: "\<forall>x \<in> set xs. allowed st (page_status page x)"
  shows "\<exists>p1. set_main_transaction env xid xs st lsn page = Inr p1 \<and> (\<forall>x \<in> set xs. allowed st (page_status p1 x))"
proof (cases "TransactionIdIsValid xid")
  case True
  then obtain p0 where p0: "(if st = CLOG_XID_STATUS_COMMITTED
          then for_each (CLogSetStatusBit env CLOG_XID_STATUS_SUB_COMMITTED lsn) xs page
          else Inr page) = Inr p0" and a0: "\<forall>x \<in> insert xid (set xs). allowed st (page_status p0 x)"
    using sub_pass_ok [OF on, of xid st page env lsn] xid al by auto
  obtain p1 where p1: "for_each (CLogSetStatusBit env st lsn) [xid] p0 = Inr p1"
    using for_each_page_ok [of "[xid]" pageno env st p0 lsn] xid [OF True] a0 allowed_next [OF _ st] by auto
  have "allowed st (page_status p1 x)" if "x \<in> set xs" for x
    by (rule allowed_after [OF p1, of pageno]) (use that on xid [OF True] a0 allowed_stays [OF _ st] in auto)
  then show ?thesis using True p0 p1 by (auto simp: set_main_transaction_def result_bind_Inr_iff)
qed (use al in \<open>auto simp: set_main_transaction_def\<close>)

lemma CLogSetPageStatusInternal_ok:
  assumes st: "st = CLOG_XID_STATUS_COMMITTED \<or> st = CLOG_XID_STATUS_ABORTED \<or>
      (st = CLOG_XID_STATUS_SUB_COMMITTED \<and> \<not> TransactionIdIsValid xid)"
    and page: "pages pageno = Some page"
    and on: "\<forall>x \<in> set xs. TransactionIdToPage x = pageno"
    and xid: "TransactionIdIsValid xid \<Longrightarrow> TransactionIdToPage xid = pageno \<and> allowed st (page_status page xid)"
    and al: "\<forall>x \<in> set xs. allowed st (page_status page x)"
  shows "\<exists>pages'. CLogSetPageStatusInternal env xid xs st lsn pageno pages = Inr pages'"
proof -
  have st0: "st \<noteq> CLOG_XID_STATUS_IN_PROGRESS" using st by auto
  obtain p1 where p1: "set_main_transaction env xid xs st lsn page = Inr p1"
    and a1: "\<forall>x \<in> set xs. allowed st (page_status p1 x)"
    using set_main_transaction_ok [OF st0 on xid al] by blast
  obtain p2 where "for_each (CLogSetStatusBit env st lsn) xs p1 = Inr p2"
    using for_each_page_ok [of xs pageno env st p1 lsn] on a1 allowed_next [OF _ st0] by auto
  then show ?thesis using p1 page st
    unfolding CLogSetPageStatusInternal_def by (simp add: page)
qed

section \<open>Several pages\<close>

declare set_by_pages_loop.simps [simp del]

lemma upd_status_union: "upd_status env st X (upd_status env st Y m) = upd_status env st (X \<union> Y) m"
proof
  fix x
  show "upd_status env st X (upd_status env st Y m) x = upd_status env st (X \<union> Y) m x"
    by (cases "m x"; cases "next_status env st (the (m x))")
      (auto simp: upd_status_def next_status_idem)
qed

lemma upd_status_empty [simp]: "upd_status env st {} m = m"
  by (simp add: upd_status_def)

lemma num_on_page_take: "x \<in> set (take (num_on_page pageno xs) xs) \<Longrightarrow> TransactionIdToPage x = pageno"
  by (induction xs) (auto split: if_splits)

lemma CLogSetPageStatus_sub:
  "CLogSetPageStatus env xid xs st lsn pageno False ctl =
     result_bind (CLogSetPageStatusInternal env xid xs st lsn pageno (slru ctl))
       (\<lambda>pages. Inr (release_lock ctl pages))"
  by (simp add: CLogSetPageStatus_def Let_def)

lemma release_lock_simps [simp]:
  "slru (release_lock ctl pages) = pages" "released (release_lock ctl pages) = released ctl @ [pages]"
  by (simp_all add: release_lock_def)

text \<open>Every state a run shows lies between its first and its last one, transaction by transaction.\<close>

definition shown_between :: "clog_ctl \<Rightarrow> clog_ctl \<Rightarrow> bool" where
  "shown_between ctl ctl' \<longleftrightarrow>
     (\<exists>ps. released ctl' = released ctl @ ps \<and>
        (\<forall>p \<in> set ps. \<forall>x. clog_status p x = clog_status (slru ctl) x \<or> clog_status p x = clog_status (slru ctl') x))"

lemma shown_between_refl [simp]: "shown_between ctl ctl"
  by (simp add: shown_between_def)

lemma shown_between_step:
  assumes "shown_between (release_lock ctl pages) ctl'"
    and "\<And>x. clog_status pages x = clog_status (slru ctl) x \<or> clog_status pages x = clog_status (slru ctl') x"
  shows "shown_between ctl ctl'"
proof -
  obtain ps where ps: "released ctl' = released ctl @ pages # ps"
    and b: "\<forall>p \<in> set ps. \<forall>x. clog_status p x = clog_status pages x \<or> clog_status p x = clog_status (slru ctl') x"
    using assms(1) by (auto simp: shown_between_def)
  have "clog_status p x = clog_status (slru ctl) x \<or> clog_status p x = clog_status (slru ctl') x"
    if "p \<in> set (pages # ps)" for p x
    using that b assms(2) [of x] by (metis set_ConsD)
  then show ?thesis using ps unfolding shown_between_def by blast
qed

lemma set_by_pages_loop_Inr:
  assumes "set_by_pages_loop env st lsn pageno xs ctl = Inr ctl'"
  shows "clog_status (slru ctl') = upd_status env st (set xs) (clog_status (slru ctl)) \<and>
         dom (slru ctl') = dom (slru ctl) \<and> shown_between ctl ctl'"
  using assms
proof (induction env st lsn pageno xs ctl rule: set_by_pages_loop.induct)
  case (1 env st lsn pageno xs ctl)
  show ?case
  proof (cases "xs = []")
    case True
    then show ?thesis using 1 by (simp add: set_by_pages_loop.simps)
  next
    case False
    define n where "n = num_on_page pageno xs"
    define q where "q = (if n < length xs then TransactionIdToPage (xs ! n) else pageno)"
    obtain pages where p: "CLogSetPageStatusInternal env InvalidTransactionId (take n xs) st lsn pageno (slru ctl) = Inr pages"
      and r: "set_by_pages_loop env st lsn q (drop n xs) (release_lock ctl pages) = Inr ctl'"
      using "1.prems" False
      by (subst (asm) set_by_pages_loop.simps)
        (auto simp: Let_def n_def [symmetric] q_def [symmetric] CLogSetPageStatus_sub result_bind_Inr_iff)
    have on: "\<forall>x \<in> set (take n xs). TransactionIdToPage x = pageno"
      using num_on_page_take n_def by blast
    have c: "clog_status pages = upd_status env st (set (take n xs)) (clog_status (slru ctl))"
      and d: "dom pages = dom (slru ctl)"
      using CLogSetPageStatusInternal_Inr [OF p on]
      by (auto simp: TransactionIdIsValid_def main_update_def)
    have IH: "clog_status (slru ctl') = upd_status env st (set (drop n xs)) (clog_status pages) \<and>
         dom (slru ctl') = dom pages \<and> shown_between (release_lock ctl pages) ctl'"
      using "1.IH" [OF False n_def q_def, of "release_lock ctl pages"] r by simp
    have u: "set (drop n xs) \<union> set (take n xs) = set xs" by (metis append_take_drop_id set_append sup_commute)
    have fin: "clog_status (slru ctl') = upd_status env st (set xs) (clog_status (slru ctl))"
      using IH c upd_status_union u by simp
    have "clog_status pages x = clog_status (slru ctl) x \<or> clog_status pages x = clog_status (slru ctl') x" for x
      using c fin u by (auto simp: upd_status_def)
    then show ?thesis using fin IH d shown_between_step by auto
  qed
qed

definition all_allowed :: "CLogXidStatus \<Rightarrow> TransactionId set \<Rightarrow> clog_pages \<Rightarrow> bool" where
  "all_allowed st X pages \<longleftrightarrow> (\<forall>x \<in> X. \<exists>s. clog_status pages x = Some s \<and> allowed st s)"

lemma all_allowed_subset: "all_allowed st X pages \<Longrightarrow> Y \<subseteq> X \<Longrightarrow> all_allowed st Y pages"
  by (auto simp: all_allowed_def)

lemma all_allowed_upd:
  assumes "all_allowed st X pages" and "clog_status pages' = upd_status env st' Y (clog_status pages)"
    and "\<And>cur. allowed st cur \<Longrightarrow> \<exists>s. next_status env st' cur = Some s \<and> allowed st s"
  shows "all_allowed st X pages'"
  unfolding all_allowed_def
proof
  fix x assume "x \<in> X"
  then obtain c where "clog_status pages x = Some c" "allowed st c" using assms(1) by (auto simp: all_allowed_def)
  then show "\<exists>s. clog_status pages' x = Some s \<and> allowed st s"
    using assms(2) assms(3) [of c] by (auto simp: upd_status_def)
qed

lemma allowed_total:
  "allowed st cur \<Longrightarrow> st \<noteq> CLOG_XID_STATUS_IN_PROGRESS \<Longrightarrow> \<exists>s. next_status env st cur = Some s \<and> allowed st s"
  using allowed_next allowed_stays by (metis not_None_eq)

lemma Internal_ok:
  assumes st: "st = CLOG_XID_STATUS_COMMITTED \<or> st = CLOG_XID_STATUS_ABORTED \<or>
      (st = CLOG_XID_STATUS_SUB_COMMITTED \<and> \<not> TransactionIdIsValid xid)"
    and on: "\<forall>x \<in> set xs. TransactionIdToPage x = pageno"
    and xid: "TransactionIdIsValid xid \<Longrightarrow> TransactionIdToPage xid = pageno \<and> all_allowed st {xid} pages"
    and al: "all_allowed st (set xs) pages" and ex: "TransactionIdIsValid xid \<or> xs \<noteq> []"
  shows "\<exists>pages'. CLogSetPageStatusInternal env xid xs st lsn pageno pages = Inr pages'"
proof -
  have "\<exists>page. pages pageno = Some page"
  proof (cases "TransactionIdIsValid xid")
    case True
    then show ?thesis using xid by (auto simp: all_allowed_def clog_status_def)
  next
    case False
    then have "hd xs \<in> set xs" using ex by simp
    then show ?thesis using al on by (auto simp: all_allowed_def clog_status_def dest!: bspec)
  qed
  then obtain page where page: "pages pageno = Some page" by blast
  show ?thesis
  proof (rule CLogSetPageStatusInternal_ok [of st xid pages pageno page xs, OF st page on])
    assume v: "TransactionIdIsValid xid"
    show "TransactionIdToPage xid = pageno \<and> allowed st (page_status page xid)"
      using xid [OF v] page by (auto simp: all_allowed_def clog_status_def)
  next
    show "\<forall>x \<in> set xs. allowed st (page_status page x)"
      using al on page by (fastforce simp: all_allowed_def clog_status_def)
  qed
qed

lemma num_on_page_pos: "xs \<noteq> [] \<Longrightarrow> TransactionIdToPage (hd xs) = pageno \<Longrightarrow> 0 < num_on_page pageno xs"
  by (cases xs) auto

lemma set_by_pages_loop_ok:
  assumes "st \<noteq> CLOG_XID_STATUS_IN_PROGRESS" and "all_allowed st (set xs) (slru ctl)"
    and "xs \<noteq> [] \<Longrightarrow> TransactionIdToPage (hd xs) = pageno"
  shows "\<exists>ctl'. set_by_pages_loop env st lsn pageno xs ctl = Inr ctl'"
  using assms
proof (induction env st lsn pageno xs ctl rule: set_by_pages_loop.induct)
  case (1 env st lsn pageno xs ctl)
  show ?case
  proof (cases "xs = []")
    case True
    then show ?thesis by (simp add: set_by_pages_loop.simps)
  next
    case False
    define n where "n = num_on_page pageno xs"
    define q where "q = (if n < length xs then TransactionIdToPage (xs ! n) else pageno)"
    have n: "0 < n" using False "1.prems"(3) num_on_page_pos n_def by blast
    have on: "\<forall>x \<in> set (take n xs). TransactionIdToPage x = pageno"
      using num_on_page_take n_def by blast
    have sub: "set (take n xs) \<subseteq> set xs" "set (drop n xs) \<subseteq> set xs"
      by (auto dest: in_set_takeD in_set_dropD)
    have st: "st = CLOG_XID_STATUS_COMMITTED \<or> st = CLOG_XID_STATUS_ABORTED \<or>
      (st = CLOG_XID_STATUS_SUB_COMMITTED \<and> \<not> TransactionIdIsValid InvalidTransactionId)"
      using "1.prems"(1) by (cases st) (auto simp: TransactionIdIsValid_def)
    obtain pages where p: "CLogSetPageStatusInternal env InvalidTransactionId (take n xs) st lsn pageno (slru ctl) = Inr pages"
      using Internal_ok [OF st on, of "slru ctl" env lsn] n False all_allowed_subset [OF "1.prems"(2) sub(1)]
      by (auto simp: TransactionIdIsValid_def)
    have c: "clog_status pages = upd_status env st (set (take n xs)) (clog_status (slru ctl))"
      using CLogSetPageStatusInternal_Inr [OF p on] by (auto simp: TransactionIdIsValid_def main_update_def)
    have "all_allowed st (set xs) pages"
      using all_allowed_upd [OF "1.prems"(2) c] allowed_total "1.prems"(1) by blast
    then have "all_allowed st (set (drop n xs)) (slru (release_lock ctl pages))"
      using sub(2) all_allowed_subset by simp
    moreover have "drop n xs \<noteq> [] \<Longrightarrow> TransactionIdToPage (hd (drop n xs)) = q"
      by (simp add: q_def hd_drop_conv_nth)
    ultimately have "\<exists>ctl'. set_by_pages_loop env st lsn q (drop n xs) (release_lock ctl pages) = Inr ctl'"
      using "1.IH" [OF False n_def q_def] "1.prems"(1) by blast
    then show ?thesis using False p
      by (subst set_by_pages_loop.simps)
        (simp add: Let_def n_def [symmetric] q_def [symmetric] CLogSetPageStatus_sub)
  qed
qed

end
