(* ===== verification/Commit_Log_Properties.thy ===== *)
theory Commit_Log_Properties
  imports Commit_Log
begin

text \<open>
  What the commit log promises: a tree of transactions gets its status as a whole
  and nothing else changes, other threads never see a subtransaction committed before its
  parent, a final status is never lost, trimming forgets exactly the transactions that were
  not assigned, and the group update serves every member.
\<close>

section \<open>Trees of transactions\<close>

definition final_status :: "CLogXidStatus \<Rightarrow> bool" where
  "final_status st \<longleftrightarrow> st = CLOG_XID_STATUS_COMMITTED \<or> st = CLOG_XID_STATUS_ABORTED"

definition on_page :: "TransactionId \<Rightarrow> TransactionId list \<Rightarrow> TransactionId list" where
  "on_page xid xs = take (num_on_page (TransactionIdToPage xid) xs) xs"

definition off_page :: "TransactionId \<Rightarrow> TransactionId list \<Rightarrow> TransactionId list" where
  "off_page xid xs = drop (num_on_page (TransactionIdToPage xid) xs) xs"

lemma on_off_page: "set (on_page xid xs) \<union> set (off_page xid xs) = set xs"
  by (metis append_take_drop_id on_page_def off_page_def set_append)

text \<open>The thread updates the log itself, rather than through the leader of a group.\<close>

definition own_path :: "clog_env \<Rightarrow> TransactionId \<Rightarrow> TransactionId list \<Rightarrow> bool" where
  "own_path env xid xs \<longleftrightarrow>
     \<not> (off_page xid xs = [] \<and> xid = pgxact_xid env \<and> length xs \<le> THRESHOLD_SUBTRANS_CLOG_OPT \<and>
        xs = proc_subxids env \<and> \<not> control_lock_free env \<and> clogGroup env \<noteq> None)"

lemma CLogSetPageStatus_own:
  "own_path env xid xs \<Longrightarrow> off_page xid xs = [] \<Longrightarrow> CLogSetPageStatus env xid xs st lsn pageno b ctl =
     result_bind (CLogSetPageStatusInternal env xid xs st lsn pageno (slru ctl))
       (\<lambda>pages. Inr (release_lock ctl pages))"
  by (auto simp: CLogSetPageStatus_def own_path_def Let_def)

lemma set_status_by_pages_Nil [simp]: "set_status_by_pages env [] st lsn ctl = Inr ctl"
  by (simp add: set_status_by_pages_def set_by_pages_loop.simps)

lemma CLogSetTreeStatus_stages:
  assumes "own_path env xid xs" and "final_status st"
  shows "CLogSetTreeStatus env xid xs st lsn ctl =
     result_bind
       (if st = CLOG_XID_STATUS_COMMITTED
        then set_status_by_pages env (off_page xid xs) CLOG_XID_STATUS_SUB_COMMITTED lsn ctl else Inr ctl)
       (\<lambda>ctl. result_bind
          (CLogSetPageStatusInternal env xid (on_page xid xs) st lsn (TransactionIdToPage xid) (slru ctl))
          (\<lambda>pages. set_status_by_pages env (off_page xid xs) st lsn (release_lock ctl pages)))"
proof (cases "num_on_page (TransactionIdToPage xid) xs = length xs")
  case True
  then have off: "off_page xid xs = []" and "on_page xid xs = xs" by (auto simp: off_page_def on_page_def)
  then show ?thesis using assms True
    by (simp add: CLogSetTreeStatus_def Let_def final_status_def CLogSetPageStatus_own)
next
  case False
  then show ?thesis using assms
    by (simp add: CLogSetTreeStatus_def Let_def final_status_def on_page_def off_page_def
        CLogSetPageStatus_sub result_bind_assoc)
qed

text \<open>The statuses after each of the three stages of a commit.\<close>

lemma CLogSetTreeStatus_Inr:
  assumes own: "own_path env xid xs" and st: "final_status st"
    and run: "CLogSetTreeStatus env xid xs st lsn ctl = Inr ctl'"
  obtains c1 pages where
    "clog_status (slru c1) = (if st = CLOG_XID_STATUS_COMMITTED
       then upd_status env CLOG_XID_STATUS_SUB_COMMITTED (set (off_page xid xs)) (clog_status (slru ctl))
       else clog_status (slru ctl))"
    "shown_between ctl c1"
    "clog_status pages = upd_status env st (set (on_page xid xs))
       (main_update env xid (set (on_page xid xs)) st (clog_status (slru c1)))"
    "clog_status (slru ctl') = upd_status env st (set (off_page xid xs)) (clog_status pages)"
    "shown_between (release_lock c1 pages) ctl'"
    "dom (slru ctl') = dom (slru ctl)"
proof -
  obtain c1 pages where s1: "(if st = CLOG_XID_STATUS_COMMITTED
        then set_status_by_pages env (off_page xid xs) CLOG_XID_STATUS_SUB_COMMITTED lsn ctl else Inr ctl) = Inr c1"
    and s2: "CLogSetPageStatusInternal env xid (on_page xid xs) st lsn (TransactionIdToPage xid) (slru c1) = Inr pages"
    and s3: "set_status_by_pages env (off_page xid xs) st lsn (release_lock c1 pages) = Inr ctl'"
    using run unfolding CLogSetTreeStatus_stages [OF own st] by (auto simp: result_bind_Inr_iff)
  have on: "\<forall>x \<in> set (on_page xid xs). TransactionIdToPage x = TransactionIdToPage xid"
    unfolding on_page_def using num_on_page_take by blast
  note i = CLogSetPageStatusInternal_Inr [OF s2 on]
  note l = set_by_pages_loop_Inr [OF s3 [unfolded set_status_by_pages_def]]
  have 1: "clog_status (slru c1) = (if st = CLOG_XID_STATUS_COMMITTED
       then upd_status env CLOG_XID_STATUS_SUB_COMMITTED (set (off_page xid xs)) (clog_status (slru ctl))
       else clog_status (slru ctl)) \<and> shown_between ctl c1 \<and> dom (slru c1) = dom (slru ctl)"
  proof (cases "st = CLOG_XID_STATUS_COMMITTED")
    case True
    then show ?thesis using s1 set_by_pages_loop_Inr by (fastforce simp: set_status_by_pages_def)
  next
    case False
    then show ?thesis using s1 by simp
  qed
  show thesis
    by (rule that [of c1 pages]) (use 1 i l in auto)
qed

lemma tree_final_status:
  assumes "own_path env xid xs" and "final_status st" and "TransactionIdIsValid xid"
    and "CLogSetTreeStatus env xid xs st lsn ctl = Inr ctl'" and "\<not> SS_STANDBY_MODE env"
    and "clog_status (slru ctl) x \<noteq> None"
  shows "clog_status (slru ctl') x = (if x \<in> set (xid # xs) then Some st else clog_status (slru ctl) x)"
proof -
  obtain c1 :: clog_ctl and pages where c1: "clog_status (slru c1) = (if st = CLOG_XID_STATUS_COMMITTED
       then upd_status env CLOG_XID_STATUS_SUB_COMMITTED (set (off_page xid xs)) (clog_status (slru ctl))
       else clog_status (slru ctl))"
    and pg: "clog_status pages = upd_status env st (set (on_page xid xs))
       (main_update env xid (set (on_page xid xs)) st (clog_status (slru c1)))"
    and fin: "clog_status (slru ctl') = upd_status env st (set (off_page xid xs)) (clog_status pages)"
    and d: "dom (slru ctl') = dom (slru ctl)"
    by (rule CLogSetTreeStatus_Inr [OF assms(1,2,4)]) blast
  have some: "clog_status (slru ctl') x \<noteq> None"
    using d assms(6) by (auto simp: clog_status_def dom_def set_eq_iff)
  have st: "s = st" if "next_status env st c = Some s" for c s
    using that assms(2,5) by (auto simp: next_status_def final_status_def split: if_splits)
  show ?thesis
  proof (cases "x \<in> set (xid # xs)")
    case True
    then consider "x \<in> set (off_page xid xs)" | "x \<in> set (on_page xid xs)" "x \<notin> set (off_page xid xs)"
      | "x = xid" "x \<notin> set (on_page xid xs)" "x \<notin> set (off_page xid xs)"
      using on_off_page [of xid xs] by auto
    then show ?thesis
      by cases (use True some fin pg assms(3) st in \<open>auto simp: upd_status_def main_update_def bind_eq_Some_conv\<close>)
  next
    case False
    then have "x \<notin> set (off_page xid xs)" "x \<notin> set (on_page xid xs)" "x \<noteq> xid"
      using on_off_page [of xid xs] by auto
    then show ?thesis using False fin pg c1 by (auto simp: upd_status_def main_update_def)
  qed
qed

lemma set_status_by_pages_ok:
  assumes "st \<noteq> CLOG_XID_STATUS_IN_PROGRESS" "all_allowed st (set xs) (slru ctl)"
  shows "\<exists>ctl'. set_status_by_pages env xs st lsn ctl = Inr ctl'"
  unfolding set_status_by_pages_def by (rule set_by_pages_loop_ok [OF assms]) simp

lemma stage_subcommit_ok:
  assumes al: "all_allowed st (set (xid # xs)) (slru ctl)"
  shows "\<exists>c1. (if st = CLOG_XID_STATUS_COMMITTED
        then set_status_by_pages env (off_page xid xs) CLOG_XID_STATUS_SUB_COMMITTED lsn ctl else Inr ctl) = Inr c1 \<and>
      all_allowed st (set (xid # xs)) (slru c1)"
proof (cases "st = CLOG_XID_STATUS_COMMITTED")
  case True
  have "all_allowed CLOG_XID_STATUS_SUB_COMMITTED (set (off_page xid xs)) (slru ctl)"
    using al on_off_page [of xid xs] True by (fastforce simp: all_allowed_def allowed_def)
  then obtain c1 where c1: "set_status_by_pages env (off_page xid xs) CLOG_XID_STATUS_SUB_COMMITTED lsn ctl = Inr c1"
    using set_status_by_pages_ok [of CLOG_XID_STATUS_SUB_COMMITTED] by blast
  then have "clog_status (slru c1) =
      upd_status env CLOG_XID_STATUS_SUB_COMMITTED (set (off_page xid xs)) (clog_status (slru ctl))"
    using set_by_pages_loop_Inr by (simp add: set_status_by_pages_def)
  then have "all_allowed st (set (xid # xs)) (slru c1)"
    using all_allowed_upd [OF al] allowed_sub_commit True by blast
  then show ?thesis using c1 True by simp
qed (use al in simp)

lemma all_allowed_main:
  assumes st: "st \<noteq> CLOG_XID_STATUS_IN_PROGRESS" and al: "all_allowed st X pages"
    and c: "clog_status pages' = upd_status env st Y (main_update env xid Y st (clog_status pages))"
  shows "all_allowed st X pages'"
  unfolding all_allowed_def
proof
  fix x assume "x \<in> X"
  then obtain s where s: "clog_status pages x = Some s" "allowed st s"
    using al by (auto simp: all_allowed_def)
  have "\<exists>s0. (if st = CLOG_XID_STATUS_COMMITTED
      then upd_status env CLOG_XID_STATUS_SUB_COMMITTED Y (clog_status pages)
      else clog_status pages) x = Some s0 \<and> allowed st s0"
    using s allowed_sub_commit [of s env] by (auto simp: upd_status_def)
  then obtain s0 where s0: "(if st = CLOG_XID_STATUS_COMMITTED
      then upd_status env CLOG_XID_STATUS_SUB_COMMITTED Y (clog_status pages)
      else clog_status pages) x = Some s0" "allowed st s0" by blast
  have "\<exists>s1. main_update env xid Y st (clog_status pages) x = Some s1 \<and> allowed st s1"
    using s s0 allowed_total [OF s0(2) st, of env]
    by (auto simp: main_update_def upd_status_def split: if_splits)
  then obtain s1 where "main_update env xid Y st (clog_status pages) x = Some s1" "allowed st s1" by blast
  then show "\<exists>s. clog_status pages' x = Some s \<and> allowed st s"
    using allowed_total [OF _ st, of s1 env] unfolding c upd_status_def by auto
qed

lemma tree_runs:
  assumes own: "own_path env xid xs" and st: "final_status st" and v: "TransactionIdIsValid xid"
    and al: "all_allowed st (set (xid # xs)) (slru ctl)"
  shows "\<exists>ctl'. CLogSetTreeStatus env xid xs st lsn ctl = Inr ctl'"
proof -
  have st0: "st \<noteq> CLOG_XID_STATUS_IN_PROGRESS" using st by (auto simp: final_status_def)
  have sub: "set (off_page xid xs) \<subseteq> set (xid # xs)" "set (on_page xid xs) \<subseteq> set (xid # xs)" "{xid} \<subseteq> set (xid # xs)"
    using on_off_page [of xid xs] by auto
  obtain c1 where c1: "(if st = CLOG_XID_STATUS_COMMITTED
        then set_status_by_pages env (off_page xid xs) CLOG_XID_STATUS_SUB_COMMITTED lsn ctl else Inr ctl) = Inr c1"
    and a1: "all_allowed st (set (xid # xs)) (slru c1)" using stage_subcommit_ok [OF al] by blast
  have on: "\<forall>x \<in> set (on_page xid xs). TransactionIdToPage x = TransactionIdToPage xid"
    unfolding on_page_def using num_on_page_take by blast
  have "\<exists>pages. CLogSetPageStatusInternal env xid (on_page xid xs) st lsn (TransactionIdToPage xid) (slru c1) = Inr pages"
    by (rule Internal_ok) (use st v on all_allowed_subset [OF a1] sub in \<open>auto simp: final_status_def\<close>)
  then obtain pages where p: "CLogSetPageStatusInternal env xid (on_page xid xs) st lsn (TransactionIdToPage xid) (slru c1) = Inr pages"
    by blast
  have "all_allowed st (set (off_page xid xs)) (slru (release_lock c1 pages))"
    using all_allowed_main [OF st0 all_allowed_subset [OF a1 sub(1)]] CLogSetPageStatusInternal_Inr [OF p on] by simp
  then obtain ctl' where "set_status_by_pages env (off_page xid xs) st lsn (release_lock c1 pages) = Inr ctl'"
    using set_status_by_pages_ok [OF st0] by blast
  then show ?thesis unfolding CLogSetTreeStatus_stages [OF own st] c1 by (simp add: p)
qed

section \<open>Final statuses are kept\<close>

lemma dom_status: "dom pages' = dom pages \<Longrightarrow> clog_status pages' x = None \<longleftrightarrow> clog_status pages x = None"
  by (metis clog_status_def domIff option.map_disc_iff)

lemma upd_final_kept:
  assumes "final_status st" "final_status f" "m x = Some f" "upd_status env st X m x \<noteq> None"
  shows "upd_status env st X m x = Some f"
  using assms by (auto simp: upd_status_def next_status_def final_status_def split: if_splits)

lemma upd_commit_kept:
  assumes "m x = Some s" "s = CLOG_XID_STATUS_COMMITTED \<or> (s = CLOG_XID_STATUS_SUB_COMMITTED \<and> x \<in> X \<and> \<not> SS_STANDBY_MODE env)"
  shows "upd_status env CLOG_XID_STATUS_COMMITTED X m x = Some CLOG_XID_STATUS_COMMITTED"
  using assms by (auto simp: upd_status_def next_status_def split: if_splits)

lemma upd_sub_final:
  assumes "final_status f" "m x = Some f" "upd_status env CLOG_XID_STATUS_SUB_COMMITTED X m x \<noteq> None"
  shows "upd_status env CLOG_XID_STATUS_SUB_COMMITTED X m x = Some f \<or>
     (f = CLOG_XID_STATUS_COMMITTED \<and> x \<in> X \<and> \<not> SS_STANDBY_MODE env \<and>
      upd_status env CLOG_XID_STATUS_SUB_COMMITTED X m x = Some CLOG_XID_STATUS_SUB_COMMITTED)"
  using assms by (auto simp: upd_status_def next_status_def final_status_def split: if_splits)

lemma upd_SomeD: "upd_status env st X m x \<noteq> None \<Longrightarrow> m x \<noteq> None"
  by (cases "m x") (auto simp: upd_status_def split: if_splits)

lemma main_SomeD: "main_update env xid X st m x \<noteq> None \<Longrightarrow> m x \<noteq> None"
  by (cases "m x"; cases "st = CLOG_XID_STATUS_COMMITTED"; cases "TransactionIdIsValid xid")
    (auto simp: main_update_def upd_status_def split: if_splits)

lemma upd_commit_sub:
  "m x = Some CLOG_XID_STATUS_SUB_COMMITTED \<Longrightarrow>
   upd_status env CLOG_XID_STATUS_COMMITTED X m x \<in>
     {Some CLOG_XID_STATUS_SUB_COMMITTED, Some CLOG_XID_STATUS_COMMITTED}"
  by (auto simp: upd_status_def next_status_def)

lemma main_final_kept:
  assumes st: "final_status st" and f: "final_status f" and m: "m x = Some f" and v: "TransactionIdIsValid xid"
    and some: "upd_status env st X (main_update env xid X st m) x \<noteq> None"
  shows "upd_status env st X (main_update env xid X st m) x = Some f"
proof (cases "st = CLOG_XID_STATUS_COMMITTED")
  case False
  let ?m1 = "upd_status env st {xid} m"
  have e: "main_update env xid X st m = ?m1" using False v by (simp add: main_update_def)
  have "?m1 x \<noteq> None" using some unfolding e by (rule upd_SomeD)
  then have "?m1 x = Some f" by (rule upd_final_kept [where m=m, OF st f m])
  then show ?thesis using upd_final_kept [where m="?m1", OF st f] some unfolding e by blast
next
  case c: True
  let ?m1 = "upd_status env CLOG_XID_STATUS_SUB_COMMITTED X m"
  let ?m2 = "upd_status env st {xid} ?m1"
  have e: "main_update env xid X st m = ?m2" using c v by (simp add: main_update_def)
  have n2: "?m2 x \<noteq> None" using some unfolding e by (rule upd_SomeD)
  have n: "?m1 x \<noteq> None" using n2 by (rule upd_SomeD)
  show ?thesis
  proof (cases "?m1 x = Some f")
    case True
    then have "?m2 x = Some f" using upd_final_kept [where m="?m1", OF st f] n2 by blast
    then show ?thesis using upd_final_kept [where m="?m2", OF st f] some unfolding e by blast
  next
    case False
    then have r: "f = CLOG_XID_STATUS_COMMITTED" "x \<in> X" "\<not> SS_STANDBY_MODE env"
      "?m1 x = Some CLOG_XID_STATUS_SUB_COMMITTED"
      using upd_sub_final [where m=m, OF f m n] by auto
    then have "?m2 x = Some CLOG_XID_STATUS_SUB_COMMITTED \<or> ?m2 x = Some CLOG_XID_STATUS_COMMITTED"
      using upd_commit_sub [where m="?m1" and X="{xid}" and env=env] c by auto
    then show ?thesis using upd_commit_kept [of ?m2 x _ X env] r c e by auto
  qed
qed

lemma CLogSetPageStatusInternal_kept:
  assumes "CLogSetPageStatusInternal env xid xs st lsn pageno pages = Inr pages'"
    and "\<forall>x \<in> set xs. TransactionIdToPage x = pageno" and "TransactionIdToPage xid = pageno"
    and "TransactionIdIsValid xid" "final_status st" "final_status f" "clog_status pages x = Some f"
  shows "clog_status pages' x = Some f"
proof -
  note i = CLogSetPageStatusInternal_Inr [OF assms(1,2,3)]
  have "clog_status pages' x \<noteq> None" using dom_status [OF i(2)] assms(7) by simp
  then show ?thesis using main_final_kept [where m="clog_status pages", OF assms(5-7,4)] i(1) by simp
qed

lemma CLogSetPageStatusInternal_sets:
  assumes "CLogSetPageStatusInternal env xid xs st lsn pageno pages = Inr pages'"
    and "\<forall>x \<in> set xs. TransactionIdToPage x = pageno" and "TransactionIdToPage xid = pageno"
    and "TransactionIdIsValid xid" "final_status st" "\<not> SS_STANDBY_MODE env"
    and "x \<in> set (xid # xs)" "clog_status pages x \<noteq> None"
  shows "clog_status pages' x = Some st"
proof -
  note i = CLogSetPageStatusInternal_Inr [OF assms(1,2,3)]
  have some: "clog_status pages' x \<noteq> None" using dom_status [OF i(2)] assms(8) by simp
  have st: "s = st" if "next_status env st c = Some s" for c s
    using that assms(5,6) by (auto simp: next_status_def final_status_def split: if_splits)
  consider "x \<in> set xs" | "x = xid" "x \<notin> set xs" using assms(7) by auto
  then show ?thesis
    by cases (use some i(1) assms(4) st in \<open>auto simp: upd_status_def main_update_def bind_eq_Some_conv\<close>)
qed

lemma tree_own_kept:
  assumes own: "own_path env xid xs" and st: "final_status st" and v: "TransactionIdIsValid xid"
    and run: "CLogSetTreeStatus env xid xs st lsn ctl = Inr ctl'"
    and f: "final_status f" and x: "clog_status (slru ctl) x = Some f"
  shows "clog_status (slru ctl') x = Some f"
proof -
  obtain c1 :: clog_ctl and pages where c1: "clog_status (slru c1) = (if st = CLOG_XID_STATUS_COMMITTED
       then upd_status env CLOG_XID_STATUS_SUB_COMMITTED (set (off_page xid xs)) (clog_status (slru ctl))
       else clog_status (slru ctl))"
    and pg: "clog_status pages = upd_status env st (set (on_page xid xs))
       (main_update env xid (set (on_page xid xs)) st (clog_status (slru c1)))"
    and fin: "clog_status (slru ctl') = upd_status env st (set (off_page xid xs)) (clog_status pages)"
    and d: "dom (slru ctl') = dom (slru ctl)"
    by (rule CLogSetTreeStatus_Inr [OF own st run]) blast
  have some: "clog_status (slru ctl') x \<noteq> None" using dom_status [OF d] x by simp
  have n2: "clog_status pages x \<noteq> None" using some unfolding fin by (rule upd_SomeD)
  have n1: "clog_status (slru c1) x \<noteq> None"
    using main_SomeD [OF upd_SomeD [OF n2 [unfolded pg]]] .
  show ?thesis
  proof (cases "clog_status (slru c1) x = Some f")
    case True
    then have "clog_status pages x = Some f"
      using main_final_kept [where m="clog_status (slru c1)", OF st f _ v] n2 unfolding pg by blast
    then show ?thesis using upd_final_kept [where m="clog_status pages", OF st f] some unfolding fin by blast
  next
    case False
    then have st2: "st = CLOG_XID_STATUS_COMMITTED" using c1 x by metis
    then have r: "f = CLOG_XID_STATUS_COMMITTED" "x \<in> set (off_page xid xs)" "\<not> SS_STANDBY_MODE env"
      using upd_sub_final [where m="clog_status (slru ctl)", OF f x] n1 False c1 by auto
    then have "clog_status (slru ctl') x = Some st"
      using tree_final_status [OF own st v run] x on_off_page [of xid xs] by auto
    then show ?thesis using r st2 by simp
  qed
qed

section \<open>Finishing transactions\<close>

text \<open>A request to record the outcome of a transaction tree, and the thread that makes it.\<close>

record finish_request =
  req_env :: clog_env
  req_xid :: TransactionId
  req_subxids :: "TransactionId list"
  req_status :: CLogXidStatus
  req_lsn :: XLogRecPtr

definition record_outcome :: "finish_request \<Rightarrow> clog_ctl \<Rightarrow> clog_error + clog_ctl" where
  "record_outcome r = CLogSetTreeStatus (req_env r) (req_xid r) (req_subxids r) (req_status r) (req_lsn r)"

definition own_member :: "finish_request \<Rightarrow> group_member" where
  "own_member r = \<lparr>clogGroupMemberXid = req_xid r, clogGroupMemberSubxids = req_subxids r,
     clogGroupMemberXidStatus = req_status r, clogGroupMemberLsn = req_lsn r,
     clogGroupMemberPage = TransactionIdToPage (req_xid r)\<rparr>"

definition member_ok :: "group_member \<Rightarrow> bool" where
  "member_ok m \<longleftrightarrow> final_status (clogGroupMemberXidStatus m) \<and> TransactionIdIsValid (clogGroupMemberXid m) \<and>
     (\<forall>x \<in> set (clogGroupMemberXid m # clogGroupMemberSubxids m). TransactionIdToPage x = clogGroupMemberPage m)"

text \<open>
  A request as the callers make it: a final status for a valid transaction, on a server that
  may write the log; when the update is done by a group leader, the list it walks has the
  member of this request.
\<close>

definition request_ok :: "finish_request \<Rightarrow> bool" where
  "request_ok r \<longleftrightarrow> final_status (req_status r) \<and> TransactionIdIsValid (req_xid r) \<and>
     \<not> SS_STANDBY_MODE (req_env r) \<and>
     (case clogGroup (req_env r) of None \<Rightarrow> True
      | Some ms \<Rightarrow> list_all member_ok ms \<and> own_member r \<in> set ms)"

lemma walk_group_Cons:
  "walk_group env (m # ms) pages =
     result_bind (CLogSetPageStatusInternal env (clogGroupMemberXid m) (clogGroupMemberSubxids m)
       (clogGroupMemberXidStatus m) (clogGroupMemberLsn m) (clogGroupMemberPage m) pages) (walk_group env ms)"
  by (simp add: walk_group_def)

lemma walk_group_kept:
  assumes "walk_group env ms pages = Inr pages'" and "list_all member_ok ms"
    and "final_status f" and "clog_status pages x = Some f"
  shows "clog_status pages' x = Some f"
  using assms
proof (induction ms arbitrary: pages)
  case Nil
  then show ?case by (simp add: walk_group_def)
next
  case (Cons m ms)
  then obtain p1 where p1: "CLogSetPageStatusInternal env (clogGroupMemberXid m) (clogGroupMemberSubxids m)
       (clogGroupMemberXidStatus m) (clogGroupMemberLsn m) (clogGroupMemberPage m) pages = Inr p1"
    and r: "walk_group env ms p1 = Inr pages'"
    by (auto simp: walk_group_Cons result_bind_Inr_iff)
  have "clog_status p1 x = Some f"
    by (rule CLogSetPageStatusInternal_kept [OF p1]) (use Cons.prems in \<open>auto simp: member_ok_def\<close>)
  then show ?case using Cons.IH [OF r] Cons.prems by simp
qed

lemma CLogSetPageStatusInternal_dom:
  "CLogSetPageStatusInternal env xid xs st lsn pageno pages = Inr pages' \<Longrightarrow> dom pages' = dom pages"
  by (auto simp: CLogSetPageStatusInternal_def result_bind_Inr_iff split: option.splits if_splits)

lemma walk_group_sets:
  assumes "walk_group env ms pages = Inr pages'" and "list_all member_ok ms" and "m \<in> set ms"
    and "\<not> SS_STANDBY_MODE env" "x \<in> set (clogGroupMemberXid m # clogGroupMemberSubxids m)"
    and "clog_status pages x \<noteq> None"
  shows "clog_status pages' x = Some (clogGroupMemberXidStatus m)"
  using assms
proof (induction ms arbitrary: pages)
  case (Cons a ms)
  then obtain p1 where p1: "CLogSetPageStatusInternal env (clogGroupMemberXid a) (clogGroupMemberSubxids a)
       (clogGroupMemberXidStatus a) (clogGroupMemberLsn a) (clogGroupMemberPage a) pages = Inr p1"
    and r: "walk_group env ms p1 = Inr pages'"
    by (auto simp: walk_group_Cons result_bind_Inr_iff)
  show ?case
  proof (cases "m = a")
    case True
    have "clog_status p1 x = Some (clogGroupMemberXidStatus m)"
      unfolding True
      by (rule CLogSetPageStatusInternal_sets [OF p1]) (use Cons.prems True in \<open>auto simp: member_ok_def\<close>)
    moreover have "list_all member_ok ms" "final_status (clogGroupMemberXidStatus m)"
      using Cons.prems(2) True by (simp_all add: member_ok_def [of a])
    ultimately show ?thesis using walk_group_kept [OF r] by blast
  next
    case False
    have "clog_status p1 x \<noteq> None"
      using dom_status [OF CLogSetPageStatusInternal_dom [OF p1]] Cons.prems(6) by simp
    then show ?thesis using Cons.IH [OF r] Cons.prems False by auto
  qed
qed simp

lemma record_outcome_group:
  assumes "record_outcome r ctl = Inr ctl'" and "request_ok r"
    and "\<not> own_path (req_env r) (req_xid r) (req_subxids r)"
  obtains ms where "clogGroup (req_env r) = Some ms" "walk_group (req_env r) ms (slru ctl) = Inr (slru ctl')"
proof -
  obtain ms where ms: "clogGroup (req_env r) = Some ms" "\<not> control_lock_free (req_env r)"
    and p: "off_page (req_xid r) (req_subxids r) = []" "req_xid r = pgxact_xid (req_env r)"
      "length (req_subxids r) \<le> THRESHOLD_SUBTRANS_CLOG_OPT" "req_subxids r = proc_subxids (req_env r)"
    using assms(3) by (auto simp: own_path_def)
  have "num_on_page (TransactionIdToPage (req_xid r)) (req_subxids r) = length (req_subxids r)"
    using p(1) num_on_page_le by (auto simp: off_page_def le_antisym)
  then have "walk_group (req_env r) ms (slru ctl) = Inr (slru ctl')"
    using assms(1,2) ms p(2-)
    by (auto simp: record_outcome_def CLogSetTreeStatus_def CLogSetPageStatus_def Let_def request_ok_def
        final_status_def result_bind_Inr_iff)
  then show thesis using that ms by blast
qed

lemma record_outcome_kept:
  assumes run: "record_outcome r ctl = Inr ctl'" and ok: "request_ok r"
    and f: "final_status f" and x: "clog_status (slru ctl) x = Some f"
  shows "clog_status (slru ctl') x = Some f"
proof (cases "own_path (req_env r) (req_xid r) (req_subxids r)")
  case True
  then show ?thesis using tree_own_kept [OF True _ _ _ f x] run ok
    by (auto simp: record_outcome_def request_ok_def)
next
  case False
  show ?thesis by (rule record_outcome_group [OF run ok False])
      (use walk_group_kept ok f x in \<open>auto simp: request_ok_def\<close>)
qed

lemma record_outcome_sets:
  assumes run: "record_outcome r ctl = Inr ctl'" and ok: "request_ok r"
    and x: "x \<in> set (req_xid r # req_subxids r)" and some: "clog_status (slru ctl) x \<noteq> None"
  shows "clog_status (slru ctl') x = Some (req_status r)"
proof (cases "own_path (req_env r) (req_xid r) (req_subxids r)")
  case True
  then show ?thesis using tree_final_status [OF True _ _ _ _ some] run ok x
    by (auto simp: record_outcome_def request_ok_def)
next
  case False
  show ?thesis
  proof (rule record_outcome_group [OF run ok False])
    fix ms assume ms: "clogGroup (req_env r) = Some ms" and w: "walk_group (req_env r) ms (slru ctl) = Inr (slru ctl')"
    have "clog_status (slru ctl') x = Some (clogGroupMemberXidStatus (own_member r))"
      by (rule walk_group_sets [OF w]) (use ok ms x some in \<open>auto simp: request_ok_def own_member_def\<close>)
    then show ?thesis by (simp add: own_member_def)
  qed
qed

lemma walk_group_dom: "walk_group env ms pages = Inr pages' \<Longrightarrow> dom pages' = dom pages"
proof (induction ms arbitrary: pages)
  case (Cons m ms)
  obtain p1 where p1: "CLogSetPageStatusInternal env (clogGroupMemberXid m) (clogGroupMemberSubxids m)
       (clogGroupMemberXidStatus m) (clogGroupMemberLsn m) (clogGroupMemberPage m) pages = Inr p1"
    and r: "walk_group env ms p1 = Inr pages'"
    using Cons.prems by (auto simp: walk_group_Cons result_bind_Inr_iff)
  show ?case using Cons.IH [OF r] CLogSetPageStatusInternal_dom [OF p1] by simp
qed (simp add: walk_group_def)

lemma record_outcome_dom:
  assumes run: "record_outcome r ctl = Inr ctl'" and ok: "request_ok r"
  shows "dom (slru ctl') = dom (slru ctl)"
proof (cases "own_path (req_env r) (req_xid r) (req_subxids r)")
  case True
  have f: "final_status (req_status r)" using ok by (simp add: request_ok_def)
  show ?thesis by (rule CLogSetTreeStatus_Inr [OF True f run [unfolded record_outcome_def]])
next
  case False
  show ?thesis by (rule record_outcome_group [OF run ok False]) (use walk_group_dom in blast)
qed

section \<open>The interface to the status of transactions\<close>

text \<open>
  What the users of the log rely on: finishing a transaction tree gives all of it the
  requested outcome, and no later request changes the outcome of a transaction.
\<close>

locale status_log =
  fixes good :: "'r \<Rightarrow> bool"
    and tree :: "'r \<Rightarrow> TransactionId set"
    and outcome :: "'r \<Rightarrow> CLogXidStatus"
    and status :: "'s \<Rightarrow> TransactionId \<Rightarrow> CLogXidStatus option"
    and finish :: "'r \<Rightarrow> 's \<Rightarrow> 'e + 's"
  assumes outcome_final: "good r \<Longrightarrow> final_status (outcome r)"
    and finish_sets: "finish r s = Inr s' \<Longrightarrow> good r \<Longrightarrow> x \<in> tree r \<Longrightarrow> status s x \<noteq> None \<Longrightarrow>
          status s' x = Some (outcome r)"
    and finish_kept: "finish r s = Inr s' \<Longrightarrow> good r \<Longrightarrow> final_status f \<Longrightarrow> status s x = Some f \<Longrightarrow>
          status s' x = Some f"
    and finish_known: "finish r s = Inr s' \<Longrightarrow> good r \<Longrightarrow> status s' x = None \<longleftrightarrow> status s x = None"
begin

lemma history_kept:
  "for_each finish rs s = Inr s' \<Longrightarrow> list_all good rs \<Longrightarrow> final_status f \<Longrightarrow> status s x = Some f \<Longrightarrow>
   status s' x = Some f"
proof (induction rs arbitrary: s)
  case (Cons r rs)
  then obtain s1 where "finish r s = Inr s1" "for_each finish rs s1 = Inr s'"
    by (auto simp: result_bind_Inr_iff)
  then show ?case using Cons finish_kept by auto
qed simp

lemma history_sets:
  "for_each finish rs s = Inr s' \<Longrightarrow> list_all good rs \<Longrightarrow> r \<in> set rs \<Longrightarrow> x \<in> tree r \<Longrightarrow> status s x \<noteq> None \<Longrightarrow>
   status s' x = Some (outcome r)"
proof (induction rs arbitrary: s)
  case (Cons a rs)
  then obtain s1 where s1: "finish a s = Inr s1" "for_each finish rs s1 = Inr s'"
    by (auto simp: result_bind_Inr_iff)
  show ?case
  proof (cases "r = a")
    case True
    then have "status s1 x = Some (outcome r)" using finish_sets [OF s1(1)] Cons.prems by auto
    moreover have "final_status (outcome r)" using outcome_final Cons.prems True by auto
    ultimately show ?thesis using history_kept [OF s1(2)] Cons.prems by auto
  next
    case False
    moreover have "status s1 x \<noteq> None" using finish_known [OF s1(1)] Cons.prems by auto
    ultimately show ?thesis using Cons.IH [OF s1(2)] Cons.prems by auto
  qed
qed simp

lemma history_agrees:
  assumes "for_each finish rs s = Inr s'" "list_all good rs" "r1 \<in> set rs" "r2 \<in> set rs"
    and "x \<in> tree r1" "x \<in> tree r2" "status s x \<noteq> None"
  shows "outcome r1 = outcome r2"
  using history_sets [OF assms(1,2,3,5,7)] history_sets [OF assms(1,2,4,6,7)] by simp

end

definition request_tree :: "finish_request \<Rightarrow> TransactionId set" where
  "request_tree r = set (req_xid r # req_subxids r)"

interpretation clog: status_log request_ok request_tree req_status "\<lambda>ctl. clog_status (slru ctl)" record_outcome
proof unfold_locales
  show "final_status (req_status r)" if "request_ok r" for r
    using that by (simp add: request_ok_def)
  show "clog_status (slru ctl') x = Some (req_status r)"
    if "record_outcome r ctl = Inr ctl'" "request_ok r" "x \<in> request_tree r" "clog_status (slru ctl) x \<noteq> None"
    for r ctl ctl' x
    using record_outcome_sets that unfolding request_tree_def by blast
  show "clog_status (slru ctl') x = Some f"
    if "record_outcome r ctl = Inr ctl'" "request_ok r" "final_status f" "clog_status (slru ctl) x = Some f"
    for r ctl ctl' x f
    using record_outcome_kept that by blast
  show "(clog_status (slru ctl') x = None) = (clog_status (slru ctl) x = None)"
    if "record_outcome r ctl = Inr ctl'" "request_ok r" for r ctl ctl' x
    using dom_status [OF record_outcome_dom [OF that]] .
qed

text \<open>Recording an outcome, seen from the users of the log.\<close>

lemma clog_tree_sets:
  assumes "final_status st" "TransactionIdIsValid xid" "\<not> SS_STANDBY_MODE env" "own_path env xid xs"
    and "\<forall>x \<in> set (xid # xs). \<exists>s. clog_status (slru ctl) x = Some s \<and> allowed st s"
  shows "\<exists>ctl'. CLogSetTreeStatus env xid xs st lsn ctl = Inr ctl' \<and>
     (\<forall>x. clog_status (slru ctl') x = (if x \<in> set (xid # xs) then Some st else clog_status (slru ctl) x))"
proof -
  obtain ctl' where run: "CLogSetTreeStatus env xid xs st lsn ctl = Inr ctl'"
    using tree_runs [OF assms(4,1,2)] assms(5) unfolding all_allowed_def by blast
  have "dom (slru ctl') = dom (slru ctl)" by (rule CLogSetTreeStatus_Inr [OF assms(4,1) run])
  note none = dom_status [OF this]
  have "clog_status (slru ctl') x = (if x \<in> set (xid # xs) then Some st else clog_status (slru ctl) x)" for x
  proof (cases "clog_status (slru ctl) x")
    case None
    then show ?thesis using none [of x] assms(5) by (auto dest: bspec [of _ _ x])
  next
    case (Some s)
    then show ?thesis using tree_final_status [OF assms(4,1,2) run assms(3), of x] by simp
  qed
  then show ?thesis using run by blast
qed

section \<open>Properties\<close>

definition blank_page :: clog_page where
  "blank_page = \<lparr>page_buffer = (\<lambda>_. 0), group_lsn = (\<lambda>_. 0)\<rparr>"

definition blank_clog :: "nat \<Rightarrow> clog_ctl" where
  "blank_clog n = \<lparr>slru = (\<lambda>i. if i < n then Some blank_page else None), released = [],
     latest_page_number = (\<lambda>_. 0), force_check_first_xid = (\<lambda>_. False)\<rparr>"

definition plain_env :: clog_env where
  "plain_env = \<lparr>InRecovery = False, SS_STANDBY_MODE = False, pgxact_xid = 100, proc_subxids = [],
     control_lock_free = True, clogGroup = None, ustore_verify_whitebox = False, NUM_CLOG_PARTITIONS = 256\<rparr>"

lemma blank_status: "TransactionIdToPage x < n \<Longrightarrow> clog_status (slru (blank_clog n)) x = Some CLOG_XID_STATUS_IN_PROGRESS"
  by (simp add: clog_status_def blank_clog_def page_status_def blank_page_def get2_def status_of_code_def)

lemma plain_own_path: "own_path plain_env xid xs"
  by (simp add: own_path_def plain_env_def)

text \<open>
  C10. Recording the outcome of a transaction tree: when no transaction of the tree has the
  opposite outcome, CLogSetTreeStatus returns, every transaction of the tree has the given
  status afterwards, on whatever page it lies, and the status of every other transaction is
  as before.
\<close>

theorem clog_tree_status:
  assumes "final_status st" "TransactionIdIsValid xid" "\<not> SS_STANDBY_MODE env" "own_path env xid xs"
    and "\<forall>x \<in> set (xid # xs). \<exists>s. clog_status (slru ctl) x = Some s \<and> allowed st s"
  shows "\<exists>ctl'. CLogSetTreeStatus env xid xs st lsn ctl = Inr ctl' \<and>
     (\<forall>x. clog_status (slru ctl') x = (if x \<in> set (xid # xs) then Some st else clog_status (slru ctl) x))"
  using clog_tree_sets [OF assms] .

theorem clog_tree_status_witness:
  "\<exists>ctl'. CLogSetTreeStatus plain_env 100 [101, 40000] CLOG_XID_STATUS_COMMITTED 7 (blank_clog 2) = Inr ctl' \<and>
     clog_status (slru ctl') 100 = Some CLOG_XID_STATUS_COMMITTED \<and>
     clog_status (slru ctl') 40000 = Some CLOG_XID_STATUS_COMMITTED \<and>
     clog_status (slru ctl') 102 = Some CLOG_XID_STATUS_IN_PROGRESS"
proof -
  have al: "\<forall>x \<in> set [100, 101, 40000 :: TransactionId]. \<exists>s.
      clog_status (slru (blank_clog 2)) x = Some s \<and> allowed CLOG_XID_STATUS_COMMITTED s"
    by (simp add: blank_status TransactionIdToPage_def clog_constants allowed_def)
  obtain ctl' where "CLogSetTreeStatus plain_env 100 [101, 40000] CLOG_XID_STATUS_COMMITTED 7 (blank_clog 2) = Inr ctl'"
    and x: "\<And>x. clog_status (slru ctl') x = (if x \<in> set [100, 101, 40000] then Some CLOG_XID_STATUS_COMMITTED
              else clog_status (slru (blank_clog 2)) x)"
    using clog_tree_status [of CLOG_XID_STATUS_COMMITTED 100 plain_env "[101, 40000]" "blank_clog 2" 7] al plain_own_path
    by (auto simp: final_status_def TransactionIdIsValid_def special_xids plain_env_def)
  moreover have "clog_status (slru (blank_clog 2)) 102 = Some CLOG_XID_STATUS_IN_PROGRESS"
    by (simp add: blank_status TransactionIdToPage_def clog_constants)
  ultimately show ?thesis by auto
qed

text \<open>
  C8. A commit is atomic for the other threads although it may touch several pages: in every
  state they can see while the tree commits, either the main transaction is committed and all its
  subtransactions are committed or subcommitted, or the main transaction is unchanged and
  none of them is committed yet.
\<close>

theorem clog_commit_atomic:
  assumes "TransactionIdIsValid xid" "\<not> SS_STANDBY_MODE env" "own_path env xid xs" "xid \<notin> set xs"
    and m0: "\<forall>x \<in> set (xid # xs). clog_status (slru ctl) x \<in>
          {Some CLOG_XID_STATUS_IN_PROGRESS, Some CLOG_XID_STATUS_SUB_COMMITTED}"
    and run: "CLogSetTreeStatus env xid xs CLOG_XID_STATUS_COMMITTED lsn ctl = Inr ctl'"
  shows "\<exists>ps. released ctl' = released ctl @ ps \<and> ps \<noteq> [] \<and>
     (\<forall>p \<in> set ps.
        (clog_status p xid = Some CLOG_XID_STATUS_COMMITTED \<and>
         (\<forall>x \<in> set xs. clog_status p x \<in> {Some CLOG_XID_STATUS_SUB_COMMITTED, Some CLOG_XID_STATUS_COMMITTED})) \<or>
        (clog_status p xid = clog_status (slru ctl) xid \<and>
         (\<forall>x \<in> set xs. clog_status p x \<noteq> Some CLOG_XID_STATUS_COMMITTED)))"
    (is "\<exists>ps. _ \<and> _ \<and> (\<forall>p \<in> set ps. ?after p \<or> ?before p)")
proof -
  let ?S = CLOG_XID_STATUS_SUB_COMMITTED and ?C = CLOG_XID_STATUS_COMMITTED
  have fin: "final_status ?C" by (simp add: final_status_def)
  obtain c1 :: clog_ctl and pages where
    c1: "clog_status (slru c1) = upd_status env ?S (set (off_page xid xs)) (clog_status (slru ctl))"
    and b1: "shown_between ctl c1"
    and pg: "clog_status pages = upd_status env ?C (set (on_page xid xs))
       (main_update env xid (set (on_page xid xs)) ?C (clog_status (slru c1)))"
    and fs: "clog_status (slru ctl') = upd_status env ?C (set (off_page xid xs)) (clog_status pages)"
    and b3: "shown_between (release_lock c1 pages) ctl'"
    by (rule CLogSetTreeStatus_Inr [OF assms(3) fin run]) (simp only: simp_thms if_True)
  obtain ps1 ps3 where ps: "released c1 = released ctl @ ps1" "released ctl' = released c1 @ pages # ps3"
    and q1: "\<forall>p \<in> set ps1. \<forall>x. clog_status p x = clog_status (slru ctl) x \<or> clog_status p x = clog_status (slru c1) x"
    and q3: "\<forall>p \<in> set ps3. \<forall>x. clog_status p x = clog_status pages x \<or> clog_status p x = clog_status (slru ctl') x"
    using b1 b3 by (auto simp: shown_between_def)
  note nx = next_status_def
  have m1: "clog_status (slru c1) x \<in> {clog_status (slru ctl) x, Some ?S}" if "x \<in> set xs" for x
    using m0 that assms(2) unfolding c1 upd_status_def by (auto simp: nx)
  have m1': "clog_status (slru c1) xid = clog_status (slru ctl) xid"
    using assms(4) on_off_page [of xid xs] unfolding c1 upd_status_def by auto
  have 1: "?before p" if "p \<in> set ps1" for p
    using q1 that m1 m1' m0 by (metis insertE list.set_intros(2) option.inject singletonD CLogXidStatus.distinct)
  have f: "clog_status (slru ctl') x = Some ?C" if "x \<in> set (xid # xs)" for x
    using tree_final_status [OF assms(3) fin assms(1) run assms(2), of x] m0 that by force
  have p0: "clog_status pages xid = Some ?C"
    using f [of xid] assms(4) on_off_page [of xid xs] unfolding fs upd_status_def by auto
  have p1: "clog_status pages x \<in> {Some ?S, Some ?C}" if x: "x \<in> set xs" for x
  proof (cases "x \<in> set (off_page xid xs)")
    case True
    then have "clog_status (slru c1) x = Some ?S"
      using m0 x assms(2) unfolding c1 upd_status_def by (auto simp: nx)
    then show ?thesis using assms(1,2,4) x unfolding pg main_update_def upd_status_def by (auto simp: nx)
  next
    case False
    then show ?thesis using f [of x] x unfolding fs upd_status_def by simp
  qed
  have 2: "?after p" if "p \<in> set (pages # ps3)" for p
  proof -
    have e: "clog_status p x = clog_status pages x \<or> clog_status p x = clog_status (slru ctl') x" for x
      using that q3 by auto
    show ?thesis
    proof (intro conjI ballI)
      show "clog_status p xid = Some ?C" using e [of xid] p0 f [of xid] by auto
      show "clog_status p x \<in> {Some ?S, Some ?C}" if "x \<in> set xs" for x
        using e [of x] p1 [OF that] f [of x] that by auto
    qed
  qed
  have "released ctl' = released ctl @ (ps1 @ pages # ps3)" using ps by simp
  moreover have "\<forall>p \<in> set (ps1 @ pages # ps3). ?after p \<or> ?before p" using 1 2 by auto
  ultimately show ?thesis by blast
qed

lemma blank_tree_runs:
  "\<exists>ctl'. CLogSetTreeStatus plain_env 100 [101, 40000] CLOG_XID_STATUS_COMMITTED 7 (blank_clog 2) = Inr ctl'"
proof (rule tree_runs [OF plain_own_path])
  show "all_allowed CLOG_XID_STATUS_COMMITTED (set [100, 101, 40000]) (slru (blank_clog 2))"
    by (auto simp: all_allowed_def allowed_def blank_status TransactionIdToPage_def clog_constants)
qed (auto simp: final_status_def TransactionIdIsValid_def special_xids)

theorem clog_commit_atomic_witness:
  "\<exists>ctl' p ps. CLogSetTreeStatus plain_env 100 [101, 40000] CLOG_XID_STATUS_COMMITTED 7 (blank_clog 2) = Inr ctl' \<and>
     released ctl' = p # ps \<and>
     \<not> (clog_status p 40000 = Some CLOG_XID_STATUS_COMMITTED \<and>
        clog_status p 100 = Some CLOG_XID_STATUS_IN_PROGRESS)"
proof -
  obtain ctl' where run: "CLogSetTreeStatus plain_env 100 [101, 40000] CLOG_XID_STATUS_COMMITTED 7 (blank_clog 2) = Inr ctl'"
    using blank_tree_runs by blast
  have "\<exists>ps. released ctl' = released (blank_clog 2) @ ps \<and> ps \<noteq> [] \<and>
     (\<forall>p \<in> set ps.
        (clog_status p 100 = Some CLOG_XID_STATUS_COMMITTED \<and>
         (\<forall>x \<in> set [101, 40000]. clog_status p x \<in> {Some CLOG_XID_STATUS_SUB_COMMITTED, Some CLOG_XID_STATUS_COMMITTED})) \<or>
        (clog_status p 100 = clog_status (slru (blank_clog 2)) 100 \<and>
         (\<forall>x \<in> set [101, 40000]. clog_status p x \<noteq> Some CLOG_XID_STATUS_COMMITTED)))"
    by (rule clog_commit_atomic [OF _ _ plain_own_path _ _ run])
      (auto simp: TransactionIdIsValid_def special_xids plain_env_def blank_status TransactionIdToPage_def clog_constants)
  then obtain p ps where e: "released ctl' = p # ps" and
    "clog_status p 100 = Some CLOG_XID_STATUS_COMMITTED \<or> clog_status p 40000 \<noteq> Some CLOG_XID_STATUS_COMMITTED"
    by (auto simp: blank_clog_def neq_Nil_conv)
  then have "\<not> (clog_status p 40000 = Some CLOG_XID_STATUS_COMMITTED \<and>
        clog_status p 100 = Some CLOG_XID_STATUS_IN_PROGRESS)" by auto
  then show ?thesis using run e by blast
qed

text \<open>
  C9. The outcome of a transaction is decided once. After any sequence of recorded trees
  that the log accepts, each transaction of each of them reads with the outcome it was given,
  whether its thread wrote the log itself or the leader of a group did.
\<close>

theorem clog_history_reads_back:
  assumes "for_each record_outcome rs ctl = Inr ctl'" and "list_all request_ok rs" and "r \<in> set rs"
    and "x \<in> set (req_xid r # req_subxids r)" and "clog_status (slru ctl) x \<noteq> None"
  shows "\<exists>lsn. CLogGetStatus (slru ctl') x = Inr (req_status r, lsn)"
proof -
  have "clog_status (slru ctl') x = Some (req_status r)"
    using clog.history_sets [OF assms(1-3)] assms(4,5) by (simp add: request_tree_def)
  then show ?thesis by (auto simp: CLogGetStatus_iff clog_status_def clog_lsn_def)
qed

definition plain_request :: "TransactionId \<Rightarrow> TransactionId list \<Rightarrow> CLogXidStatus \<Rightarrow> finish_request" where
  "plain_request xid xs st = \<lparr>req_env = plain_env, req_xid = xid, req_subxids = xs, req_status = st, req_lsn = 7\<rparr>"

lemma plain_request_ok: "final_status st \<Longrightarrow> xid \<noteq> 0 \<Longrightarrow> request_ok (plain_request xid xs st)"
  by (simp add: request_ok_def plain_request_def plain_env_def TransactionIdIsValid_def special_xids)

lemma blank_history_runs:
  "\<exists>ctl'. for_each record_outcome
     [plain_request 100 [101, 40000] CLOG_XID_STATUS_COMMITTED, plain_request 200 [] CLOG_XID_STATUS_ABORTED]
     (blank_clog 2) = Inr ctl'"
proof -
  obtain c1 where c1: "CLogSetTreeStatus plain_env 100 [101, 40000] CLOG_XID_STATUS_COMMITTED 7 (blank_clog 2) = Inr c1"
    using blank_tree_runs by blast
  have "clog_status (slru (blank_clog 2)) 200 = Some CLOG_XID_STATUS_IN_PROGRESS"
    by (simp add: blank_status TransactionIdToPage_def clog_constants)
  then have "clog_status (slru c1) 200 = Some CLOG_XID_STATUS_IN_PROGRESS"
    using tree_final_status [OF plain_own_path _ _ c1, of 200]
    by (simp add: final_status_def TransactionIdIsValid_def special_xids plain_env_def)
  then have "\<exists>ctl'. CLogSetTreeStatus plain_env 200 [] CLOG_XID_STATUS_ABORTED 7 c1 = Inr ctl'"
    by (intro tree_runs [OF plain_own_path])
      (auto simp: final_status_def TransactionIdIsValid_def special_xids all_allowed_def allowed_def)
  then show ?thesis using c1 by (auto simp: record_outcome_def plain_request_def)
qed

theorem clog_history_reads_back_witness:
  "\<exists>ctl' lsn. for_each record_outcome
     [plain_request 100 [101, 40000] CLOG_XID_STATUS_COMMITTED, plain_request 200 [] CLOG_XID_STATUS_ABORTED]
     (blank_clog 2) = Inr ctl' \<and> CLogGetStatus (slru ctl') 40000 = Inr (CLOG_XID_STATUS_COMMITTED, lsn)"
proof -
  let ?rs = "[plain_request 100 [101, 40000] CLOG_XID_STATUS_COMMITTED, plain_request 200 [] CLOG_XID_STATUS_ABORTED]"
  obtain ctl' where run: "for_each record_outcome ?rs (blank_clog 2) = Inr ctl'"
    using blank_history_runs by blast
  have "list_all request_ok ?rs" by (simp add: plain_request_ok final_status_def)
  moreover have "clog_status (slru (blank_clog 2)) 40000 \<noteq> None"
    by (simp add: blank_status TransactionIdToPage_def clog_constants)
  ultimately have "\<exists>lsn. CLogGetStatus (slru ctl') 40000 = Inr (req_status (hd ?rs), lsn)"
    using clog_history_reads_back [OF run, of "hd ?rs" 40000] by (simp add: plain_request_def)
  then show ?thesis using run by (simp add: plain_request_def)
qed

section \<open>Trimming\<close>

lemma get2_trim: "k < 4 \<Longrightarrow> get2 j (b AND (push_bit (k * 2) 1 - 1)) = (if j < k then get2 j b else 0)"
  unfolding push_bit_of_1 mask_eq_exp_minus_1 [symmetric]
  by (intro bit_eqI) (auto simp: bit_get2 bit_simps dest: bit_imp_le_length)

lemma less_div_mod_4: "(a :: nat) < b \<longleftrightarrow> a div 4 < b div 4 \<or> (a div 4 = b div 4 \<and> a mod 4 < b mod 4)"
proof -
  have "a = a div 4 * 4 + a mod 4" "b = b div 4 * 4 + b mod 4" "a mod 4 < 4" "b mod 4 < 4" by simp_all
  then show ?thesis by (cases "a div 4" "b div 4" rule: linorder_cases) linarith+
qed

lemma xid_position:
  assumes "TransactionIdToPage x = TransactionIdToPage y"
  shows "x < y \<longleftrightarrow> TransactionIdToByte x < TransactionIdToByte y \<or>
     (TransactionIdToByte x = TransactionIdToByte y \<and> TransactionIdToBIndex x < TransactionIdToBIndex y)"
proof -
  have b: "TransactionIdToByte z = unat z mod 32768 div 4" "TransactionIdToBIndex z = unat z mod 32768 mod 4" for z
    by (simp_all add: TransactionIdToByte_def TransactionIdToBIndex_def TransactionIdToPgIndex_def clog_constants
        mod_mod_cancel)
  have p: "unat x div 32768 = unat y div 32768"
    using assms by (simp add: TransactionIdToPage_def clog_constants)
  have "x < y \<longleftrightarrow> unat x < unat y" by (rule word_less_nat_alt)
  also have "\<dots> \<longleftrightarrow> unat x mod 32768 < unat y mod 32768"
    using p by (metis add_less_cancel_left div_mult_mod_eq)
  also have "\<dots> \<longleftrightarrow> unat x mod 32768 div 4 < unat y mod 32768 div 4 \<or>
     (unat x mod 32768 div 4 = unat y mod 32768 div 4 \<and> unat x mod 32768 mod 4 < unat y mod 32768 mod 4)"
    by (rule less_div_mod_4)
  finally show ?thesis by (simp add: b)
qed

text \<open>
  At the end of recovery TrimCLOG forgets exactly what was never assigned: on the page of
  the next transaction id, that id and everything after it reads as in progress, every
  smaller id keeps its status, and no other page changes.
\<close>

theorem trim_clog:
  assumes "\<not> ustore_verify_whitebox env" "\<not> SS_STANDBY_MODE env" and "TransactionIdToPgIndex nextXid \<noteq> 0"
    and "slru ctl (TransactionIdToPage nextXid) \<noteq> None"
  shows "\<exists>ctl'. TrimCLOG env nextXid ctl = Inr ctl' \<and>
     (\<forall>x. clog_status (slru ctl') x =
        (if TransactionIdToPage x = TransactionIdToPage nextXid \<and> nextXid \<le> x
         then Some CLOG_XID_STATUS_IN_PROGRESS else clog_status (slru ctl) x))"
proof -
  let ?n = nextXid
  obtain page where page: "slru ctl (TransactionIdToPage ?n) = Some page" using assms(4) by auto
  define buf where "buf = (page_buffer page)(TransactionIdToByte ?n := page_buffer page (TransactionIdToByte ?n) AND
     (push_bit (TransactionIdToBIndex ?n * 2) 1 - 1))"
  define new where "new = page\<lparr>page_buffer := \<lambda>i. if TransactionIdToByte ?n + 1 \<le> i \<and> i < BLCKSZ then 0 else buf i\<rparr>"
  have st: "page_status new x = (if ?n \<le> x then CLOG_XID_STATUS_IN_PROGRESS else page_status page x)"
    if "TransactionIdToPage x = TransactionIdToPage ?n" for x
    using xid_position [OF that] byte_in_page [of x]
    by (auto simp: page_status_def new_def buf_def not_less [symmetric] get2_trim status_of_code_def
        get2_def [of _ 0] simp del: push_bit_of_1)
  obtain ctl' where t: "TrimCLOG env ?n ctl = Inr ctl'"
    and s: "slru ctl' = (slru ctl)(TransactionIdToPage ?n \<mapsto> new)"
    unfolding new_def buf_def using assms page 
    by (auto simp: TrimCLOG_def Let_def CLOG_BITS_PER_XACT_def simp del: push_bit_of_1)
  have "clog_status (slru ctl') x =
        (if TransactionIdToPage x = TransactionIdToPage ?n \<and> ?n \<le> x
         then Some CLOG_XID_STATUS_IN_PROGRESS else clog_status (slru ctl) x)" for x
    using st [of x] page unfolding s by (auto simp: clog_status_def)
  then show ?thesis using t by blast
qed

theorem trim_clog_witness:
  "\<exists>ctl'. TrimCLOG plain_env 102 (blank_clog 1) = Inr ctl' \<and>
     clog_status (slru ctl') 103 = Some CLOG_XID_STATUS_IN_PROGRESS"
proof -
  have "TransactionIdToPgIndex 102 \<noteq> 0" "slru (blank_clog 1) (TransactionIdToPage 102) \<noteq> None"
    by (simp_all add: TransactionIdToPgIndex_def TransactionIdToPage_def clog_constants blank_clog_def)
  then have "\<exists>ctl'. TrimCLOG plain_env 102 (blank_clog 1) = Inr ctl' \<and>
     (\<forall>x. clog_status (slru ctl') x =
        (if TransactionIdToPage x = TransactionIdToPage 102 \<and> 102 \<le> x
         then Some CLOG_XID_STATUS_IN_PROGRESS else clog_status (slru (blank_clog 1)) x))"
    by (intro trim_clog) (auto simp: plain_env_def)
  then show ?thesis by (auto simp: TransactionIdToPage_def clog_constants)
qed

end
