(* ===== verification/Clog_Group.thy ===== *)
theory Clog_Group
  imports Commit_Log_Properties
begin

text \<open>
  The group update of the commit log, \<^verbatim>\<open>CLogGroupUpdateXidStatus\<close>, as a state machine over
  backends that run it concurrently. A backend reads \<^verbatim>\<open>clogGroupFirst\<close>, gives up when
  the backend it finds there updates another page, and otherwise tries to put itself in
  front by compare-and-exchange, starting over when the head has changed. Whoever found the
  list empty is the leader: under the control lock it takes the whole list, updates the log
  for each backend in it and wakes the others up, which sleep until then.
\<close>

datatype group_phase =
    Outside
  | Seen "nat option"        \<comment> \<open>has read clogGroupFirst\<close>
  | Waiting                  \<comment> \<open>sleeps on its semaphore\<close>
  | Leader                   \<comment> \<open>found the list empty\<close>
  | Walking "nat list"       \<comment> \<open>leader that has taken the list\<close>
  | Served                   \<comment> \<open>returned true\<close>
  | Refused                  \<comment> \<open>returned false\<close>

record group_state =
  gpages :: clog_pages
  clogGroupFirst :: "nat list"   \<comment> \<open>the list through clogGroupNext, head first\<close>
  gphase :: "nat \<Rightarrow> group_phase"

definition list_head :: "'a list \<Rightarrow> 'a option" where
  "list_head xs = (case xs of [] \<Rightarrow> None | x # _ \<Rightarrow> Some x)"

definition other_page :: "(nat \<Rightarrow> group_member) \<Rightarrow> nat \<Rightarrow> nat option \<Rightarrow> bool" where
  "other_page member p h \<longleftrightarrow>
     (case h of None \<Rightarrow> False | Some q \<Rightarrow> clogGroupMemberPage (member q) \<noteq> clogGroupMemberPage (member p))"

inductive group_step :: "clog_env \<Rightarrow> (nat \<Rightarrow> group_member) \<Rightarrow> group_state \<Rightarrow> group_state \<Rightarrow> bool"
  for env member where
  read_head:
    "gphase s p = Outside \<Longrightarrow>
     group_step env member s (s\<lparr>gphase := (gphase s)(p := Seen (list_head (clogGroupFirst s)))\<rparr>)"
| refuse:
    "gphase s p = Seen h \<Longrightarrow> other_page member p h \<Longrightarrow>
     group_step env member s (s\<lparr>gphase := (gphase s)(p := Refused)\<rparr>)"
| join:
    "gphase s p = Seen h \<Longrightarrow> \<not> other_page member p h \<Longrightarrow> list_head (clogGroupFirst s) = h \<Longrightarrow>
     group_step env member s
       (s\<lparr>clogGroupFirst := p # clogGroupFirst s,
          gphase := (gphase s)(p := (if h = None then Leader else Waiting))\<rparr>)"
| join_again:
    "gphase s p = Seen h \<Longrightarrow> \<not> other_page member p h \<Longrightarrow> list_head (clogGroupFirst s) \<noteq> h \<Longrightarrow>
     group_step env member s (s\<lparr>gphase := (gphase s)(p := Seen (list_head (clogGroupFirst s)))\<rparr>)"
| take_list:
    "gphase s p = Leader \<Longrightarrow>
     group_step env member s
       (s\<lparr>clogGroupFirst := [], gphase := (gphase s)(p := Walking (clogGroupFirst s))\<rparr>)"
| walk_list:
    "gphase s p = Walking ps \<Longrightarrow> walk_group env (map member ps) (gpages s) = Inr pages \<Longrightarrow>
     group_step env member s
       (s\<lparr>gpages := pages, gphase := (\<lambda>q. if q \<in> set ps then Served else gphase s q)\<rparr>)"

inductive_cases group_stepE: "group_step env member s s'"

inductive group_reachable :: "clog_env \<Rightarrow> (nat \<Rightarrow> group_member) \<Rightarrow> clog_pages \<Rightarrow> group_state \<Rightarrow> bool"
  for env member pages where
  start: "group_reachable env member pages \<lparr>gpages = pages, clogGroupFirst = [], gphase = (\<lambda>_. Outside)\<rparr>"
| step: "group_reachable env member pages s \<Longrightarrow> group_step env member s s' \<Longrightarrow> group_reachable env member pages s'"

definition member_tree :: "group_member \<Rightarrow> TransactionId set" where
  "member_tree m = set (clogGroupMemberXid m # clogGroupMemberSubxids m)"

text \<open>
  The structure of the waiting lists: the last backend of a non-empty list is its leader and
  there is no other leader; the backends a leader has taken sleep until it has served them; a
  backend is in one list only.
\<close>

definition lists_inv :: "group_state \<Rightarrow> bool" where
  "lists_inv s \<longleftrightarrow>
     (\<forall>q \<in> set (clogGroupFirst s). gphase s q = Waiting \<or> (gphase s q = Leader \<and> q = last (clogGroupFirst s))) \<and>
     (clogGroupFirst s \<noteq> [] \<longrightarrow> gphase s (last (clogGroupFirst s)) = Leader) \<and>
     (\<forall>q. gphase s q = Leader \<longrightarrow> q \<in> set (clogGroupFirst s))"

definition walkers_inv :: "group_state \<Rightarrow> bool" where
  "walkers_inv s \<longleftrightarrow>
     (\<forall>p ps. gphase s p = Walking ps \<longrightarrow>
        p \<in> set ps \<and> (\<forall>q \<in> set ps. q = p \<or> gphase s q = Waiting) \<and> set ps \<inter> set (clogGroupFirst s) = {} \<and>
        (\<forall>p' ps'. gphase s p' = Walking ps' \<longrightarrow> p \<noteq> p' \<longrightarrow> set ps \<inter> set ps' = {}))"

definition waiters_inv :: "group_state \<Rightarrow> bool" where
  "waiters_inv s \<longleftrightarrow>
     (\<forall>q. gphase s q = Waiting \<longrightarrow> q \<in> set (clogGroupFirst s) \<or> (\<exists>p ps. gphase s p = Walking ps \<and> q \<in> set ps))"

definition served_inv :: "(nat \<Rightarrow> group_member) \<Rightarrow> group_state \<Rightarrow> bool" where
  "served_inv member s \<longleftrightarrow>
     (\<forall>q. gphase s q = Served \<longrightarrow>
        (\<forall>x \<in> member_tree (member q). clog_status (gpages s) x = Some (clogGroupMemberXidStatus (member q))))"

lemma list_head_None [simp]: "list_head xs = None \<longleftrightarrow> xs = []"
  by (simp add: list_head_def split: list.splits)

lemma list_head_Some: "xs \<noteq> [] \<Longrightarrow> \<exists>y. list_head xs = Some y"
  by (simp add: list_head_def split: list.splits)

lemma leader_unique: "lists_inv s \<Longrightarrow> gphase s q = Leader \<Longrightarrow> q = last (clogGroupFirst s) \<and> q \<in> set (clogGroupFirst s)"
  unfolding lists_inv_def by (metis group_phase.distinct)

lemma walkerD:
  assumes "walkers_inv s" "gphase s p = Walking ps"
  shows "p \<in> set ps" "q \<in> set ps \<Longrightarrow> q \<noteq> p \<Longrightarrow> gphase s q = Waiting"
    and "q \<in> set ps \<Longrightarrow> q \<notin> set (clogGroupFirst s)"
    and "gphase s p' = Walking ps' \<Longrightarrow> p \<noteq> p' \<Longrightarrow> q \<in> set ps \<Longrightarrow> q \<notin> set ps'"
  using assms unfolding walkers_inv_def by blast+

lemma walkers_invI:
  assumes "\<And>p ps. gphase s p = Walking ps \<Longrightarrow> p \<in> set ps"
    and "\<And>p ps q. gphase s p = Walking ps \<Longrightarrow> q \<in> set ps \<Longrightarrow> q \<noteq> p \<Longrightarrow> gphase s q = Waiting"
    and "\<And>p ps q. gphase s p = Walking ps \<Longrightarrow> q \<in> set ps \<Longrightarrow> q \<notin> set (clogGroupFirst s)"
    and "\<And>p ps p' ps' q. gphase s p = Walking ps \<Longrightarrow> gphase s p' = Walking ps' \<Longrightarrow> p \<noteq> p' \<Longrightarrow> q \<in> set ps \<Longrightarrow> q \<notin> set ps'"
  shows "walkers_inv s"
  using assms unfolding walkers_inv_def by blast

lemma lists_inv_step:
  assumes "group_step env member s s'" and "lists_inv s" "walkers_inv s"
  shows "lists_inv s'"
  using assms
proof (induction rule: group_step.induct)
  case (join s p h)
  then show ?case using list_head_Some [of "clogGroupFirst s"] by (auto simp: lists_inv_def)
next
  case (take_list s p)
  then show ?case using leader_unique [OF take_list(2)] by (auto simp: lists_inv_def)
next
  case (walk_list s p ps pages)
  note w = walkerD(3) [OF walk_list(4,1)]
  have "q \<notin> set ps" if "gphase s q = Leader" for q
    using leader_unique [OF walk_list(3) that] w by blast
  then show ?case using walk_list(3) w unfolding lists_inv_def by auto
qed (auto simp: lists_inv_def)

lemma not_in_walk:
  "walkers_inv s \<Longrightarrow> gphase s p = Walking ps \<Longrightarrow> gphase s q \<noteq> Waiting \<Longrightarrow> q \<noteq> p \<Longrightarrow> q \<notin> set ps"
  using walkerD(2) by blast

lemma walkers_inv_update:
  assumes inv: "walkers_inv s" and p: "gphase s p \<noteq> Waiting" "\<And>ps. gphase s p \<noteq> Walking ps"
    and s': "gphase s' = (gphase s)(p := ph)" "\<And>ps. ph \<noteq> Walking ps"
    and f: "set (clogGroupFirst s') \<subseteq> insert p (set (clogGroupFirst s))"
  shows "walkers_inv s'"
proof -
  have old: "gphase s q = Walking ps \<and> p \<notin> set ps" if "gphase s' q = Walking ps" for q ps
  proof -
    have "q \<noteq> p" and w: "gphase s q = Walking ps" using that s' by (auto split: if_splits)
    then show ?thesis using not_in_walk [OF inv w p(1)] by blast
  qed
  show ?thesis
  proof (rule walkers_invI)
    fix q ps assume w': "gphase s' q = Walking ps"
    note w = old [OF w']
    show "q \<in> set ps" using walkerD(1) [OF inv] w by blast
    fix r assume r: "r \<in> set ps"
    then have "r \<noteq> p" using w by blast
    show "r \<noteq> q \<Longrightarrow> gphase s' r = Waiting" using walkerD(2) [OF inv] w r s' \<open>r \<noteq> p\<close> by auto
    show "r \<notin> set (clogGroupFirst s')" using walkerD(3) [OF inv] w r f \<open>r \<noteq> p\<close> by blast
    fix q' ps' assume "gphase s' q' = Walking ps'" "q \<noteq> q'"
    then show "r \<notin> set ps'" using walkerD(4) [OF inv] w r old by blast
  qed
qed

lemma walkers_inv_take:
  assumes inv: "walkers_inv s" and li: "lists_inv s" and p: "gphase s p = Leader"
  shows "walkers_inv (s\<lparr>clogGroupFirst := [], gphase := (gphase s)(p := Walking (clogGroupFirst s))\<rparr>)" (is "walkers_inv ?s")
proof -
  note u = leader_unique [OF li p]
  have old: "(q = p \<and> ps = clogGroupFirst s) \<or> (q \<noteq> p \<and> gphase s q = Walking ps)" if "gphase ?s q = Walking ps" for q ps
    using that by (auto split: if_splits)
  have fst: "gphase s r = Waiting" if "r \<in> set (clogGroupFirst s)" "r \<noteq> p" for r
    using li u that unfolding lists_inv_def by metis
  have np: "p \<notin> set ps" if "gphase s q = Walking ps" for q ps
    using not_in_walk [OF inv that, of p] p that by force
  show ?thesis
  proof (rule walkers_invI)
    fix q ps assume "gphase ?s q = Walking ps"
    note o = old [OF this]
    then show "q \<in> set ps" using u walkerD(1) [OF inv] by blast
    fix r assume r: "r \<in> set ps"
    show "r \<notin> set (clogGroupFirst ?s)" by simp
    show "gphase ?s r = Waiting" if "r \<noteq> q"
      using o that r fst walkerD(2) [OF inv] np by (cases "q = p") auto
    fix q' ps' assume "gphase ?s q' = Walking ps'" "q \<noteq> q'"
    then show "r \<notin> set ps'" using o old [of q' ps'] r walkerD(3,4) [OF inv] by blast
  qed
qed

lemma walkers_inv_step:
  assumes "group_step env member s s'" and "lists_inv s" "walkers_inv s"
  shows "walkers_inv s'"
  using assms
proof (induction rule: group_step.induct)
  case (take_list s p)
  then show ?case using walkers_inv_take by blast
next
  case (walk_list s p ps pages)
  let ?s = "s\<lparr>gpages := pages, gphase := \<lambda>q. if q \<in> set ps then Served else gphase s q\<rparr>"
  have old: "gphase s q = Walking qs \<and> q \<notin> set ps \<and> q \<noteq> p" if "gphase ?s q = Walking qs" for q qs
    using that walkerD(1) [OF walk_list(4,1)] by (auto split: if_splits)
  show ?case
  proof (rule walkers_invI)
    fix q qs assume "gphase ?s q = Walking qs"
    note o = old [OF this]
    show "q \<in> set qs" using o walkerD(1) [OF walk_list(4)] by blast
    fix r assume r: "r \<in> set qs"
    show "r \<notin> set (clogGroupFirst ?s)" using o r walkerD(3) [OF walk_list(4)] by auto
    show "gphase ?s r = Waiting" if "r \<noteq> q"
    proof -
      have "gphase s r = Waiting" using o r that walkerD(2) [OF walk_list(4)] by blast
      moreover have "r \<notin> set ps" using o r walkerD(4) [OF walk_list(4) _ walk_list(1)] by blast
      ultimately show ?thesis by simp
    qed
    fix q' qs' assume "gphase ?s q' = Walking qs'" "q \<noteq> q'"
    then show "r \<notin> set qs'" using o old [of q' qs'] r walkerD(4) [OF walk_list(4)] by blast
  qed
next
  case (join s p h)
  then show ?case by (intro walkers_inv_update [OF join(5), of p]) (auto split: if_splits)
next
  case (read_head s p)
  then show ?case by (intro walkers_inv_update [OF read_head(3), of p]) auto
next
  case (refuse s p h)
  then show ?case by (intro walkers_inv_update [OF refuse(4), of p]) auto
next
  case (join_again s p h)
  then show ?case by (intro walkers_inv_update [OF join_again(5), of p]) auto
qed

lemma waiters_inv_update:
  assumes inv: "waiters_inv s" and p: "\<And>ps. gphase s p \<noteq> Walking ps"
    and s': "gphase s' = (gphase s)(p := ph)" "ph = Waiting \<Longrightarrow> p \<in> set (clogGroupFirst s')"
    and f: "set (clogGroupFirst s) \<subseteq> set (clogGroupFirst s')"
  shows "waiters_inv s'"
  unfolding waiters_inv_def
proof (intro allI impI)
  fix q assume q: "gphase s' q = Waiting"
  show "q \<in> set (clogGroupFirst s') \<or> (\<exists>r ps. gphase s' r = Walking ps \<and> q \<in> set ps)"
  proof (cases "q = p")
    case True
    then show ?thesis using q s' by simp
  next
    case False
    then consider "q \<in> set (clogGroupFirst s)" | r ps where "gphase s r = Walking ps" "q \<in> set ps"
      using q s'(1) inv unfolding waiters_inv_def by auto
    then show ?thesis
    proof cases
      case (2 r ps)
      then have "gphase s' r = Walking ps" using p s'(1) by auto
      then show ?thesis using 2 by blast
    qed (use f in blast)
  qed
qed

lemma waiters_inv_step:
  assumes "group_step env member s s'" and "lists_inv s" "walkers_inv s" "waiters_inv s"
  shows "waiters_inv s'"
  using assms
proof (induction rule: group_step.induct)
  case (take_list s p)
  show ?case unfolding waiters_inv_def
  proof (intro allI impI disjI2)
    fix q assume "gphase (s\<lparr>clogGroupFirst := [], gphase := (gphase s)(p := Walking (clogGroupFirst s))\<rparr>) q = Waiting"
    then have "q \<noteq> p" "gphase s q = Waiting" by (auto split: if_splits)
    then consider "q \<in> set (clogGroupFirst s)" | r ps where "gphase s r = Walking ps" "q \<in> set ps"
      using take_list(4) unfolding waiters_inv_def by blast
    then show "\<exists>r ps. gphase (s\<lparr>clogGroupFirst := [], gphase := (gphase s)(p := Walking (clogGroupFirst s))\<rparr>) r = Walking ps \<and> q \<in> set ps"
    proof cases
      case 1
      then show ?thesis by (intro exI [of _ p]) simp
    next
      case (2 r ps)
      then show ?thesis using take_list(1) by (intro exI [of _ r]) auto
    qed
  qed
next
  case (walk_list s p ps pages)
  show ?case unfolding waiters_inv_def
  proof (intro allI impI)
    fix q assume "gphase (s\<lparr>gpages := pages, gphase := \<lambda>q. if q \<in> set ps then Served else gphase s q\<rparr>) q = Waiting"
    then have q: "q \<notin> set ps" "gphase s q = Waiting" by (auto split: if_splits)
    then consider "q \<in> set (clogGroupFirst s)" | r qs where "gphase s r = Walking qs" "q \<in> set qs"
      using walk_list(5) unfolding waiters_inv_def by blast
    then show "q \<in> set (clogGroupFirst (s\<lparr>gpages := pages, gphase := \<lambda>q. if q \<in> set ps then Served else gphase s q\<rparr>)) \<or>
        (\<exists>r qs. gphase (s\<lparr>gpages := pages, gphase := \<lambda>q. if q \<in> set ps then Served else gphase s q\<rparr>) r = Walking qs \<and> q \<in> set qs)"
    proof cases
      case (2 r qs)
      have "r \<notin> set ps"
        using 2 q walkerD(2) [OF walk_list(4,1), of r] walk_list(1) by (cases "r = p") auto
      then show ?thesis using 2 by auto
    qed simp
  qed
next
  case (join s p h)
  then show ?case by (intro waiters_inv_update [OF join(6), of p]) auto
next
  case (read_head s p)
  then show ?case by (intro waiters_inv_update [OF read_head(4), of p]) auto
next
  case (refuse s p h)
  then show ?case by (intro waiters_inv_update [OF refuse(5), of p]) auto
next
  case (join_again s p h)
  then show ?case by (intro waiters_inv_update [OF join_again(6), of p]) auto
qed

lemma served_inv_step:
  assumes "group_step env member s s'" and "served_inv member s"
    and ok: "\<forall>q. member_ok (member q)" and sb: "\<not> SS_STANDBY_MODE env"
    and known: "\<forall>q. \<forall>x \<in> member_tree (member q). clog_status (gpages s) x \<noteq> None"
  shows "served_inv member s'"
  using assms(1,2) known
proof (induction rule: group_step.induct)
  case (walk_list s p ps pages)
  have l: "list_all member_ok (map member ps)" using ok by (simp add: list_all_iff)
  show ?case unfolding served_inv_def
  proof (intro allI impI ballI)
    fix q x
    assume q: "gphase (s\<lparr>gpages := pages, gphase := \<lambda>q. if q \<in> set ps then Served else gphase s q\<rparr>) q = Served"
      and x: "x \<in> member_tree (member q)"
    have "clog_status pages x = Some (clogGroupMemberXidStatus (member q))"
    proof (cases "q \<in> set ps")
      case True
      show ?thesis
        by (rule walk_group_sets [OF walk_list(2) l _ sb])
          (use True x walk_list(4) in \<open>auto simp: member_tree_def\<close>)
    next
      case False
      then have "clog_status (gpages s) x = Some (clogGroupMemberXidStatus (member q))"
        using q x walk_list(3) unfolding served_inv_def by simp
      moreover have "final_status (clogGroupMemberXidStatus (member q))" using ok by (simp add: member_ok_def)
      ultimately show ?thesis using walk_group_kept [OF walk_list(2) l] by blast
    qed
    then show "clog_status (gpages (s\<lparr>gpages := pages, gphase := \<lambda>q. if q \<in> set ps then Served else gphase s q\<rparr>)) x =
        Some (clogGroupMemberXidStatus (member q))" by simp
  qed
qed (auto simp: served_inv_def split: if_splits)

lemma group_step_dom: "group_step env member s s' \<Longrightarrow> dom (gpages s') = dom (gpages s)"
  by (induction rule: group_step.induct) (auto dest!: walk_group_dom)

lemma group_reachable_inv:
  assumes "group_reachable env member pages s"
    and ok: "\<forall>q. member_ok (member q)" and sb: "\<not> SS_STANDBY_MODE env"
    and known: "\<forall>q. \<forall>x \<in> member_tree (member q). clog_status pages x \<noteq> None"
  shows "lists_inv s \<and> walkers_inv s \<and> waiters_inv s \<and> served_inv member s \<and> dom (gpages s) = dom pages"
  using assms(1)
proof induction
  case start
  show ?case by (simp add: lists_inv_def walkers_inv_def waiters_inv_def served_inv_def)
next
  case (step s s')
  have "dom (gpages s) = dom pages" using step by blast
  then have k: "\<forall>q. \<forall>x \<in> member_tree (member q). clog_status (gpages s) x \<noteq> None"
    using known dom_status by blast
  have "served_inv member s'" using served_inv_step [OF step(2) _ ok sb k] step by blast
  then show ?case
    using step(3) lists_inv_step [OF step(2)] walkers_inv_step [OF step(2)] waiters_inv_step [OF step(2)]
      group_step_dom [OF step(2)]
    by auto
qed

section \<open>Property\<close>


definition demo_member :: "nat \<Rightarrow> group_member" where
  "demo_member q = \<lparr>clogGroupMemberXid = (if q = 0 then 100 else 200), clogGroupMemberSubxids = [],
     clogGroupMemberXidStatus = CLOG_XID_STATUS_COMMITTED, clogGroupMemberLsn = 7, clogGroupMemberPage = 0\<rparr>"

lemma demo_walk: "\<exists>pages. walk_group plain_env (map demo_member [1, 0]) (slru (blank_clog 1)) = Inr pages"
  by (simp add: walk_group_def demo_member_def CLogSetPageStatusInternal_def set_main_transaction_def
      blank_clog_def blank_page_def CLogSetStatusBit_def Let_def plain_env_def TransactionIdToByte_def
      TransactionIdToBIndex_def TransactionIdToPgIndex_def clog_constants TransactionIdIsValid_def special_xids)

lemma demo_run:
  assumes "walk_group plain_env (map demo_member [1, 0]) (slru (blank_clog 1)) = Inr pages"
  shows "\<exists>s. group_reachable plain_env demo_member (slru (blank_clog 1)) s \<and> gpages s = pages \<and>
     gphase s 0 = Served \<and> gphase s 1 = Served"
proof -
  let ?R = "group_reachable plain_env demo_member (slru (blank_clog 1))"
  let ?st = "\<lambda>f g. \<lparr>gpages = slru (blank_clog 1), clogGroupFirst = f, gphase = g\<rparr>"
  have 0: "?R (?st [] (\<lambda>_. Outside))" by (rule group_reachable.start)
  have 1: "?R (?st [] ((\<lambda>_. Outside)(0 := Seen None)))"
    using group_reachable.step [OF 0 group_step.read_head [of _ 0]] by (simp add: list_head_def)
  have 2: "?R (?st [0] ((\<lambda>_. Outside)(0 := Leader)))"
    using group_reachable.step [OF 1 group_step.join [of _ 0 None]] by (simp add: other_page_def)
  have 3: "?R (?st [0] ((\<lambda>_. Outside)(0 := Leader, 1 := Seen (Some 0))))"
    using group_reachable.step [OF 2 group_step.read_head [of _ 1]] by (simp add: list_head_def)
  have 4: "?R (?st [1, 0] ((\<lambda>_. Outside)(0 := Leader, 1 := Waiting)))"
    using group_reachable.step [OF 3 group_step.join [of _ 1 "Some 0"]]
    by (simp add: other_page_def demo_member_def list_head_def)
  have 5: "?R (?st [] ((\<lambda>_. Outside)(0 := Walking [1, 0], 1 := Waiting)))"
    using group_reachable.step [OF 4 group_step.take_list [of _ 0]] by (simp add: fun_upd_twist)
  have 6: "?R \<lparr>gpages = pages, clogGroupFirst = [],
      gphase = \<lambda>q. if q \<in> set [1, 0] then Served else ((\<lambda>_. Outside)(0 := Walking [1, 0], 1 := Waiting)) q\<rparr>"
    using group_reachable.step [OF 5 group_step.walk_list [of _ 0 "[1, 0]" plain_env demo_member pages]] assms
    by (simp cong: if_cong)
  then show ?thesis by (intro exI conjI, assumption) simp_all
qed


end
