(* ===== verification/CSN_Log_Model.thy ===== *)
theory CSN_Log_Model
  imports Commit_Log_Model
begin

text \<open>
  The commit sequence number log, \<^verbatim>\<open>src/gausskernel/storage/access/transam/csnlog.cpp\<close>, with the
  encoding of commit sequence numbers of \<^verbatim>\<open>src/include/access/transam.h\<close>: the two upper bits
  of an entry say that its transaction is committing, and that the entry holds the parent of a
  subtransaction instead of a sequence number.

  A page is a function from entry numbers; the SLRU pool is a partial map of pages, and a
  page it does not hold cannot be opened. The field \<open>shown\<close> is a history variable: the pages
  as others could read them each time a page lock was released, oldest first.
\<close>

type_synonym CommitSeqNo = uint64

definition InvalidCommitSeqNo :: CommitSeqNo where "InvalidCommitSeqNo = 0"
definition COMMITSEQNO_INPROGRESS :: CommitSeqNo where "COMMITSEQNO_INPROGRESS = 0"
definition COMMITSEQNO_ABORTED :: CommitSeqNo where "COMMITSEQNO_ABORTED = 1"
definition COMMITSEQNO_FROZEN :: CommitSeqNo where "COMMITSEQNO_FROZEN = 2"
definition COMMITSEQNO_COMMIT_INPROGRESS :: CommitSeqNo where
  "COMMITSEQNO_COMMIT_INPROGRESS = push_bit 62 1"
definition COMMITSEQNO_SUBTRANS_BIT :: CommitSeqNo where
  "COMMITSEQNO_SUBTRANS_BIT = push_bit 63 1"
definition MAX_COMMITSEQNO :: CommitSeqNo where "MAX_COMMITSEQNO = push_bit 60 1 - 1"
definition COMMITSEQNO_RESERVE_MASK :: CommitSeqNo where
  "COMMITSEQNO_RESERVE_MASK = NOT MAX_COMMITSEQNO"

definition COMMITSEQNO_IS_ABORTED :: "CommitSeqNo \<Rightarrow> bool" where
  "COMMITSEQNO_IS_ABORTED csn \<longleftrightarrow> csn = COMMITSEQNO_ABORTED"

definition COMMITSEQNO_IS_COMMITTED :: "CommitSeqNo \<Rightarrow> bool" where
  "COMMITSEQNO_IS_COMMITTED csn \<longleftrightarrow>
     csn AND MAX_COMMITSEQNO \<ge> COMMITSEQNO_FROZEN \<and> csn AND COMMITSEQNO_RESERVE_MASK = 0"

definition COMMITSEQNO_IS_COMMITTING :: "CommitSeqNo \<Rightarrow> bool" where
  "COMMITSEQNO_IS_COMMITTING csn \<longleftrightarrow>
     csn AND COMMITSEQNO_COMMIT_INPROGRESS = COMMITSEQNO_COMMIT_INPROGRESS"

definition COMMITSEQNO_IS_SUBTRANS :: "CommitSeqNo \<Rightarrow> bool" where
  "COMMITSEQNO_IS_SUBTRANS csn \<longleftrightarrow> csn AND COMMITSEQNO_SUBTRANS_BIT = COMMITSEQNO_SUBTRANS_BIT"

definition GET_PARENTXID :: "CommitSeqNo \<Rightarrow> TransactionId" where
  "GET_PARENTXID csn = csn AND MAX_COMMITSEQNO"

text \<open>1024 entries of eight bytes in a page.\<close>

definition CSNLOG_XACTS_PER_PAGE :: nat where "CSNLOG_XACTS_PER_PAGE = BLCKSZ div 8"
definition BATCH_SIZE :: nat where "BATCH_SIZE = 32"

definition TransactionIdToCSNPage :: "TransactionId \<Rightarrow> nat" where
  "TransactionIdToCSNPage xid = unat xid div CSNLOG_XACTS_PER_PAGE"

definition TransactionIdToCSNPgIndex :: "TransactionId \<Rightarrow> nat" where
  "TransactionIdToCSNPgIndex xid = unat xid mod CSNLOG_XACTS_PER_PAGE"

type_synonym csn_page = "nat \<Rightarrow> CommitSeqNo"
type_synonym csn_pages = "nat \<Rightarrow> csn_page option"

record csnlog =
  csn_slru :: csn_pages
  shown :: "csn_pages list"
  xlogMaxCSN :: CommitSeqNo
  lastExtendCSNLogpage :: nat
  startExtendCSNLogpage :: nat

datatype csn_error =
    Csn_missing        \<comment> \<open>cannot mark transaction committed without CSN\<close>
  | Csn_state_change   \<comment> \<open>PANIC: csn log state change is not allowed\<close>
  | SLRU_OPEN_FAILED   \<comment> \<open>the page cannot be opened\<close>
  | Csn_invalid_entry  \<comment> \<open>pg_csnlog contains invalid entry\<close>
  | Csn_extend_error   \<comment> \<open>ERRCODE_SNAPSHOT_INVALID of ExtendCSNLOG\<close>

text \<open>
  What the functions read of the server and the session. \<open>page_in_memory\<close> tells which pages
  have a slot in the buffer pool, where \<^verbatim>\<open>SimpleLruZeroPage\<close> leaves them as they are.
\<close>

record csn_env =
  useLocalSnapshot :: bool
  IsRoachStandbyCluster :: bool
  IsBootstrapProcessingMode :: bool
  IS_DISASTER_RECOVER_MODE :: bool
  DMS_STANDBY :: bool
  RecoveryInProgress :: bool
  TransactionXmin :: TransactionId
  sn_recent_global_xmin :: TransactionId
  page_in_memory :: "nat \<Rightarrow> bool"

section \<open>Setting sequence numbers\<close>

definition CSNLogSetCSN :: "CommitSeqNo \<Rightarrow> TransactionId \<Rightarrow> csn_page \<Rightarrow> csn_error + csn_page" where
  "CSNLogSetCSN csn xid page =
     (let entryno = TransactionIdToCSNPgIndex xid; value = page entryno
      in if (COMMITSEQNO_IS_COMMITTED value \<and> COMMITSEQNO_IS_ABORTED csn) \<or>
            (COMMITSEQNO_IS_ABORTED value \<and> COMMITSEQNO_IS_COMMITTED csn)
         then Inl Csn_state_change
         else if \<not> COMMITSEQNO_IS_ABORTED value then Inr (page(entryno := csn))
         else Inr page)"

definition ZeroCSNLOGPage :: "csn_env \<Rightarrow> nat \<Rightarrow> csn_pages \<Rightarrow> csn_pages" where
  "ZeroCSNLOGPage env pageno pages =
     (if pages pageno \<noteq> None \<and> page_in_memory env pageno then pages
      else pages(pageno \<mapsto> (\<lambda>_. 0)))"

text \<open>
  Reading the page to update; during recovery a page that was cleaned is made again and
  the read is repeated, once.
\<close>

definition read_for_update :: "csn_env \<Rightarrow> nat \<Rightarrow> csn_pages \<Rightarrow> csn_error + (csn_page \<times> csn_pages)" where
  "read_for_update env pageno pages =
     (case pages pageno of
        Some page \<Rightarrow> Inr (page, pages)
      | None \<Rightarrow>
          if RecoveryInProgress env
          then let pages = ZeroCSNLOGPage env pageno pages
               in case pages pageno of Some page \<Rightarrow> Inr (page, pages) | None \<Rightarrow> Inl SLRU_OPEN_FAILED
          else Inl SLRU_OPEN_FAILED)"

definition sub_csn :: "CommitSeqNo \<Rightarrow> TransactionId \<Rightarrow> CommitSeqNo" where
  "sub_csn csn topxid =
     (if csn AND COMMITSEQNO_COMMIT_INPROGRESS = COMMITSEQNO_COMMIT_INPROGRESS
      then (COMMITSEQNO_SUBTRANS_BIT OR topxid) OR COMMITSEQNO_COMMIT_INPROGRESS else csn)"

definition CSNLogSetPageStatus ::
  "csn_env \<Rightarrow> TransactionId \<Rightarrow> TransactionId list \<Rightarrow> CommitSeqNo \<Rightarrow> nat \<Rightarrow> TransactionId \<Rightarrow> csnlog \<Rightarrow>
   csn_error + csnlog" where
  "CSNLogSetPageStatus env xid subxids csn pageno topxid log =
     (if DMS_STANDBY env then Inr log
      else
        result_bind (read_for_update env pageno (csn_slru log)) (\<lambda>(page, pages).
        result_bind (if TransactionIdIsValid xid then CSNLogSetCSN csn xid page else Inr page) (\<lambda>page.
        result_bind (for_each (CSNLogSetCSN (sub_csn csn topxid)) subxids page) (\<lambda>page.
        let pages = pages(pageno \<mapsto> page)
        in Inr (log\<lparr>csn_slru := pages, shown := shown log @ [pages]\<rparr>)))))"

fun num_on_csn_page :: "nat \<Rightarrow> TransactionId list \<Rightarrow> nat" where
  "num_on_csn_page pageno [] = 0"
| "num_on_csn_page pageno (x # xs) =
     (if TransactionIdToCSNPage x = pageno then Suc (num_on_csn_page pageno xs) else 0)"

lemma num_on_csn_page_le: "num_on_csn_page pageno xs \<le> length xs"
  by (induction xs) auto

function set_csn_loop ::
  "csn_env \<Rightarrow> CommitSeqNo \<Rightarrow> TransactionId \<Rightarrow> TransactionId \<Rightarrow> nat \<Rightarrow> TransactionId list \<Rightarrow> csnlog \<Rightarrow>
   csn_error + csnlog" where
  "set_csn_loop env csn topxid xid pageno subxids log =
     (let n = num_on_csn_page pageno subxids
      in result_bind (CSNLogSetPageStatus env xid (take n subxids) csn pageno topxid log) (\<lambda>log.
         if drop n subxids = [] then Inr log
         else set_csn_loop env csn topxid InvalidTransactionId
                (TransactionIdToCSNPage (hd (drop n subxids))) (drop n subxids) log))"
  by pat_completeness auto
termination
proof (relation "measure (\<lambda>(env, csn, topxid, xid, pageno, subxids, log).
    2 * length subxids + (if subxids \<noteq> [] \<and> TransactionIdToCSNPage (hd subxids) \<noteq> pageno then 1 else 0))",
    goal_cases)
  case (2 env csn topxid xid pageno subxids log n log')
  then show ?case by (cases subxids) auto
qed simp

definition CSNLogSetCommitSeqNo ::
  "csn_env \<Rightarrow> TransactionId \<Rightarrow> TransactionId list \<Rightarrow> CommitSeqNo \<Rightarrow> csnlog \<Rightarrow> csn_error + csnlog" where
  "CSNLogSetCommitSeqNo env xid subxids csn log =
     (if (useLocalSnapshot env \<or> IsRoachStandbyCluster env) \<and> csn \<le> COMMITSEQNO_ABORTED then Inr log
      else if (csn = InvalidCommitSeqNo \<or> xid = BootstrapTransactionId) \<and> \<not> IsBootstrapProcessingMode env
      then Inl Csn_missing
      else
        let csn = (if csn = InvalidCommitSeqNo \<or> xid = BootstrapTransactionId then COMMITSEQNO_FROZEN else csn)
        in result_bind (set_csn_loop env csn xid xid (TransactionIdToCSNPage xid) subxids log) (\<lambda>log.
           Inr (if IS_DISASTER_RECOVER_MODE env \<and> COMMITSEQNO_IS_COMMITTED csn \<and> csn > xlogMaxCSN log
                then log\<lparr>xlogMaxCSN := csn\<rparr> else log)))"

definition SubTransSetParent :: "csn_env \<Rightarrow> TransactionId \<Rightarrow> TransactionId \<Rightarrow> csnlog \<Rightarrow> csn_error + csnlog" where
  "SubTransSetParent env xid parent log =
     (if DMS_STANDBY env then Inr log
      else
        let pageno = TransactionIdToCSNPage xid;
            entryno = TransactionIdToCSNPgIndex xid;
            newcsn = COMMITSEQNO_SUBTRANS_BIT OR parent
        in case csn_slru log pageno of
             None \<Rightarrow> Inl SLRU_OPEN_FAILED
           | Some page \<Rightarrow>
               if page entryno \<noteq> newcsn \<and> page entryno \<noteq> newcsn OR COMMITSEQNO_COMMIT_INPROGRESS
               then let pages = (csn_slru log)(pageno \<mapsto> page(entryno := newcsn))
                    in Inr (log\<lparr>csn_slru := pages, shown := shown log @ [pages]\<rparr>)
               else Inr log)"

section \<open>Reading sequence numbers\<close>

definition InternalGetCommitSeqNo :: "csn_pages \<Rightarrow> TransactionId \<Rightarrow> csn_error + CommitSeqNo" where
  "InternalGetCommitSeqNo pages xid =
     (let pageno = TransactionIdToCSNPage xid; entryno = TransactionIdToCSNPgIndex xid
      in if \<not> TransactionIdIsNormal xid \<and> xid = InvalidTransactionId then Inr COMMITSEQNO_ABORTED
         else if \<not> TransactionIdIsNormal xid \<and> (xid = FrozenTransactionId \<or> xid = BootstrapTransactionId)
         then Inr COMMITSEQNO_FROZEN
         else case pages pageno of None \<Rightarrow> Inl SLRU_OPEN_FAILED | Some page \<Rightarrow> Inr (page entryno))"

definition CSNLogGetCommitSeqNo :: "csn_pages \<Rightarrow> TransactionId \<Rightarrow> csn_error + CommitSeqNo" where
  "CSNLogGetCommitSeqNo pages xid = InternalGetCommitSeqNo pages xid"

partial_function (option) RecursiveGetCommitSeqNo ::
  "csn_pages \<Rightarrow> TransactionId \<Rightarrow> (csn_error + CommitSeqNo) option" where
  "RecursiveGetCommitSeqNo pages xid =
     (case InternalGetCommitSeqNo pages xid of
        Inl e \<Rightarrow> Some (Inl e)
      | Inr csn \<Rightarrow>
          if COMMITSEQNO_IS_SUBTRANS csn \<and> COMMITSEQNO_IS_COMMITTING csn
          then RecursiveGetCommitSeqNo pages (GET_PARENTXID csn)
          else Some (Inr csn))"

definition CSNLogGetNestCommitSeqNo :: "csn_pages \<Rightarrow> TransactionId \<Rightarrow> (csn_error + CommitSeqNo) option" where
  "CSNLogGetNestCommitSeqNo pages xid = RecursiveGetCommitSeqNo pages xid"

definition CSNLogGetDRCommitSeqNo :: "csn_pages \<Rightarrow> TransactionId \<Rightarrow> csn_error + CommitSeqNo" where
  "CSNLogGetDRCommitSeqNo pages xid =
     (case CSNLogGetCommitSeqNo pages xid of
        Inr csn \<Rightarrow> Inr csn
      | Inl e \<Rightarrow> if e = SLRU_OPEN_FAILED then Inr InvalidCommitSeqNo else Inl e)"

text \<open>
  \<open>from_procs\<close> is the search of the process array for the top parent; the status is that of
  the caller when the log decides nothing.
\<close>

definition SubTransGetParent ::
  "(TransactionId \<Rightarrow> TransactionId) \<Rightarrow> csn_pages \<Rightarrow> TransactionId \<Rightarrow> CLogXidStatus \<Rightarrow> bool \<Rightarrow>
   csn_error + (TransactionId \<times> CLogXidStatus)" where
  "SubTransGetParent from_procs pages xid status force_wait_parent =
     result_bind (CSNLogGetCommitSeqNo pages xid) (\<lambda>csn.
       if COMMITSEQNO_IS_SUBTRANS csn then Inr (GET_PARENTXID csn, status)
       else
         let status = (if COMMITSEQNO_IS_COMMITTED csn then CLOG_XID_STATUS_COMMITTED else status);
             status = (if COMMITSEQNO_IS_ABORTED csn then CLOG_XID_STATUS_ABORTED else status)
         in if force_wait_parent then Inr (from_procs xid, status) else Inr (InvalidTransactionId, status))"

function topmost_loop ::
  "csn_env \<Rightarrow> csn_pages \<Rightarrow> TransactionId \<Rightarrow> TransactionId \<Rightarrow> csn_error + TransactionId" where
  "topmost_loop env pages previousXid parentXid =
     (if TransactionIdIsValid parentXid
      then if TransactionIdPrecedes parentXid (TransactionXmin env) then Inr parentXid
           else case SubTransGetParent (\<lambda>x. x) pages parentXid CLOG_XID_STATUS_IN_PROGRESS False of
                  Inl e \<Rightarrow> Inl e
                | Inr (p, _) \<Rightarrow>
                    if \<not> TransactionIdPrecedes p parentXid then Inl Csn_invalid_entry
                    else topmost_loop env pages parentXid p
      else Inr previousXid)"
  by pat_completeness auto
termination
  by (relation "measure (\<lambda>(env, pages, prev, p). unat p)") (auto simp: TransactionIdPrecedes_def word_less_nat_alt)

definition SubTransGetTopmostTransaction :: "csn_env \<Rightarrow> csn_pages \<Rightarrow> TransactionId \<Rightarrow> csn_error + TransactionId" where
  "SubTransGetTopmostTransaction env pages xid = topmost_loop env pages xid xid"

section \<open>Extending the log\<close>

definition BootStrapCSNLOG :: "csn_env \<Rightarrow> csnlog \<Rightarrow> csnlog" where
  "BootStrapCSNLOG env log =
     log\<lparr>csn_slru := fold (ZeroCSNLOGPage env) [0..<BATCH_SIZE] (csn_slru log),
         lastExtendCSNLogpage := BATCH_SIZE - 1, startExtendCSNLogpage := 0\<rparr>"

definition StartupCSNLOG :: "TransactionId \<Rightarrow> csnlog \<Rightarrow> csnlog" where
  "StartupCSNLOG nextXid log =
     log\<lparr>lastExtendCSNLogpage := TransactionIdToCSNPage (nextXid - 1), startExtendCSNLogpage := 0\<rparr>"

definition extend_from_xmin :: "csn_env \<Rightarrow> nat \<Rightarrow> csnlog \<Rightarrow> nat \<times> csnlog" where
  "extend_from_xmin env lastExtendPage log =
     (if TransactionIdIsNormal (sn_recent_global_xmin env) \<and>
         TransactionIdToCSNPage (sn_recent_global_xmin env) > lastExtendPage
      then let OldestUsedPage = TransactionIdToCSNPage (sn_recent_global_xmin env)
           in (OldestUsedPage, log\<lparr>csn_slru := ZeroCSNLOGPage env OldestUsedPage (csn_slru log),
                                   startExtendCSNLogpage := OldestUsedPage\<rparr>)
      else (lastExtendPage, log))"

definition ExtendCSNLOG :: "csn_env \<Rightarrow> TransactionId \<Rightarrow> csnlog \<Rightarrow> csn_error + csnlog" where
  "ExtendCSNLOG env newestXact log =
     (if \<not> TransactionIdIsValid newestXact then Inr log
      else
        let pageno = TransactionIdToCSNPage newestXact
        in if pageno < startExtendCSNLogpage log then Inl Csn_extend_error
           else
             let lastExtendTransactionId = (lastExtendCSNLogpage log + 1) * CSNLOG_XACTS_PER_PAGE - 1
             in if lastExtendTransactionId < unat newestXact
                then
                  let (lastExtendPage, log) = extend_from_xmin env (lastExtendCSNLogpage log) log;
                      newExtendPage = (pageno + BATCH_SIZE) div BATCH_SIZE * BATCH_SIZE
                  in if lastExtendPage \<ge> newExtendPage then Inl Csn_extend_error
                     else Inr (log\<lparr>csn_slru := fold (ZeroCSNLOGPage env)
                                     [lastExtendPage + 1..<newExtendPage] (csn_slru log),
                                   lastExtendCSNLogpage := newExtendPage - 1\<rparr>)
                else Inr log)"

end
