(* ===== verification/Trans_Log_Model.thy ===== *)
theory Trans_Log_Model
  imports CSN_Log_Model
begin

text \<open>
  The interface routines of the transaction logs,
  \<^verbatim>\<open>src/gausskernel/storage/access/transam/transam.cpp\<close>: the outcome of a transaction is read
  through single-entry caches of the thread from the commit log or, above the visibility
  horizon, from the commit sequence number log; the commit and abort of a transaction tree
  write both logs.

  The caches are a record that every reading function threads. A walk through the parents in the
  CSN log need not end on a damaged log, so these functions return an option, \<open>None\<close> when the walk
  goes on for ever; inside it an error is a left injection.
\<close>

section \<open>Snapshots\<close>

datatype SnapshotSatisfiesMethod =
    SNAPSHOT_MVCC | SNAPSHOT_VERSION_MVCC | SNAPSHOT_DELTA | SNAPSHOT_LOST | SNAPSHOT_NOW
  | SNAPSHOT_SELF | SNAPSHOT_ANY | SNAPSHOT_TOAST | SNAPSHOT_DIRTY | SNAPSHOT_HISTORIC_MVCC
  | SNAPSHOT_DECODE_MVCC

datatype GTM_SnapshotType =
    GTM_SNAPSHOT_TYPE_UNDEFINED | GTM_SNAPSHOT_TYPE_LOCAL | GTM_SNAPSHOT_TYPE_GLOBAL
  | GTM_SNAPSHOT_TYPE_AUTOVACUUM

record SnapshotData =
  satisfies :: SnapshotSatisfiesMethod
  snap_xmin :: TransactionId
  snap_xmax :: TransactionId
  subxid :: uint64
  xip :: "TransactionId list"
  subxip :: "TransactionId list"
  snapshotcsn :: CommitSeqNo
  prepared_array :: "TransactionId list"
  takenDuringRecovery :: bool
  curcid :: uint32
  gtm_snapshot_type :: GTM_SnapshotType

definition IsVersionMVCCSnapshot :: "SnapshotData \<Rightarrow> bool" where
  "IsVersionMVCCSnapshot snapshot \<longleftrightarrow>
     satisfies snapshot = SNAPSHOT_VERSION_MVCC \<or> satisfies snapshot = SNAPSHOT_DELTA \<or>
     satisfies snapshot = SNAPSHOT_LOST"

definition IsMVCCSnapshot :: "SnapshotData \<Rightarrow> bool" where
  "IsMVCCSnapshot snapshot \<longleftrightarrow>
     satisfies snapshot = SNAPSHOT_MVCC \<or> satisfies snapshot = SNAPSHOT_HISTORIC_MVCC \<or>
     satisfies snapshot = SNAPSHOT_DECODE_MVCC \<or> IsVersionMVCCSnapshot snapshot"

section \<open>State\<close>

text \<open>The fields of \<^verbatim>\<open>t_thrd.xact_cxt\<close> that remember the last transactions looked up.\<close>

record fetch_cache =
  cachedFetchXid :: TransactionId
  cachedFetchXidStatus :: CLogXidStatus
  cachedCommitLSN :: XLogRecPtr
  latestFetchXid :: TransactionId
  latestFetchXidStatus :: CLogXidStatus
  cachedFetchCSNXid :: TransactionId
  cachedFetchCSN :: CommitSeqNo
  latestFetchCSNXid :: TransactionId
  latestFetchCSN :: CommitSeqNo

definition knl_t_xact_init :: fetch_cache where
  "knl_t_xact_init =
     \<lparr>cachedFetchXid = InvalidTransactionId, cachedFetchXidStatus = CLOG_XID_STATUS_IN_PROGRESS,
      cachedCommitLSN = 0, latestFetchXid = InvalidTransactionId,
      latestFetchXidStatus = CLOG_XID_STATUS_IN_PROGRESS, cachedFetchCSNXid = InvalidTransactionId,
      cachedFetchCSN = 0, latestFetchCSNXid = InvalidTransactionId, latestFetchCSN = 0\<rparr>"

record trans_logs =
  clog_part :: clog_ctl
  csn_part :: csnlog

datatype trans_error = Clog_error clog_error | Csn_error csn_error

text \<open>
  What the functions read of the server and the session. \<open>recentGlobalXmin\<close> is read anew at
  each attempt to fetch a CSN and other threads move it, so it is a function of the attempt.
  \<open>SSTransactionIdDidCommit\<close> is the answer of the primary node of a shared-storage cluster.
\<close>

record trans_env =
  clog_env_of :: clog_env
  csn_env_of :: csn_env
  GTM_LITE_MODE :: bool
  IS_CN_DISASTER_RECOVER_MODE :: bool
  ENABLE_DMS :: bool
  role_is_DMS_WORKER :: bool
  SS_PRIMARY_MODE :: bool
  SS_OFFICIAL_PRIMARY :: bool
  SSTransactionIdDidCommit :: "TransactionId \<Rightarrow> bool"
  ReplicationSlotCatalogXmin :: TransactionId
  recentGlobalXmin :: "nat \<Rightarrow> TransactionId"
  recentLocalXmin :: TransactionId
  RecentXmin :: TransactionId
  startupMaxXid :: TransactionId
  nextXid :: TransactionId
  xc_maintenance_mode :: bool
  XactIsoLevel_READ_UNCOMMITTED :: bool
  globalRecycleXid :: TransactionId

type_synonym 'a fetch = "(trans_error + ('a \<times> fetch_cache)) option"

section \<open>Commit sequence numbers\<close>

definition SetLatestFetchState :: "TransactionId \<Rightarrow> CommitSeqNo \<Rightarrow> fetch_cache \<Rightarrow> fetch_cache" where
  "SetLatestFetchState transactionId result cache =
     cache\<lparr>latestFetchCSNXid := transactionId, latestFetchCSN := result\<rparr>"

definition GetCSNByCLog :: "trans_logs \<Rightarrow> TransactionId \<Rightarrow> bool \<Rightarrow> trans_error + CommitSeqNo" where
  "GetCSNByCLog logs transactionId isCommit =
     (if isCommit then Inr COMMITSEQNO_FROZEN
      else case CLogGetStatus (slru (clog_part logs)) transactionId of
             Inl e \<Rightarrow> Inl (Clog_error e)
           | Inr (status, lsn) \<Rightarrow>
               if status = CLOG_XID_STATUS_COMMITTED then Inr COMMITSEQNO_FROZEN
               else Inr COMMITSEQNO_ABORTED)"

definition FetchCSNFromCache ::
  "trans_env \<Rightarrow> TransactionId \<Rightarrow> SnapshotData option \<Rightarrow> bool \<Rightarrow> fetch_cache \<Rightarrow> CommitSeqNo \<times> fetch_cache" where
  "FetchCSNFromCache env transactionId snapshot isMvcc cache =
     (let TRY_USE_CACHE = (cachedFetchCSN cache,
                           SetLatestFetchState (cachedFetchCSNXid cache) (cachedFetchCSN cache) cache)
      in if transactionId \<noteq> cachedFetchCSNXid cache then (InvalidCommitSeqNo, cache)
         else case snapshot of
           None \<Rightarrow> TRY_USE_CACHE
         | Some snapshot \<Rightarrow>
             if IsVersionMVCCSnapshot snapshot \<or> satisfies snapshot = SNAPSHOT_DECODE_MVCC
             then (InvalidCommitSeqNo, cache)
             else if \<not> isMvcc \<or> GTM_LITE_MODE env then TRY_USE_CACHE
             else if IsMVCCSnapshot snapshot \<and> \<not> TransactionIdPrecedes transactionId (snap_xmin snapshot) \<and>
                     cachedFetchCSN cache = COMMITSEQNO_FROZEN
             then (InvalidCommitSeqNo, cache)
             else TRY_USE_CACHE)"

text \<open>The horizon below which the commit log answers, as read at the given attempt.\<close>

definition fetch_horizon :: "trans_env \<Rightarrow> nat \<Rightarrow> SnapshotData option \<Rightarrow> bool \<Rightarrow> TransactionId" where
  "fetch_horizon env attempt snapshot isMvcc =
     (if (case snapshot of Some s \<Rightarrow> satisfies s = SNAPSHOT_DECODE_MVCC | None \<Rightarrow> False)
      then ReplicationSlotCatalogXmin env
      else if \<not> isMvcc \<or> GTM_LITE_MODE env
      then (if \<not> TransactionIdIsValid (recentGlobalXmin env attempt) then recentLocalXmin env
            else recentGlobalXmin env attempt)
      else case snapshot of
             Some s \<Rightarrow> if IsMVCCSnapshot s then snap_xmin s else RecentXmin env
           | None \<Rightarrow> RecentXmin env)"

text \<open>
  The part from the label RETRY to the end of the exception handler; \<open>retry_times\<close> counts the
  attempts and the code goes back once.
\<close>

function fetch_csn ::
  "trans_env \<Rightarrow> trans_logs \<Rightarrow> TransactionId \<Rightarrow> bool \<Rightarrow> bool \<Rightarrow> bool \<Rightarrow> SnapshotData option \<Rightarrow> nat \<Rightarrow>
   (trans_error + CommitSeqNo) option" where
  "fetch_csn env logs transactionId isCommit isMvcc isNest snapshot retry_times =
     (let xid = fetch_horizon env retry_times snapshot isMvcc
      in if \<not> IS_DISASTER_RECOVER_MODE (csn_env_of env) \<and>
            (case snapshot of None \<Rightarrow> True | Some s \<Rightarrow> \<not> IsVersionMVCCSnapshot s) \<and>
            TransactionIdPrecedes transactionId xid
         then Some (GetCSNByCLog logs transactionId isCommit)
         else
           case (if isNest then CSNLogGetNestCommitSeqNo (csn_slru (csn_part logs)) transactionId
                 else Some (CSNLogGetCommitSeqNo (csn_slru (csn_part logs)) transactionId)) of
             None \<Rightarrow> None
           | Some (Inr result) \<Rightarrow> Some (Inr result)
           | Some (Inl e) \<Rightarrow>
               if (IS_CN_DISASTER_RECOVER_MODE env \<or> IS_DISASTER_RECOVER_MODE (csn_env_of env)) \<and>
                  e = SLRU_OPEN_FAILED
               then Some (GetCSNByCLog logs transactionId isCommit)
               else if (GTM_LITE_MODE env \<or> (ENABLE_DMS env \<and> role_is_DMS_WORKER env)) \<and> retry_times = 0
               then fetch_csn env logs transactionId isCommit isMvcc isNest snapshot (retry_times + 1)
               else Some (Inl (Csn_error e)))"
  by pat_completeness auto
termination
  by (relation "measure (\<lambda>(env, logs, xid, isCommit, isMvcc, isNest, snapshot, retry_times). 1 - retry_times)") auto

definition TransactionIdGetCommitSeqNo ::
  "trans_env \<Rightarrow> trans_logs \<Rightarrow> TransactionId \<Rightarrow> bool \<Rightarrow> bool \<Rightarrow> bool \<Rightarrow> SnapshotData option \<Rightarrow> fetch_cache \<Rightarrow>
   CommitSeqNo fetch" where
  "TransactionIdGetCommitSeqNo env logs transactionId isCommit isMvcc isNest snapshot cache =
     (case FetchCSNFromCache env transactionId snapshot isMvcc cache of
        (cacheCsn, cache) \<Rightarrow>
          if cacheCsn \<noteq> InvalidCommitSeqNo then Some (Inr (cacheCsn, cache))
          else if \<not> TransactionIdIsNormal transactionId
          then let cache = cache\<lparr>latestFetchCSNXid := InvalidTransactionId\<rparr>
               in if transactionId = BootstrapTransactionId \<or> transactionId = FrozenTransactionId
                  then Some (Inr (COMMITSEQNO_FROZEN, cache))
                  else Some (Inr (COMMITSEQNO_ABORTED, cache))
          else
            case fetch_csn env logs transactionId isCommit isMvcc isNest snapshot 0 of
              None \<Rightarrow> None
            | Some (Inl e) \<Rightarrow> Some (Inl e)
            | Some (Inr result) \<Rightarrow>
                let cache = (if COMMITSEQNO_IS_COMMITTED result \<or> COMMITSEQNO_IS_ABORTED result
                             then cache\<lparr>cachedFetchCSNXid := transactionId, cachedFetchCSN := result\<rparr>
                             else cache)
                in Some (Inr (result, cache\<lparr>latestFetchCSNXid := transactionId, latestFetchCSN := result\<rparr>)))"

definition TransactionIdGetCommitSeqNoForGSClean ::
  "trans_env \<Rightarrow> trans_logs \<Rightarrow> TransactionId \<Rightarrow> (trans_error + CommitSeqNo) option" where
  "TransactionIdGetCommitSeqNoForGSClean env logs transactionId =
     (let xid = recentGlobalXmin env 0;
          miss_global_xmin = False;
          gtm_global_xmin = InvalidTransactionId;
          xid = (if \<not> TransactionIdIsValid xid
                 then if TransactionIdIsValid gtm_global_xmin then gtm_global_xmin else recentLocalXmin env
                 else xid)
      in if TransactionIdPrecedes transactionId xid
         then if miss_global_xmin then Some (Inr COMMITSEQNO_COMMIT_INPROGRESS)
              else Some (Inr COMMITSEQNO_FROZEN)
         else case CSNLogGetNestCommitSeqNo (csn_slru (csn_part logs)) transactionId of
                None \<Rightarrow> None
              | Some (Inl e) \<Rightarrow> Some (Inl (Csn_error e))
              | Some (Inr csn) \<Rightarrow> Some (Inr csn))"

section \<open>Commit status\<close>

definition TransactionLogFetch ::
  "trans_logs \<Rightarrow> TransactionId \<Rightarrow> fetch_cache \<Rightarrow> trans_error + (CLogXidStatus \<times> fetch_cache)" where
  "TransactionLogFetch logs transactionId cache =
     (if transactionId = cachedFetchXid cache
      then Inr (cachedFetchXidStatus cache,
                cache\<lparr>latestFetchXid := cachedFetchXid cache,
                      latestFetchXidStatus := cachedFetchXidStatus cache\<rparr>)
      else if \<not> TransactionIdIsNormal transactionId
      then let cache = cache\<lparr>latestFetchXid := InvalidTransactionId\<rparr>
           in if transactionId = BootstrapTransactionId then Inr (CLOG_XID_STATUS_COMMITTED, cache)
              else if transactionId = FrozenTransactionId then Inr (CLOG_XID_STATUS_COMMITTED, cache)
              else Inr (CLOG_XID_STATUS_ABORTED, cache)
      else case CLogGetStatus (slru (clog_part logs)) transactionId of
             Inl e \<Rightarrow> Inl (Clog_error e)
           | Inr (xidstatus, xidlsn) \<Rightarrow>
               let cache = (if xidstatus \<noteq> CLOG_XID_STATUS_IN_PROGRESS \<and>
                               xidstatus \<noteq> CLOG_XID_STATUS_SUB_COMMITTED
                            then cache\<lparr>cachedFetchXid := transactionId, cachedFetchXidStatus := xidstatus,
                                       cachedCommitLSN := xidlsn\<rparr>
                            else cache)
               in Inr (xidstatus, cache\<lparr>latestFetchXid := transactionId,
                                        latestFetchXidStatus := xidstatus\<rparr>))"

definition TransactionIdFollows :: "TransactionId \<Rightarrow> TransactionId \<Rightarrow> bool" where
  "TransactionIdFollows id1 id2 \<longleftrightarrow> id1 > id2"

text \<open>The SQL functions; \<open>None\<close> inside the result is the SQL null.\<close>

definition pgxc_is_committed ::
  "trans_env \<Rightarrow> trans_logs \<Rightarrow> TransactionId \<Rightarrow> fetch_cache \<Rightarrow> trans_error + (bool option \<times> fetch_cache)" where
  "pgxc_is_committed env logs tid cache =
     (if TransactionIdFollows tid (nextXid env) then Inr (None, cache)
      else result_bind (TransactionLogFetch logs tid cache) (\<lambda>(xidstatus, cache).
             Inr (if xidstatus = CLOG_XID_STATUS_COMMITTED then Some True
                  else if xidstatus = CLOG_XID_STATUS_ABORTED then Some False
                  else None, cache)))"

definition pgxc_get_csn ::
  "trans_env \<Rightarrow> trans_logs \<Rightarrow> TransactionId \<Rightarrow> fetch_cache \<Rightarrow> CommitSeqNo fetch" where
  "pgxc_get_csn env logs tid cache =
     (if \<not> TransactionIdFollows tid (nextXid env)
      then if xc_maintenance_mode env
           then map_option (map_sum id (\<lambda>csn. (csn, cache))) (TransactionIdGetCommitSeqNoForGSClean env logs tid)
           else TransactionIdGetCommitSeqNo env logs tid False False True None cache
      else Some (Inr (InvalidCommitSeqNo, cache)))"

partial_function (option) TransactionIdDidCommit ::
  "trans_env \<Rightarrow> trans_logs \<Rightarrow> TransactionId \<Rightarrow> fetch_cache \<Rightarrow> bool fetch" where
  "TransactionIdDidCommit env logs transactionId cache =
     (if ENABLE_DMS env \<and> \<not> (SS_PRIMARY_MODE env \<or> SS_OFFICIAL_PRIMARY env)
      then Some (Inr (SSTransactionIdDidCommit env transactionId, cache))
      else case TransactionLogFetch logs transactionId cache of
        Inl e \<Rightarrow> Some (Inl e)
      | Inr (xidstatus, cache) \<Rightarrow>
          if xidstatus = CLOG_XID_STATUS_COMMITTED then Some (Inr (True, cache))
          else if xidstatus = CLOG_XID_STATUS_SUB_COMMITTED
          then if TransactionIdPrecedes transactionId (TransactionXmin (csn_env_of env))
               then Some (Inr (False, cache))
               else case SubTransGetParent (\<lambda>x. x) (csn_slru (csn_part logs)) transactionId
                           CLOG_XID_STATUS_IN_PROGRESS False of
                 Inl e \<Rightarrow> Some (Inl (Csn_error e))
               | Inr (parentXid, status) \<Rightarrow>
                   if \<not> TransactionIdIsValid parentXid
                   then if status = CLOG_XID_STATUS_COMMITTED then Some (Inr (True, cache))
                        else if status = CLOG_XID_STATUS_ABORTED then Some (Inr (False, cache))
                        else Some (Inr (False, cache))
                   else TransactionIdDidCommit env logs parentXid cache
          else Some (Inr (False, cache)))"

definition UHeapTransactionIdDidCommit ::
  "trans_env \<Rightarrow> trans_logs \<Rightarrow> TransactionId \<Rightarrow> fetch_cache \<Rightarrow> bool fetch" where
  "UHeapTransactionIdDidCommit env logs transactionId cache =
     (if transactionId = FrozenTransactionId then Some (Inr (True, cache))
      else if TransactionIdIsNormal transactionId \<and> TransactionIdPrecedes transactionId (globalRecycleXid env)
      then Some (Inr (True, cache))
      else TransactionIdDidCommit env logs transactionId cache)"

partial_function (option) TransactionIdDidAbort ::
  "trans_env \<Rightarrow> trans_logs \<Rightarrow> TransactionId \<Rightarrow> fetch_cache \<Rightarrow> bool fetch" where
  "TransactionIdDidAbort env logs transactionId cache =
     (case TransactionLogFetch logs transactionId cache of
        Inl e \<Rightarrow> Some (Inl e)
      | Inr (xidstatus, cache) \<Rightarrow>
          if xidstatus = CLOG_XID_STATUS_ABORTED then Some (Inr (True, cache))
          else if xidstatus = CLOG_XID_STATUS_SUB_COMMITTED
          then if TransactionIdPrecedes transactionId (TransactionXmin (csn_env_of env))
               then Some (Inr (True, cache))
               else case SubTransGetParent (\<lambda>x. x) (csn_slru (csn_part logs)) transactionId
                           CLOG_XID_STATUS_IN_PROGRESS False of
                 Inl e \<Rightarrow> Some (Inl (Csn_error e))
               | Inr (parentXid, status) \<Rightarrow>
                   if \<not> TransactionIdIsValid parentXid
                   then if status = CLOG_XID_STATUS_COMMITTED then Some (Inr (False, cache))
                        else if status = CLOG_XID_STATUS_ABORTED then Some (Inr (True, cache))
                        else Some (Inr (True, cache))
                   else TransactionIdDidAbort env logs parentXid cache
          else Some (Inr (False, cache)))"

definition LatestFetchTransactionIdDidAbort :: "trans_env \<Rightarrow> TransactionId \<Rightarrow> fetch_cache \<Rightarrow> bool" where
  "LatestFetchTransactionIdDidAbort env transactionId cache =
     (if \<not> TransactionIdIsValid (startupMaxXid env) \<or> TransactionIdPrecedes transactionId (startupMaxXid env) \<or>
         (XactIsoLevel_READ_UNCOMMITTED env \<or> useLocalSnapshot (csn_env_of env))
      then True
      else if transactionId \<noteq> latestFetchXid cache then True
      else if latestFetchXidStatus cache = CLOG_XID_STATUS_ABORTED \<or>
              latestFetchXidStatus cache = CLOG_XID_STATUS_SUB_COMMITTED
      then True
      else if transactionId = latestFetchCSNXid cache \<and> COMMITSEQNO_IS_ABORTED (latestFetchCSN cache)
      then True
      else False)"

definition LatestFetchCSNDidAbort :: "trans_env \<Rightarrow> TransactionId \<Rightarrow> fetch_cache \<Rightarrow> bool" where
  "LatestFetchCSNDidAbort env transactionId cache =
     (if XactIsoLevel_READ_UNCOMMITTED env \<or> useLocalSnapshot (csn_env_of env) then True
      else if transactionId \<noteq> latestFetchCSNXid cache then True
      else if COMMITSEQNO_IS_ABORTED (latestFetchCSN cache) then True
      else False)"

definition TransactionIdIsKnownCompleted :: "TransactionId \<Rightarrow> fetch_cache \<Rightarrow> bool" where
  "TransactionIdIsKnownCompleted transactionId cache \<longleftrightarrow>
     transactionId = cachedFetchXid cache \<or> transactionId = cachedFetchCSNXid cache"

section \<open>Commit and abort of a tree\<close>

definition set_clog ::
  "trans_env \<Rightarrow> TransactionId \<Rightarrow> TransactionId list \<Rightarrow> CLogXidStatus \<Rightarrow> XLogRecPtr \<Rightarrow> trans_logs \<Rightarrow>
   trans_error + trans_logs" where
  "set_clog env xid xids status lsn logs =
     (case CLogSetTreeStatus (clog_env_of env) xid xids status lsn (clog_part logs) of
        Inl e \<Rightarrow> Inl (Clog_error e)
      | Inr ctl \<Rightarrow> Inr (logs\<lparr>clog_part := ctl\<rparr>))"

definition set_csnlog ::
  "trans_env \<Rightarrow> TransactionId \<Rightarrow> TransactionId list \<Rightarrow> CommitSeqNo \<Rightarrow> trans_logs \<Rightarrow> trans_error + trans_logs" where
  "set_csnlog env xid xids csn logs =
     (case CSNLogSetCommitSeqNo (csn_env_of env) xid xids csn (csn_part logs) of
        Inl e \<Rightarrow> Inl (Csn_error e)
      | Inr log \<Rightarrow> Inr (logs\<lparr>csn_part := log\<rparr>))"

text \<open>\<^verbatim>\<open>procarray.cpp\<close>, in the build without multiple nodes.\<close>

definition UpdateCSNLogAtTransactionEND ::
  "trans_env \<Rightarrow> TransactionId \<Rightarrow> TransactionId list \<Rightarrow> CommitSeqNo \<Rightarrow> bool \<Rightarrow> trans_logs \<Rightarrow>
   trans_error + trans_logs" where
  "UpdateCSNLogAtTransactionEND env xid subXids csn isCommit logs =
     (if TransactionIdIsNormal xid \<and> isCommit
      then set_csnlog env xid subXids (csn AND NOT COMMITSEQNO_COMMIT_INPROGRESS) logs
      else Inr logs)"

definition TransactionIdAsyncCommitTree ::
  "trans_env \<Rightarrow> TransactionId \<Rightarrow> TransactionId list \<Rightarrow> XLogRecPtr \<Rightarrow> CommitSeqNo \<Rightarrow> trans_logs \<Rightarrow>
   trans_error + trans_logs" where
  "TransactionIdAsyncCommitTree env xid xids lsn csn logs =
     result_bind (set_clog env xid xids CLOG_XID_STATUS_COMMITTED lsn logs) (\<lambda>logs.
       if RecoveryInProgress (csn_env_of env)
       then if csn > 0 then set_csnlog env xid xids csn logs else Inr logs
       else UpdateCSNLogAtTransactionEND env xid xids csn True logs)"

definition TransactionIdCommitTree ::
  "trans_env \<Rightarrow> TransactionId \<Rightarrow> TransactionId list \<Rightarrow> CommitSeqNo \<Rightarrow> trans_logs \<Rightarrow> trans_error + trans_logs" where
  "TransactionIdCommitTree env xid xids csn logs = TransactionIdAsyncCommitTree env xid xids 0 csn logs"

definition TransactionIdAbortTree ::
  "trans_env \<Rightarrow> TransactionId \<Rightarrow> TransactionId list \<Rightarrow> trans_logs \<Rightarrow> trans_error + trans_logs" where
  "TransactionIdAbortTree env xid xids logs =
     result_bind (set_clog env xid xids CLOG_XID_STATUS_ABORTED 0 logs)
       (set_csnlog env xid xids COMMITSEQNO_ABORTED)"

section \<open>Commit LSN and status\<close>

definition TransactionIdGetCommitLSN ::
  "trans_logs \<Rightarrow> TransactionId \<Rightarrow> fetch_cache \<Rightarrow> trans_error + XLogRecPtr" where
  "TransactionIdGetCommitLSN logs xid cache =
     (if xid = cachedFetchXid cache then Inr (cachedCommitLSN cache)
      else if \<not> TransactionIdIsNormal xid then Inr 0
      else case CLogGetStatus (slru (clog_part logs)) xid of
             Inl e \<Rightarrow> Inl (Clog_error e)
           | Inr (_, result) \<Rightarrow> Inr result)"

datatype TransactionIdStatus = XID_COMMITTED | XID_ABORTED | XID_INPROGRESS

definition TransactionIdGetStatus ::
  "trans_env \<Rightarrow> trans_logs \<Rightarrow> TransactionId \<Rightarrow> fetch_cache \<Rightarrow> TransactionIdStatus fetch" where
  "TransactionIdGetStatus env logs transactionId cache =
     (case TransactionIdGetCommitSeqNo env logs transactionId False True True None cache of
        None \<Rightarrow> None
      | Some (Inl e) \<Rightarrow> Some (Inl e)
      | Some (Inr (csn, cache)) \<Rightarrow>
          Some (Inr (if COMMITSEQNO_IS_COMMITTED csn then XID_COMMITTED
                     else if COMMITSEQNO_IS_ABORTED csn then XID_ABORTED
                     else XID_INPROGRESS, cache)))"

end
