(* ===== verification/Heap_Tuple_Model.thy ===== *)
theory Heap_Tuple_Model
  imports Trans_Log_Model
begin

text \<open>
  What the visibility checks of \<^verbatim>\<open>src/gausskernel/storage/access/heap/heapam_visibility.cpp\<close> work on: the
  header of a heap tuple with the macros of \<^verbatim>\<open>src/include/access/htup.h\<close>, the hint bits, and the
  tests of \<^verbatim>\<open>src/common/backend/utils/time/snapmgr.cpp\<close> whether a snapshot sees a transaction.

  The checks read the transaction logs through the caches of the thread, set hint bits, may mark a
  transaction aborted in the CSN log, and may wait for a transaction with the buffer unlocked: they
  are functions from the state to a result and a new state, with an error as a left injection and
  \<open>None\<close> when a walk or a loop goes on for ever.
\<close>

section \<open>Tuples\<close>

type_synonym ShortTransactionId = uint32
type_synonym CommandId = uint32
type_synonym ItemPointer = "nat \<times> nat"

record HeapTupleHeaderData =
  t_xmin :: ShortTransactionId
  t_xmax :: ShortTransactionId
  t_cid :: CommandId
  t_ctid :: ItemPointer
  t_infomask :: uint16
  t_infomask2 :: uint16

record HeapTupleData =
  t_self :: ItemPointer
  t_xid_base :: TransactionId
  t_multi_base :: TransactionId
  t_data :: HeapTupleHeaderData

definition HEAP_COMBOCID :: uint16 where "HEAP_COMBOCID = 0x0020"
definition HEAP_XMAX_EXCL_LOCK :: uint16 where "HEAP_XMAX_EXCL_LOCK = 0x0040"
definition HEAP_XMAX_SHARED_LOCK :: uint16 where "HEAP_XMAX_SHARED_LOCK = 0x0080"
definition HEAP_XMAX_KEYSHR_LOCK :: uint16 where
  "HEAP_XMAX_KEYSHR_LOCK = HEAP_XMAX_EXCL_LOCK OR HEAP_XMAX_SHARED_LOCK"
definition HEAP_LOCK_MASK :: uint16 where
  "HEAP_LOCK_MASK = (HEAP_XMAX_EXCL_LOCK OR HEAP_XMAX_SHARED_LOCK) OR HEAP_XMAX_KEYSHR_LOCK"
definition HEAP_XMIN_COMMITTED :: uint16 where "HEAP_XMIN_COMMITTED = 0x0100"
definition HEAP_XMIN_INVALID :: uint16 where "HEAP_XMIN_INVALID = 0x0200"
definition HEAP_XMIN_FROZEN :: uint16 where "HEAP_XMIN_FROZEN = HEAP_XMIN_INVALID OR HEAP_XMIN_COMMITTED"
definition HEAP_XMAX_COMMITTED :: uint16 where "HEAP_XMAX_COMMITTED = 0x0400"
definition HEAP_XMAX_INVALID :: uint16 where "HEAP_XMAX_INVALID = 0x0800"
definition HEAP_XMAX_IS_MULTI :: uint16 where "HEAP_XMAX_IS_MULTI = 0x1000"
definition HEAP_XMAX_LOCK_ONLY :: uint16 where "HEAP_XMAX_LOCK_ONLY = 0x0800"

text \<open>A C condition on masked bits.\<close>

definition has :: "uint16 \<Rightarrow> uint16 \<Rightarrow> bool" where
  "has infomask bits \<longleftrightarrow> infomask AND bits \<noteq> 0"

definition HEAP_XMAX_IS_LOCKED_ONLY :: "uint16 \<Rightarrow> uint16 \<Rightarrow> bool" where
  "HEAP_XMAX_IS_LOCKED_ONLY infomask infomask2 \<longleftrightarrow>
     has infomask2 HEAP_XMAX_LOCK_ONLY \<or> has infomask HEAP_XMAX_SHARED_LOCK \<or>
     infomask AND (HEAP_XMAX_IS_MULTI OR HEAP_LOCK_MASK) = HEAP_XMAX_EXCL_LOCK"

definition HeapTupleHeaderXminCommitted :: "HeapTupleHeaderData \<Rightarrow> bool" where
  "HeapTupleHeaderXminCommitted tup \<longleftrightarrow> has (t_infomask tup) HEAP_XMIN_COMMITTED"

definition HeapTupleHeaderXminInvalid :: "HeapTupleHeaderData \<Rightarrow> bool" where
  "HeapTupleHeaderXminInvalid tup \<longleftrightarrow>
     t_infomask tup AND (HEAP_XMIN_COMMITTED OR HEAP_XMIN_INVALID) = HEAP_XMIN_INVALID"

definition HeapTupleHeaderXminFrozen :: "HeapTupleHeaderData \<Rightarrow> bool" where
  "HeapTupleHeaderXminFrozen tup \<longleftrightarrow> t_infomask tup AND HEAP_XMIN_FROZEN = HEAP_XMIN_FROZEN"

definition locked_only :: "HeapTupleHeaderData \<Rightarrow> bool" where
  "locked_only tup \<longleftrightarrow> HEAP_XMAX_IS_LOCKED_ONLY (t_infomask tup) (t_infomask2 tup)"

definition ShortTransactionIdToNormal :: "TransactionId \<Rightarrow> ShortTransactionId \<Rightarrow> TransactionId" where
  "ShortTransactionIdToNormal base xid =
     (if TransactionIdIsNormal (ucast xid) then ucast xid + base else ucast xid)"

section \<open>State and environment\<close>

datatype MultiXactStatus =
    MultiXactStatusForShare | MultiXactStatusForKeyShare | MultiXactStatusForNoKeyUpdate
  | MultiXactStatusForUpdate | MultiXactStatusNoKeyUpdate | MultiXactStatusUpdate

definition ISUPDATE_from_mxstatus :: "MultiXactStatus \<Rightarrow> bool" where
  "ISUPDATE_from_mxstatus status \<longleftrightarrow> status = MultiXactStatusNoKeyUpdate \<or> status = MultiXactStatusUpdate"

text \<open>
  The state of a check: the tuple on its page, the caches of the thread, the logs, which
  transactions the process array shows as running and which of these ask to be waited for, the
  fields of a dirty snapshot, and the flag for the caller (\<open>None\<close> when it passed no pointer).
\<close>

record vis_state =
  htup :: HeapTupleData
  fcache :: fetch_cache
  vlogs :: trans_logs
  TransactionIdIsInProgress :: "TransactionId \<Rightarrow> bool"
  needSync :: "TransactionId \<Rightarrow> bool"
  snapshot_xmin :: TransactionId
  snapshot_xmax :: TransactionId
  has_cur_xact_write :: "bool option"

datatype vis_error =
    Trans_error trans_error
  | Status_error               \<comment> \<open>LatestTransactionStatusError\<close>
  | Still_committing           \<comment> \<open>FATAL: still COMMITTING after the primary waited\<close>
  | Combocid_error             \<comment> \<open>PANIC: cannot find valid cid in usedComboCids\<close>
  | Unresolved_cid             \<comment> \<open>could not resolve cmin/cmax of catalog tuple\<close>
  | Serialization_failure      \<comment> \<open>could not serialize access due to concurrent update\<close>
  | Xid_still_running          \<comment> \<open>RecheckXidFinish\<close>

type_synonym 'a vis = "vis_state \<Rightarrow> (vis_error + ('a \<times> vis_state)) option"

text \<open>
  What a check reads of the page, the session and other modules. \<open>SyncWaitXidEnd\<close> gives the
  state after the wait: other threads may have changed anything. \<open>SSTransactionIdGetCommitSeqNo\<close> asks
  the primary node of a shared-storage cluster, which may have waited for the transaction.
\<close>

record vis_env =
  tenv :: trans_env
  pd_xid_base :: TransactionId
  pd_multi_base :: TransactionId
  TransactionIdIsCurrentTransactionId :: "TransactionId \<Rightarrow> bool"
  CurrentCommandId :: CommandId
  GetMultiXactIdMembers :: "TransactionId \<Rightarrow> (TransactionId \<times> MultiXactStatus) list"
  SSMultiXactIdGetUpdateXid :: "TransactionId \<Rightarrow> uint16 \<Rightarrow> uint16 \<Rightarrow> TransactionId"
  MultiXactIdIsRunning :: "TransactionId \<Rightarrow> bool"
  comboCids :: "(CommandId \<times> CommandId) list"
  StreamThreadAmI :: bool
  SyncWaitXidEnd :: "TransactionId \<Rightarrow> vis_state \<Rightarrow> vis_state"
  SSTransactionIdGetCommitSeqNo :: "TransactionId \<Rightarrow> bool \<Rightarrow> SnapshotData \<Rightarrow> (CommitSeqNo \<times> bool) vis"
  ResolveCminCmaxDuringDecoding :: "HeapTupleData \<Rightarrow> (CommandId \<times> CommandId) option"
  enable_cluster_resize :: bool
  BufferIsPermanent :: bool
  XLogNeedsFlush :: "XLogRecPtr \<Rightarrow> bool"
  BufferGetLSNAtomic :: XLogRecPtr
  show_any_tuples :: bool
  bInAbortTransaction :: bool
  IsInitdb :: bool
  IsolationUsesXactSnapshot :: bool

section \<open>Sequencing\<close>

definition vret :: "'a \<Rightarrow> 'a vis" where
  "vret x = (\<lambda>s. Some (Inr (x, s)))"

definition vraise :: "vis_error \<Rightarrow> 'a vis" where
  "vraise e = (\<lambda>s. Some (Inl e))"

definition vbind :: "'a vis \<Rightarrow> ('a \<Rightarrow> 'b vis) \<Rightarrow> 'b vis" where
  "vbind m f = (\<lambda>s. case m s of
      None \<Rightarrow> None
    | Some (Inl e) \<Rightarrow> Some (Inl e)
    | Some (Inr (x, s')) \<Rightarrow> f x s')"

definition vthen :: "unit vis \<Rightarrow> 'b vis \<Rightarrow> 'b vis" where
  "vthen m k = vbind m (\<lambda>_. k)"

definition vread :: "(vis_state \<Rightarrow> 'a vis) \<Rightarrow> 'a vis" where
  "vread f = (\<lambda>s. f s s)"

definition vmod :: "(vis_state \<Rightarrow> vis_state) \<Rightarrow> unit vis" where
  "vmod f = (\<lambda>s. Some (Inr ((), f s)))"

text \<open>A routine of the transaction logs.\<close>

definition fetch_vis :: "(trans_logs \<Rightarrow> fetch_cache \<Rightarrow> 'a fetch) \<Rightarrow> 'a vis" where
  "fetch_vis f = (\<lambda>s. case f (vlogs s) (fcache s) of
      None \<Rightarrow> None
    | Some (Inl e) \<Rightarrow> Some (Inl (Trans_error e))
    | Some (Inr (x, c)) \<Rightarrow> Some (Inr (x, s\<lparr>fcache := c\<rparr>)))"

definition DidCommit :: "vis_env \<Rightarrow> TransactionId \<Rightarrow> bool vis" where
  "DidCommit env xid = fetch_vis (\<lambda>logs. TransactionIdDidCommit (tenv env) logs xid)"

definition GetStatus :: "vis_env \<Rightarrow> TransactionId \<Rightarrow> TransactionIdStatus vis" where
  "GetStatus env xid = fetch_vis (\<lambda>logs. TransactionIdGetStatus (tenv env) logs xid)"

definition GetCommitSeqNo :: "vis_env \<Rightarrow> TransactionId \<Rightarrow> bool \<Rightarrow> SnapshotData \<Rightarrow> CommitSeqNo vis" where
  "GetCommitSeqNo env xid isCommit snapshot =
     fetch_vis (\<lambda>logs. TransactionIdGetCommitSeqNo (tenv env) logs xid isCommit True False (Some snapshot))"

section \<open>Reading the header\<close>

abbreviation hdr :: "vis_state \<Rightarrow> HeapTupleHeaderData" where
  "hdr s \<equiv> t_data (htup s)"

definition HeapTupleHeaderGetXmin :: "vis_env \<Rightarrow> HeapTupleHeaderData \<Rightarrow> TransactionId" where
  "HeapTupleHeaderGetXmin env tup = ShortTransactionIdToNormal (pd_xid_base env) (t_xmin tup)"

definition HeapTupleHeaderGetXmax :: "vis_env \<Rightarrow> HeapTupleHeaderData \<Rightarrow> TransactionId" where
  "HeapTupleHeaderGetXmax env tup =
     ShortTransactionIdToNormal
       (if has (t_infomask tup) HEAP_XMAX_IS_MULTI then pd_multi_base env else pd_xid_base env) (t_xmax tup)"

definition HeapTupleHeaderGetRawXmax :: "vis_env \<Rightarrow> HeapTupleHeaderData \<Rightarrow> TransactionId" where
  "HeapTupleHeaderGetRawXmax env tup = HeapTupleHeaderGetXmax env tup"

definition HeapTupleGetRawXmin :: "HeapTupleData \<Rightarrow> TransactionId" where
  "HeapTupleGetRawXmin tup = ShortTransactionIdToNormal (t_xid_base tup) (t_xmin (t_data tup))"

definition HeapTupleGetRawXmax :: "HeapTupleData \<Rightarrow> TransactionId" where
  "HeapTupleGetRawXmax tup =
     ShortTransactionIdToNormal
       (if has (t_infomask (t_data tup)) HEAP_XMAX_IS_MULTI then t_multi_base tup else t_xid_base tup)
       (t_xmax (t_data tup))"

definition HeapTupleCopyBaseFromPage :: "vis_env \<Rightarrow> HeapTupleData \<Rightarrow> HeapTupleData" where
  "HeapTupleCopyBaseFromPage env tup = tup\<lparr>t_xid_base := pd_xid_base env, t_multi_base := pd_multi_base env\<rparr>"

definition MultiXactIdGetUpdateXid :: "vis_env \<Rightarrow> TransactionId \<Rightarrow> uint16 \<Rightarrow> uint16 \<Rightarrow> TransactionId" where
  "MultiXactIdGetUpdateXid env xmax infomask infomask2 =
     (if ENABLE_DMS (tenv env) \<and> \<not> (SS_PRIMARY_MODE (tenv env) \<or> SS_OFFICIAL_PRIMARY (tenv env))
      then SSMultiXactIdGetUpdateXid env xmax infomask infomask2
      else case find (\<lambda>m. ISUPDATE_from_mxstatus (snd m)) (GetMultiXactIdMembers env xmax) of
             None \<Rightarrow> InvalidTransactionId
           | Some m \<Rightarrow> fst m)"

definition HeapTupleHeaderMultiXactGetUpdateXid :: "vis_env \<Rightarrow> HeapTupleHeaderData \<Rightarrow> TransactionId" where
  "HeapTupleHeaderMultiXactGetUpdateXid env tup =
     MultiXactIdGetUpdateXid env (HeapTupleHeaderGetRawXmax env tup) (t_infomask tup) (t_infomask2 tup)"

definition HeapTupleMultiXactGetUpdateXid :: "vis_env \<Rightarrow> HeapTupleData \<Rightarrow> TransactionId" where
  "HeapTupleMultiXactGetUpdateXid env tup =
     MultiXactIdGetUpdateXid env (HeapTupleGetRawXmax tup) (t_infomask (t_data tup)) (t_infomask2 (t_data tup))"

definition HeapTupleHeaderGetUpdateXid :: "vis_env \<Rightarrow> HeapTupleHeaderData \<Rightarrow> TransactionId" where
  "HeapTupleHeaderGetUpdateXid env tup =
     (if \<not> has (t_infomask tup) HEAP_XMAX_INVALID \<and> has (t_infomask tup) HEAP_XMAX_IS_MULTI \<and>
         \<not> has (t_infomask2 tup) HEAP_XMAX_LOCK_ONLY
      then HeapTupleHeaderMultiXactGetUpdateXid env tup else HeapTupleHeaderGetRawXmax env tup)"

definition GetRealCmin :: "vis_env \<Rightarrow> CommandId \<Rightarrow> CommandId" where
  "GetRealCmin env combocid = fst (comboCids env ! unat combocid)"

definition GetRealCmax :: "vis_env \<Rightarrow> CommandId \<Rightarrow> CommandId" where
  "GetRealCmax env combocid = snd (comboCids env ! unat combocid)"

definition HeapTupleHeaderGetCmin :: "vis_env \<Rightarrow> HeapTupleHeaderData \<Rightarrow> CommandId" where
  "HeapTupleHeaderGetCmin env tup =
     (if has (t_infomask tup) HEAP_COMBOCID then GetRealCmin env (t_cid tup) else t_cid tup)"

definition HeapTupleHeaderGetCmax :: "vis_env \<Rightarrow> HeapTupleHeaderData \<Rightarrow> CommandId" where
  "HeapTupleHeaderGetCmax env tup =
     (if has (t_infomask tup) HEAP_COMBOCID then GetRealCmax env (t_cid tup) else t_cid tup)"

definition CheckStreamCombocid :: "vis_env \<Rightarrow> HeapTupleHeaderData \<Rightarrow> bool vis" where
  "CheckStreamCombocid env tup =
     (if unat (t_cid tup) \<ge> length (comboCids env)
      then if StreamThreadAmI env then vret True else vraise Combocid_error
      else vret False)"

section \<open>Hint bits\<close>

definition set_infomask :: "uint16 \<Rightarrow> vis_state \<Rightarrow> vis_state" where
  "set_infomask infomask s =
     s\<lparr>htup := (htup s)\<lparr>t_data := (hdr s)\<lparr>t_infomask := t_infomask (hdr s) OR infomask\<rparr>\<rparr>\<rparr>"

definition SetHintBits :: "vis_env \<Rightarrow> uint16 \<Rightarrow> TransactionId \<Rightarrow> unit vis" where
  "SetHintBits env infomask xid = (\<lambda>s.
     let csn_env = csn_env_of (tenv env)
     in if DMS_STANDBY csn_env then Some (Inr ((), s))
        else if (useLocalSnapshot csn_env \<and> \<not> has infomask HEAP_XMIN_COMMITTED) \<or> RecoveryInProgress csn_env \<or>
                IsRoachStandbyCluster csn_env
        then Some (Inr ((), s))
        else if XactIsoLevel_READ_UNCOMMITTED (tenv env) \<and> \<not> has infomask HEAP_XMIN_COMMITTED
        then Some (Inr ((), s))
        else if enable_cluster_resize env then Some (Inr ((), s))
        else if has (t_infomask (hdr s)) infomask then Some (Inr ((), s))
        else if TransactionIdIsValid xid
        then case TransactionIdGetCommitLSN (vlogs s) xid (fcache s) of
               Inl e \<Rightarrow> Some (Inl (Trans_error e))
             | Inr commitLSN \<Rightarrow>
                 if BufferIsPermanent env \<and> XLogNeedsFlush env commitLSN \<and> BufferGetLSNAtomic env < commitLSN
                 then Some (Inr ((), s))
                 else Some (Inr ((), set_infomask infomask s))
        else Some (Inr ((), set_infomask infomask s)))"

definition HeapTupleSetHintBits :: "vis_env \<Rightarrow> uint16 \<Rightarrow> TransactionId \<Rightarrow> unit vis" where
  "HeapTupleSetHintBits env infomask xid = SetHintBits env infomask xid"

text \<open>The test before an aborted hint is set: the last status fetched must not contradict it.\<close>

definition check_latest_abort :: "vis_env \<Rightarrow> TransactionId \<Rightarrow> unit vis" where
  "check_latest_abort env xid = (\<lambda>s.
     if \<not> LatestFetchTransactionIdDidAbort (tenv env) xid (fcache s) then Some (Inl Status_error)
     else Some (Inr ((), s)))"

definition check_latest_csn_abort :: "vis_env \<Rightarrow> TransactionId \<Rightarrow> unit vis" where
  "check_latest_csn_abort env xid = (\<lambda>s.
     if \<not> LatestFetchCSNDidAbort (tenv env) xid (fcache s) then Some (Inl Status_error)
     else Some (Inr ((), s)))"

section \<open>Snapshots and transactions\<close>

definition GET_COMMITSEQNO :: "CommitSeqNo \<Rightarrow> CommitSeqNo" where
  "GET_COMMITSEQNO csn = csn AND MAX_COMMITSEQNO"

definition TransactionIdIsPreparedAtSnapshot :: "TransactionId \<Rightarrow> SnapshotData \<Rightarrow> bool" where
  "TransactionIdIsPreparedAtSnapshot xid snapshot \<longleftrightarrow> xid \<in> set (prepared_array snapshot)"

definition IsXidVisibleInGtmLiteLocalSnapshot ::
  "vis_env \<Rightarrow> TransactionId \<Rightarrow> SnapshotData \<Rightarrow> TransactionIdStatus \<Rightarrow> bool \<Rightarrow> bool \<Rightarrow> (bool \<times> bool) vis" where
  "IsXidVisibleInGtmLiteLocalSnapshot env xid snapshot hint_status xmin_equal_xmax sync =
     (if hint_status = XID_ABORTED \<or> xmin_equal_xmax then vret (False, sync)
      else if \<not> bInAbortTransaction env \<and> TransactionIdIsPreparedAtSnapshot xid snapshot
      then if hint_status = XID_COMMITTED then vret (True, sync)
           else if xc_maintenance_mode (tenv env) then vret (False, sync)
           else vthen (vmod (SyncWaitXidEnd env xid))
                  (vbind (DidCommit env xid) (\<lambda>did_commit. vret (did_commit, True)))
      else vret (False, sync))"

definition RecheckXidFinish :: "vis_env \<Rightarrow> TransactionId \<Rightarrow> unit vis" where
  "RecheckXidFinish env xid = vread (\<lambda>s.
     if TransactionIdIsInProgress s xid then vraise Xid_still_running else vret ())"

definition set_csn_vis :: "vis_env \<Rightarrow> TransactionId \<Rightarrow> CommitSeqNo \<Rightarrow> unit vis" where
  "set_csn_vis env xid csn = (\<lambda>s.
     case set_csnlog (tenv env) xid [] csn (vlogs s) of
       Inl e \<Rightarrow> Some (Inl (Trans_error e))
     | Inr logs \<Rightarrow> Some (Inr ((), s\<lparr>vlogs := logs, fcache := SetLatestFetchState xid csn (fcache s)\<rparr>)))"

definition fetch_for_snapshot :: "vis_env \<Rightarrow> TransactionId \<Rightarrow> bool \<Rightarrow> SnapshotData \<Rightarrow> (CommitSeqNo \<times> bool) vis" where
  "fetch_for_snapshot env xid isCommit snapshot =
     (let fetch_here = vbind (GetCommitSeqNo env xid isCommit snapshot) (\<lambda>csn. vret (csn, False))
      in if ENABLE_DMS (tenv env)
         then if SS_PRIMARY_MODE (tenv env) \<or> SS_OFFICIAL_PRIMARY (tenv env) then fetch_here
              else SSTransactionIdGetCommitSeqNo env xid isCommit snapshot
         else fetch_here)"

text \<open>
  One pass of the loop; \<open>again\<close> is the second pass, which there is when the code has not
  looped yet. The result has the visibility, the status for the hint bits, and whether the
  code waited.
\<close>

definition xid_visible_pass ::
  "vis_env \<Rightarrow> TransactionId \<Rightarrow> SnapshotData \<Rightarrow> bool \<Rightarrow> (bool \<times> TransactionIdStatus \<times> bool) vis option \<Rightarrow>
   (bool \<times> TransactionIdStatus \<times> bool) vis" where
  "xid_visible_pass env xid snapshot waited again =
     vbind (fetch_for_snapshot env xid False snapshot) (\<lambda>(csn, primary_waited).
       let sync = waited \<or> primary_waited in if COMMITSEQNO_IS_COMMITTED csn
       then vret (csn < snapshotcsn snapshot, XID_COMMITTED, sync)
       else if COMMITSEQNO_IS_COMMITTING csn
       then
         if DMS_STANDBY (csn_env_of (tenv env)) then vraise Still_committing
         else case again of
           None \<Rightarrow>
             vthen (RecheckXidFinish env xid)
               (vthen (set_csn_vis env xid COMMITSEQNO_ABORTED) (vret (False, XID_ABORTED, sync)))
         | Some loop \<Rightarrow>
             if \<not> COMMITSEQNO_IS_SUBTRANS csn \<and> GET_COMMITSEQNO csn \<ge> snapshotcsn snapshot
             then vret (False, XID_INPROGRESS, sync)
             else if xc_maintenance_mode (tenv env) \<or> bInAbortTransaction env
             then vret (False, XID_INPROGRESS, sync)
             else
               let parentXid = (if COMMITSEQNO_IS_SUBTRANS csn then GET_PARENTXID csn else InvalidTransactionId)
               in vthen (vmod (SyncWaitXidEnd env (if TransactionIdIsValid parentXid then parentXid else xid))) loop
       else vret (False, if csn = COMMITSEQNO_ABORTED then XID_ABORTED else XID_INPROGRESS, sync))"

definition XidVisibleInSnapshot ::
  "vis_env \<Rightarrow> TransactionId \<Rightarrow> SnapshotData \<Rightarrow> (bool \<times> TransactionIdStatus \<times> bool) vis" where
  "XidVisibleInSnapshot env xid snapshot =
     xid_visible_pass env xid snapshot False (Some (xid_visible_pass env xid snapshot True None))"

definition XidVisibleInDecodeSnapshot ::
  "vis_env \<Rightarrow> TransactionId \<Rightarrow> SnapshotData \<Rightarrow> (bool \<times> TransactionIdStatus) vis" where
  "XidVisibleInDecodeSnapshot env xid snapshot =
     vbind (GetCommitSeqNo env xid False snapshot) (\<lambda>csn.
       if COMMITSEQNO_IS_COMMITTED csn then vret (csn < snapshotcsn snapshot, XID_COMMITTED)
       else vret (False, if csn = COMMITSEQNO_ABORTED then XID_ABORTED else XID_INPROGRESS))"

definition committed_visible_pass ::
  "vis_env \<Rightarrow> TransactionId \<Rightarrow> SnapshotData \<Rightarrow> bool vis option \<Rightarrow> bool vis" where
  "committed_visible_pass env xid snapshot again =
     vbind (fetch_for_snapshot env xid True snapshot) (\<lambda>(csn, primary_waited).
       if COMMITSEQNO_IS_COMMITTING csn
       then
         if DMS_STANDBY (csn_env_of (tenv env)) then vraise Still_committing
         else case again of
           None \<Rightarrow> vthen (set_csn_vis env xid COMMITSEQNO_FROZEN) (vret True)
         | Some loop \<Rightarrow>
             if \<not> COMMITSEQNO_IS_SUBTRANS csn \<and> GET_COMMITSEQNO csn \<ge> snapshotcsn snapshot then vret False
             else if xc_maintenance_mode (tenv env) \<or> bInAbortTransaction env then vret False
             else
               let parentXid = (if COMMITSEQNO_IS_SUBTRANS csn then GET_PARENTXID csn else InvalidTransactionId)
               in vthen (vmod (SyncWaitXidEnd env (if TransactionIdIsValid parentXid then parentXid else xid))) loop
       else if \<not> COMMITSEQNO_IS_COMMITTED csn then vret True
       else vret (csn < snapshotcsn snapshot))"

definition CommittedXidVisibleInSnapshot :: "vis_env \<Rightarrow> TransactionId \<Rightarrow> SnapshotData \<Rightarrow> bool vis" where
  "CommittedXidVisibleInSnapshot env xid snapshot =
     (if (\<not> GTM_LITE_MODE (tenv env) \<or> gtm_snapshot_type snapshot = GTM_SNAPSHOT_TYPE_LOCAL) \<and>
         TransactionIdPrecedes xid (snap_xmin snapshot)
      then vret True
      else committed_visible_pass env xid snapshot (Some (committed_visible_pass env xid snapshot None)))"

definition CommittedXidVisibleInDecodeSnapshot :: "vis_env \<Rightarrow> TransactionId \<Rightarrow> SnapshotData \<Rightarrow> bool vis" where
  "CommittedXidVisibleInDecodeSnapshot env xid snapshot =
     vbind (GetCommitSeqNo env xid True snapshot) (\<lambda>csn.
       if COMMITSEQNO_IS_COMMITTING csn then vret False
       else if \<not> COMMITSEQNO_IS_COMMITTED csn then vret True
       else vret (csn < snapshotcsn snapshot))"

end
