(* ===== verification/Heap_Visibility_Model.thy ===== *)
theory Heap_Visibility_Model
  imports Heap_Tuple_Model
begin

text \<open>
  The visibility checks of \<^verbatim>\<open>src/gausskernel/storage/access/heap/heapam_visibility.cpp\<close>. A check that
  looks first at the inserting and then at the deleting transaction is two definitions; the
  first returns \<open>Some\<close> answer, or \<open>None\<close> to go on. The logging of debug builds is left out.
\<close>

section \<open>The checks without a snapshot\<close>

abbreviation xmin_of_tuple :: "vis_env \<Rightarrow> vis_state \<Rightarrow> TransactionId" where
  "xmin_of_tuple env s \<equiv> HeapTupleHeaderGetXmin env (hdr s)"

abbreviation xmax_of_tuple :: "vis_env \<Rightarrow> vis_state \<Rightarrow> TransactionId" where
  "xmax_of_tuple env s \<equiv> HeapTupleHeaderGetXmax env (hdr s)"

definition go_on :: "'a option vis \<Rightarrow> 'a vis \<Rightarrow> 'a vis" where
  "go_on m k = vbind m (\<lambda>r. case r of Some x \<Rightarrow> vret x | None \<Rightarrow> k)"

definition DealCurrentTansactionNotCommited :: "vis_env \<Rightarrow> bool vis" where
  "DealCurrentTansactionNotCommited env = vread (\<lambda>s.
     if has (t_infomask (hdr s)) HEAP_XMAX_INVALID then vret True
     else if locked_only (hdr s) then vret True
     else if has (t_infomask (hdr s)) HEAP_XMAX_IS_MULTI
     then vret (\<not> TransactionIdIsCurrentTransactionId env (HeapTupleHeaderMultiXactGetUpdateXid env (hdr s)))
     else if \<not> TransactionIdIsCurrentTransactionId env (xmax_of_tuple env s)
     then vthen (SetHintBits env HEAP_XMAX_INVALID InvalidTransactionId) (vret True)
     else vret False)"

text \<open>
  The end of the test of the inserting transaction in several checks: committed, and its hint
  is set, or aborted or crashed.
\<close>

definition xmin_finished :: "vis_env \<Rightarrow> TransactionId \<Rightarrow> 'a \<Rightarrow> 'a option vis" where
  "xmin_finished env xmin aborted =
     vbind (DidCommit env xmin) (\<lambda>did_commit.
       if did_commit then vthen (SetHintBits env HEAP_XMIN_COMMITTED xmin) (vret None)
       else vthen (check_latest_abort env xmin)
              (vthen (SetHintBits env HEAP_XMIN_INVALID InvalidTransactionId) (vret (Some aborted))))"

definition Self_xmin :: "vis_env \<Rightarrow> bool option vis" where
  "Self_xmin env = vread (\<lambda>s.
     let xmin = xmin_of_tuple env s
     in if \<not> HeapTupleHeaderXminCommitted (hdr s)
        then
          if HeapTupleHeaderXminInvalid (hdr s) then vret (Some False)
          else if TransactionIdIsCurrentTransactionId env xmin
          then vbind (DealCurrentTansactionNotCommited env) (\<lambda>r. vret (Some r))
          else if TransactionIdIsInProgress s xmin then vret (Some False)
          else xmin_finished env xmin False
        else vret None)"

text \<open>
  The end of the test of the deleting transaction in several checks, once it is known not to
  be running: \<open>dead\<close> is the answer when it committed and really deleted the tuple.
\<close>

definition xmax_finished :: "vis_env \<Rightarrow> TransactionId \<Rightarrow> 'a \<Rightarrow> 'a \<Rightarrow> 'a vis" where
  "xmax_finished env xmax live dead =
     vbind (DidCommit env xmax) (\<lambda>did_commit.
       if \<not> did_commit
       then vthen (check_latest_abort env xmax)
              (vthen (SetHintBits env HEAP_XMAX_INVALID InvalidTransactionId) (vret live))
       else vread (\<lambda>s.
         if locked_only (hdr s)
         then vthen (SetHintBits env HEAP_XMAX_INVALID InvalidTransactionId) (vret live)
         else vthen (SetHintBits env HEAP_XMAX_COMMITTED xmax) (vret dead)))"

definition Self_xmax :: "vis_env \<Rightarrow> bool vis" where
  "Self_xmax env = vread (\<lambda>s.
     let infomask = t_infomask (hdr s)
     in if has infomask HEAP_XMAX_INVALID then vret True
        else if has infomask HEAP_XMAX_COMMITTED then vret (locked_only (hdr s))
        else if has infomask HEAP_XMAX_IS_MULTI
        then
          if locked_only (hdr s) then vret True
          else
            let xmax = HeapTupleHeaderMultiXactGetUpdateXid env (hdr s)
            in if TransactionIdIsCurrentTransactionId env xmax then vret False
               else if TransactionIdIsInProgress s xmax then vret True
               else vbind (DidCommit env xmax) (\<lambda>did_commit. vret (\<not> did_commit))
        else if TransactionIdIsCurrentTransactionId env (xmax_of_tuple env s) then vret (locked_only (hdr s))
        else if TransactionIdIsInProgress s (xmax_of_tuple env s) then vret True
        else xmax_finished env (xmax_of_tuple env s) True False)"

definition HeapTupleSatisfiesSelf :: "vis_env \<Rightarrow> bool vis" where
  "HeapTupleSatisfiesSelf env = go_on (Self_xmin env) (Self_xmax env)"

text \<open>In the build without multiple nodes no synchronisation is needed, so that a scan of now never waits and restarts.\<close>

definition NeedSyncXact :: "bool \<Rightarrow> bool" where
  "NeedSyncXact syncFlag \<longleftrightarrow> False"

text \<open>\<^verbatim>\<open>*has_cur_xact_write = true\<close>, when the caller passed the pointer.\<close>

definition note_write :: "bool \<Rightarrow> unit vis" where
  "note_write cond = vmod (\<lambda>s. if has_cur_xact_write s \<noteq> None \<and> cond
     then s\<lparr>has_cur_xact_write := Some True\<rparr> else s)"

definition Now_xmin :: "vis_env \<Rightarrow> bool option vis" where
  "Now_xmin env = vread (\<lambda>s.
     let xmin = xmin_of_tuple env s; infomask = t_infomask (hdr s)
     in if \<not> has infomask HEAP_XMIN_COMMITTED
        then
          if has infomask HEAP_XMIN_INVALID then vret (Some False)
          else if TransactionIdIsCurrentTransactionId env xmin
          then
            vthen (note_write (HeapTupleHeaderGetCmin env (hdr s) < CurrentCommandId env))
              (if HeapTupleHeaderGetCmin env (hdr s) \<ge> CurrentCommandId env then vret (Some False)
               else if has infomask HEAP_XMAX_INVALID then vret (Some True)
               else if locked_only (hdr s) then vret (Some True)
               else if has infomask HEAP_XMAX_IS_MULTI
               then
                 let xmax = HeapTupleHeaderMultiXactGetUpdateXid env (hdr s)
                 in if \<not> TransactionIdIsValid xmax then vret (Some True)
                    else vret (Some (\<not> TransactionIdIsCurrentTransactionId env xmax))
               else if \<not> TransactionIdIsCurrentTransactionId env (xmax_of_tuple env s)
               then vthen (SetHintBits env HEAP_XMAX_INVALID InvalidTransactionId) (vret (Some True))
               else vret (Some (HeapTupleHeaderGetCmax env (hdr s) \<ge> CurrentCommandId env)))
          else if TransactionIdIsInProgress s xmin \<and> \<not> NeedSyncXact (needSync s xmin) then vret (Some False)
          else xmin_finished env xmin False
        else vret None)"

definition Now_xmax :: "vis_env \<Rightarrow> bool vis" where
  "Now_xmax env = vread (\<lambda>s.
     let infomask = t_infomask (hdr s)
     in if has infomask HEAP_XMAX_INVALID then vret True
        else if has infomask HEAP_XMAX_COMMITTED then vret (locked_only (hdr s))
        else if has infomask HEAP_XMAX_IS_MULTI
        then
          if locked_only (hdr s) then vret True
          else
            let xmax = HeapTupleHeaderMultiXactGetUpdateXid env (hdr s)
            in if \<not> TransactionIdIsValid xmax then vret True
               else if TransactionIdIsCurrentTransactionId env xmax
               then vret (HeapTupleHeaderGetCmax env (hdr s) \<ge> CurrentCommandId env)
               else if TransactionIdIsInProgress s xmax then vret True
               else vbind (DidCommit env xmax) (\<lambda>did_commit. vret (\<not> did_commit))
        else if TransactionIdIsCurrentTransactionId env (xmax_of_tuple env s)
        then
          vthen (note_write (HeapTupleHeaderGetCmax env (hdr s) < CurrentCommandId env))
            (if locked_only (hdr s) then vret True
             else vret (HeapTupleHeaderGetCmax env (hdr s) \<ge> CurrentCommandId env))
        else if TransactionIdIsInProgress s (xmax_of_tuple env s) \<and> \<not> NeedSyncXact (needSync s (xmax_of_tuple env s))
        then vret True
        else xmax_finished env (xmax_of_tuple env s) True False)"

definition HeapTupleSatisfiesNow :: "vis_env \<Rightarrow> bool vis" where
  "HeapTupleSatisfiesNow env = go_on (Now_xmin env) (Now_xmax env)"

definition HeapTupleSatisfiesAny :: "bool vis" where
  "HeapTupleSatisfiesAny = vret True"

definition HeapTupleSatisfiesToast :: "vis_env \<Rightarrow> bool vis" where
  "HeapTupleSatisfiesToast env = vread (\<lambda>s.
     if \<not> HeapTupleHeaderXminCommitted (hdr s)
     then if HeapTupleHeaderXminInvalid (hdr s) then vret False
          else if \<not> TransactionIdIsValid (xmin_of_tuple env s) then vret False
          else vret True
     else vret True)"

definition Dirty_xmin :: "vis_env \<Rightarrow> bool option vis" where
  "Dirty_xmin env = vread (\<lambda>s.
     let xmin = xmin_of_tuple env s
     in if \<not> HeapTupleHeaderXminCommitted (hdr s)
        then
          if HeapTupleHeaderXminInvalid (hdr s) then vret (Some False)
          else if TransactionIdIsCurrentTransactionId env xmin
          then vbind (DealCurrentTansactionNotCommited env) (\<lambda>r. vret (Some r))
          else if TransactionIdIsInProgress s xmin
          then vthen (vmod (\<lambda>s. s\<lparr>snapshot_xmin := xmin\<rparr>)) (vret (Some True))
          else xmin_finished env xmin False
        else vret None)"

definition Dirty_xmax :: "vis_env \<Rightarrow> bool vis" where
  "Dirty_xmax env = vread (\<lambda>s.
     let infomask = t_infomask (hdr s)
     in if has infomask HEAP_XMAX_INVALID then vret True
        else if has infomask HEAP_XMAX_COMMITTED then vret (locked_only (hdr s))
        else if has infomask HEAP_XMAX_IS_MULTI
        then
          if locked_only (hdr s) then vret True
          else
            let xmax = HeapTupleHeaderMultiXactGetUpdateXid env (hdr s)
            in if TransactionIdIsCurrentTransactionId env xmax then vret False
               else if TransactionIdIsInProgress s xmax
               then vthen (vmod (\<lambda>s. s\<lparr>snapshot_xmax := xmax\<rparr>)) (vret True)
               else vbind (DidCommit env xmax) (\<lambda>did_commit. vret (\<not> did_commit))
        else if TransactionIdIsCurrentTransactionId env (xmax_of_tuple env s) then vret (locked_only (hdr s))
        else if TransactionIdIsInProgress s (xmax_of_tuple env s)
        then vthen (vmod (\<lambda>s. s\<lparr>snapshot_xmax := xmax_of_tuple env s\<rparr>)) (vret True)
        else xmax_finished env (xmax_of_tuple env s) True False)"

definition HeapTupleSatisfiesDirty :: "vis_env \<Rightarrow> bool vis" where
  "HeapTupleSatisfiesDirty env =
     vthen (vmod (\<lambda>s. s\<lparr>snapshot_xmin := InvalidTransactionId, snapshot_xmax := InvalidTransactionId\<rparr>))
       (go_on (Dirty_xmin env) (Dirty_xmax env))"

section \<open>Update\<close>

datatype TM_Result =
    TM_Ok | TM_Invisible | TM_SelfModified | TM_Updated | TM_Deleted | TM_BeingModified
  | TM_SelfCreated | TM_SelfUpdated | TM_WouldBlock

definition self_modified :: "vis_env \<Rightarrow> CommandId \<Rightarrow> HeapTupleHeaderData \<Rightarrow> TM_Result" where
  "self_modified env cid tup =
     (if HeapTupleHeaderGetCmax env tup \<ge> cid then TM_SelfModified else TM_Invisible)"

definition updated_or_deleted :: "HeapTupleData \<Rightarrow> TM_Result" where
  "updated_or_deleted tup = (if t_self tup \<noteq> t_ctid (t_data tup) then TM_Updated else TM_Deleted)"

text \<open>The tuple was inserted by the current transaction.\<close>

definition Update_own :: "vis_env \<Rightarrow> CommandId \<Rightarrow> bool \<Rightarrow> TM_Result vis" where
  "Update_own env cid self_visible = vread (\<lambda>s.
     let infomask = t_infomask (hdr s)
     in if HeapTupleHeaderGetCmin env (hdr s) > cid then vret TM_Invisible
        else if HeapTupleHeaderGetCmin env (hdr s) = cid \<and> \<not> self_visible then vret TM_SelfCreated
        else if has infomask HEAP_XMAX_INVALID then vret TM_Ok
        else if locked_only (hdr s)
        then
          let xmax = HeapTupleHeaderGetRawXmax env (hdr s)
          in if has infomask HEAP_XMAX_IS_MULTI
             then vret (if MultiXactIdIsRunning env xmax then TM_BeingModified else TM_Ok)
             else if \<not> TransactionIdIsInProgress s xmax then vret TM_Ok
             else vret TM_BeingModified
        else if has infomask HEAP_XMAX_IS_MULTI
        then
          let xmax = HeapTupleHeaderMultiXactGetUpdateXid env (hdr s)
          in if \<not> TransactionIdIsCurrentTransactionId env xmax
             then vret (if MultiXactIdIsRunning env (HeapTupleHeaderGetRawXmax env (hdr s))
                        then TM_BeingModified else TM_Ok)
             else vret (self_modified env cid (hdr s))
        else if \<not> TransactionIdIsCurrentTransactionId env (xmax_of_tuple env s)
        then vthen (SetHintBits env HEAP_XMAX_INVALID InvalidTransactionId) (vret TM_Ok)
        else vret (self_modified env cid (hdr s)))"

text \<open>The first part; \<open>Inl\<close> asks for a restart after a wait.\<close>

definition Update_xmin :: "vis_env \<Rightarrow> CommandId \<Rightarrow> bool \<Rightarrow> (unit + TM_Result) option vis" where
  "Update_xmin env cid self_visible = vread (\<lambda>s.
     let xmin = xmin_of_tuple env s
     in if \<not> HeapTupleHeaderXminCommitted (hdr s)
        then
          if HeapTupleHeaderXminInvalid (hdr s) then vret (Some (Inr TM_Invisible))
          else if TransactionIdIsCurrentTransactionId env xmin
          then vbind (Update_own env cid self_visible) (\<lambda>r. vret (Some (Inr r)))
          else if TransactionIdIsInProgress s xmin
          then if needSync s xmin
               then vthen (vmod (SyncWaitXidEnd env xmin)) (vret (Some (Inl ())))
               else vret (Some (Inr TM_Invisible))
          else xmin_finished env xmin (Inr TM_Invisible)
        else vret None)"

definition Update_xmax_multi :: "vis_env \<Rightarrow> CommandId \<Rightarrow> TM_Result vis" where
  "Update_xmax_multi env cid = vread (\<lambda>s.
     if locked_only (hdr s)
     then
       if has (t_infomask (hdr s)) HEAP_LOCK_MASK \<and>
          MultiXactIdIsRunning env (HeapTupleHeaderGetRawXmax env (hdr s))
       then vret TM_BeingModified
       else vthen (SetHintBits env HEAP_XMAX_INVALID InvalidTransactionId) (vret TM_Ok)
     else
       let xmax = HeapTupleHeaderMultiXactGetUpdateXid env (hdr s)
       in if TransactionIdIsCurrentTransactionId env xmax then vret (self_modified env cid (hdr s))
          else if TransactionIdIsInProgress s xmax then vret TM_BeingModified
          else vbind (DidCommit env xmax) (\<lambda>did_commit.
            if did_commit then vret (updated_or_deleted (htup s))
            else if \<not> MultiXactIdIsRunning env (xmax_of_tuple env s)
            then vthen (SetHintBits env HEAP_XMAX_INVALID InvalidTransactionId) (vret TM_Ok)
            else vret TM_BeingModified))"

definition Update_xmax :: "vis_env \<Rightarrow> CommandId \<Rightarrow> TM_Result vis" where
  "Update_xmax env cid = vread (\<lambda>s.
     let infomask = t_infomask (hdr s)
     in if has infomask HEAP_XMAX_INVALID then vret TM_Ok
        else if has infomask HEAP_XMAX_COMMITTED
        then vret (if locked_only (hdr s) then TM_Ok else updated_or_deleted (htup s))
        else if has infomask HEAP_XMAX_IS_MULTI then Update_xmax_multi env cid
        else if TransactionIdIsCurrentTransactionId env (xmax_of_tuple env s)
        then if locked_only (hdr s) then vret TM_BeingModified
             else vret (self_modified env cid (hdr s))
        else if TransactionIdIsInProgress s (xmax_of_tuple env s) then vret TM_BeingModified
        else xmax_finished env (xmax_of_tuple env s) TM_Ok (updated_or_deleted (htup s)))"

definition Update_round :: "vis_env \<Rightarrow> CommandId \<Rightarrow> bool \<Rightarrow> (unit + TM_Result) vis" where
  "Update_round env cid self_visible =
     go_on (Update_xmin env cid self_visible) (vbind (Update_xmax env cid) (\<lambda>r. vret (Inr r)))"

partial_function (option) HeapTupleSatisfiesUpdate ::
  "vis_env \<Rightarrow> CommandId \<Rightarrow> bool \<Rightarrow> vis_state \<Rightarrow> (vis_error + (TM_Result \<times> vis_state)) option" where
  "HeapTupleSatisfiesUpdate env cid self_visible s =
     (case Update_round env cid self_visible s of
        None \<Rightarrow> None
      | Some (Inl e) \<Rightarrow> Some (Inl e)
      | Some (Inr (Inl (), s)) \<Rightarrow> HeapTupleSatisfiesUpdate env cid self_visible s
      | Some (Inr (Inr r, s)) \<Rightarrow> Some (Inr (r, s)))"

end
