(* ===== verification/Heap_MVCC_Model.thy ===== *)
theory Heap_MVCC_Model
  imports Heap_Visibility_Model
begin

text \<open>
  The checks of \<^verbatim>\<open>heapam_visibility.cpp\<close> against a snapshot, the checks for vacuum, and the dispatch on
  the kind of the snapshot.
\<close>

section \<open>MVCC snapshots\<close>

text \<open>
  A transaction that the snapshot does not see may still be one of the prepared ones of a local
  snapshot in gtm-lite mode; \<open>bypass\<close> is the maintenance mode where the caller tests for it.
\<close>

definition not_visible_lite ::
  "vis_env \<Rightarrow> bool \<Rightarrow> TransactionId \<Rightarrow> SnapshotData \<Rightarrow> TransactionIdStatus \<Rightarrow> bool \<Rightarrow> bool \<Rightarrow> (bool \<times> bool) vis" where
  "not_visible_lite env bypass xid snapshot hintstatus xmin_equal_xmax sync =
     (if \<not> GTM_LITE_MODE (tenv env) \<or> bypass \<or> gtm_snapshot_type snapshot \<noteq> GTM_SNAPSHOT_TYPE_LOCAL
      then vret (True, sync)
      else vbind (IsXidVisibleInGtmLiteLocalSnapshot env xid snapshot hintstatus xmin_equal_xmax sync)
             (\<lambda>(visible, sync). vret (\<not> visible, sync)))"

text \<open>The tuple was inserted by the current transaction.\<close>

definition MVCC_own :: "vis_env \<Rightarrow> SnapshotData \<Rightarrow> bool vis" where
  "MVCC_own env snapshot = vread (\<lambda>s.
     vthen (note_write (HeapTupleHeaderGetCmin env (hdr s) < curcid snapshot))
     (vbind (if has (t_infomask (hdr s)) HEAP_COMBOCID then CheckStreamCombocid env (hdr s) else vret False)
     (\<lambda>stream_deleted.
       if stream_deleted then vret True
       else if HeapTupleHeaderGetCmin env (hdr s) \<ge> curcid snapshot then vret False
       else if has (t_infomask (hdr s)) HEAP_XMAX_INVALID then vret True
       else if locked_only (hdr s) then vret True
       else if has (t_infomask (hdr s)) HEAP_XMAX_IS_MULTI
       then
         let xmax = HeapTupleHeaderMultiXactGetUpdateXid env (hdr s)
         in if \<not> TransactionIdIsCurrentTransactionId env xmax then vret True
            else vret (HeapTupleHeaderGetCmax env (hdr s) \<ge> curcid snapshot)
       else if \<not> TransactionIdIsCurrentTransactionId env (xmax_of_tuple env s)
       then vthen (SetHintBits env HEAP_XMAX_INVALID InvalidTransactionId) (vret True)
       else
         vthen (note_write (HeapTupleHeaderGetCmax env (hdr s) < curcid snapshot))
           (vret (HeapTupleHeaderGetCmax env (hdr s) \<ge> curcid snapshot)))))"

definition set_xmin_hint :: "vis_env \<Rightarrow> TransactionIdStatus \<Rightarrow> unit vis" where
  "set_xmin_hint env hintstatus = vread (\<lambda>s.
     vthen (if hintstatus = XID_COMMITTED then SetHintBits env HEAP_XMIN_COMMITTED (xmin_of_tuple env s)
            else vret ())
       (vread (\<lambda>s.
         if hintstatus = XID_ABORTED
         then vthen (check_latest_csn_abort env (xmin_of_tuple env s))
                (SetHintBits env HEAP_XMIN_INVALID InvalidTransactionId)
         else vret ())))"

definition set_xmax_hint :: "vis_env \<Rightarrow> TransactionIdStatus \<Rightarrow> unit vis" where
  "set_xmax_hint env hintstatus = vread (\<lambda>s.
     vthen (if hintstatus = XID_COMMITTED then SetHintBits env HEAP_XMAX_COMMITTED (xmax_of_tuple env s)
            else vret ())
       (vread (\<lambda>s.
         if hintstatus = XID_ABORTED
         then vthen (check_latest_csn_abort env (xmax_of_tuple env s))
                (SetHintBits env HEAP_XMAX_INVALID InvalidTransactionId)
         else vret ())))"

definition MVCC_xmin :: "vis_env \<Rightarrow> SnapshotData \<Rightarrow> bool option vis" where
  "MVCC_xmin env snapshot = vread (\<lambda>s.
     if \<not> HeapTupleHeaderXminCommitted (hdr s)
     then
       if HeapTupleHeaderXminInvalid (hdr s) then vret (Some False)
       else if \<not> IsVersionMVCCSnapshot snapshot \<and>
               TransactionIdIsCurrentTransactionId env (xmin_of_tuple env s)
       then vbind (MVCC_own env snapshot) (\<lambda>r. vret (Some r))
       else
         vbind (XidVisibleInSnapshot env (xmin_of_tuple env s) snapshot) (\<lambda>(visible, hintstatus, sync).
         vthen (set_xmin_hint env hintstatus)
         (if \<not> visible
          then vread (\<lambda>s.
            vbind (not_visible_lite env (xc_maintenance_mode (tenv env)) (xmin_of_tuple env s) snapshot hintstatus
                     (xmin_of_tuple env s = xmax_of_tuple env s) False)
              (\<lambda>(hidden, sync). vret (if hidden then Some False else None)))
          else vret None))
     else
       if \<not> HeapTupleHeaderXminFrozen (hdr s)
       then
         vbind (CommittedXidVisibleInSnapshot env (xmin_of_tuple env s) snapshot) (\<lambda>visible.
           if \<not> visible
           then vread (\<lambda>s.
             vbind (not_visible_lite env False (xmin_of_tuple env s) snapshot XID_COMMITTED
                      (xmin_of_tuple env s = xmax_of_tuple env s) False)
               (\<lambda>(hidden, sync). vret (if hidden then Some False else None)))
           else vret None)
       else vret None)"

definition MVCC_xmax_multi :: "vis_env \<Rightarrow> SnapshotData \<Rightarrow> bool vis" where
  "MVCC_xmax_multi env snapshot = vread (\<lambda>s.
     let xmax = HeapTupleHeaderMultiXactGetUpdateXid env (hdr s)
     in if TransactionIdIsCurrentTransactionId env xmax
        then vret (HeapTupleHeaderGetCmax env (hdr s) \<ge> curcid snapshot)
        else if TransactionIdIsInProgress s xmax then vret True
        else vbind (DidCommit env xmax) (\<lambda>did_commit.
          if did_commit
          then vbind (CommittedXidVisibleInSnapshot env xmax snapshot) (\<lambda>visible. vret (\<not> visible))
          else vret True))"

text \<open>From the label recheck_xmax on; \<open>Inl\<close> goes back to the label.\<close>

definition MVCC_xmax_running :: "vis_env \<Rightarrow> SnapshotData \<Rightarrow> (unit + bool) vis" where
  "MVCC_xmax_running env snapshot = vread (\<lambda>s0.
     let xmax = xmax_of_tuple env s0
     in if \<not> IsVersionMVCCSnapshot snapshot \<and> TransactionIdIsCurrentTransactionId env xmax
        then
          vthen (note_write (HeapTupleHeaderGetCmax env (hdr s0) < curcid snapshot))
            (vret (Inr (HeapTupleHeaderGetCmax env (hdr s0) \<ge> curcid snapshot)))
        else
          vbind (XidVisibleInSnapshot env xmax snapshot) (\<lambda>(visible, hintstatus, sync).
          vread (\<lambda>s.
            if sync \<and> xmax \<noteq> xmax_of_tuple env s then vret (Inl ())
            else
              vthen (set_xmax_hint env hintstatus)
              (if \<not> visible
               then vread (\<lambda>s.
                 vbind (not_visible_lite env (xc_maintenance_mode (tenv env)) (xmax_of_tuple env s) snapshot
                          hintstatus False sync)
                   (\<lambda>(hidden, sync). vread (\<lambda>s.
                     if hidden
                     then if sync \<and> xmax \<noteq> xmax_of_tuple env s then vret (Inl ()) else vret (Inr True)
                     else vret (Inr False))))
               else vret (Inr False)))))"

definition MVCC_xmax_round :: "vis_env \<Rightarrow> SnapshotData \<Rightarrow> (unit + bool) vis" where
  "MVCC_xmax_round env snapshot = vread (\<lambda>s.
     let infomask = t_infomask (hdr s)
     in if has infomask HEAP_XMAX_INVALID then vret (Inr True)
        else if locked_only (hdr s) then vret (Inr True)
        else if has infomask HEAP_XMAX_IS_MULTI then vbind (MVCC_xmax_multi env snapshot) (\<lambda>r. vret (Inr r))
        else if \<not> has infomask HEAP_XMAX_COMMITTED then MVCC_xmax_running env snapshot
        else
          vbind (CommittedXidVisibleInSnapshot env (xmax_of_tuple env s) snapshot) (\<lambda>visible.
            if \<not> visible
            then vread (\<lambda>s.
              vbind (not_visible_lite env False (xmax_of_tuple env s) snapshot XID_COMMITTED False False)
                (\<lambda>(hidden, sync). vret (Inr hidden)))
            else vret (Inr False)))"

partial_function (option) recheck_xmax ::
  "vis_env \<Rightarrow> SnapshotData \<Rightarrow> vis_state \<Rightarrow> (vis_error + (bool \<times> vis_state)) option" where
  "recheck_xmax env snapshot s =
     (case MVCC_xmax_round env snapshot s of
        None \<Rightarrow> None
      | Some (Inl e) \<Rightarrow> Some (Inl e)
      | Some (Inr (Inl (), s)) \<Rightarrow> recheck_xmax env snapshot s
      | Some (Inr (Inr r, s)) \<Rightarrow> Some (Inr (r, s)))"

definition HeapTupleSatisfiesMVCC :: "vis_env \<Rightarrow> SnapshotData \<Rightarrow> bool vis" where
  "HeapTupleSatisfiesMVCC env snapshot =
     (if show_any_tuples env then vret True
      else go_on (MVCC_xmin env snapshot) (recheck_xmax env snapshot))"

text \<open>A call that passes no pointer for the flag.\<close>

definition without_flag :: "'a vis \<Rightarrow> 'a vis" where
  "without_flag m =
     vbind (vread (\<lambda>s. vret (has_cur_xact_write s))) (\<lambda>flag.
     vthen (vmod (\<lambda>s. s\<lparr>has_cur_xact_write := None\<rparr>))
     (vbind m (\<lambda>r. vthen (vmod (\<lambda>s. s\<lparr>has_cur_xact_write := flag\<rparr>)) (vret r))))"

definition HeapTupleSatisfiesVersionMVCC :: "vis_env \<Rightarrow> SnapshotData \<Rightarrow> bool vis" where
  "HeapTupleSatisfiesVersionMVCC env snapshot = without_flag (HeapTupleSatisfiesMVCC env snapshot)"

definition HeapTupleSatisfiesLost :: "vis_env \<Rightarrow> SnapshotData \<Rightarrow> bool vis" where
  "HeapTupleSatisfiesLost env snapshot =
     vbind (HeapTupleSatisfiesVersionMVCC env snapshot) (\<lambda>version.
       if version then vbind (without_flag (HeapTupleSatisfiesNow env)) (\<lambda>now. vret (\<not> now)) else vret False)"

definition HeapTupleSatisfiesDelta :: "vis_env \<Rightarrow> SnapshotData \<Rightarrow> bool vis" where
  "HeapTupleSatisfiesDelta env snapshot =
     vbind (HeapTupleSatisfiesVersionMVCC env snapshot) (\<lambda>version.
       if \<not> version then without_flag (HeapTupleSatisfiesNow env) else vret False)"

section \<open>Vacuum\<close>

datatype HTSV_Result =
    HEAPTUPLE_DEAD | HEAPTUPLE_LIVE | HEAPTUPLE_RECENTLY_DEAD | HEAPTUPLE_INSERT_IN_PROGRESS
  | HEAPTUPLE_DELETE_IN_PROGRESS

definition unless_local :: "vis_env \<Rightarrow> HTSV_Result \<Rightarrow> HTSV_Result" where
  "unless_local env r =
     (if \<not> useLocalSnapshot (csn_env_of (tenv env)) \<or> IsInitdb env then r else HEAPTUPLE_LIVE)"

text \<open>
  \<open>Some True\<close> when the transaction still runs, \<open>Some False\<close> when it committed, \<open>None\<close> when it
  aborted or crashed, as the status in the CSN log, the process array and the commit log
  say in this order.
\<close>

definition vacuum_status :: "vis_env \<Rightarrow> TransactionIdStatus \<Rightarrow> TransactionId \<Rightarrow> bool option vis" where
  "vacuum_status env xidstatus xid = vread (\<lambda>s.
     if xidstatus = XID_INPROGRESS \<and> TransactionIdIsInProgress s xid then vret (Some True)
     else if xidstatus = XID_COMMITTED then vret (Some False)
     else if xidstatus = XID_INPROGRESS
     then vbind (DidCommit env xid) (\<lambda>did_commit. vret (if did_commit then Some False else None))
     else vret None)"

definition Vacuum_xmin :: "vis_env \<Rightarrow> bool \<Rightarrow> HTSV_Result option vis" where
  "Vacuum_xmin env isAnalyzing = vread (\<lambda>s.
     if \<not> HeapTupleHeaderXminCommitted (hdr s)
     then
       if HeapTupleHeaderXminInvalid (hdr s) then vret (Some HEAPTUPLE_DEAD)
       else
         vbind (GetStatus env (HeapTupleGetRawXmin (htup s))) (\<lambda>xidstatus.
           if TransactionIdIsCurrentTransactionId env (HeapTupleGetRawXmin (htup s))
           then
             if has (t_infomask (hdr s)) HEAP_XMAX_INVALID then vret (Some HEAPTUPLE_INSERT_IN_PROGRESS)
             else if locked_only (hdr s) then vret (Some HEAPTUPLE_INSERT_IN_PROGRESS)
             else if TransactionIdIsCurrentTransactionId env (HeapTupleGetRawXmax (htup s))
             then vret (Some HEAPTUPLE_DELETE_IN_PROGRESS)
             else vret (Some HEAPTUPLE_INSERT_IN_PROGRESS)
           else
             vbind (vacuum_status env xidstatus (HeapTupleGetRawXmin (htup s))) (\<lambda>r.
               case r of
                 Some True \<Rightarrow> vret (Some HEAPTUPLE_INSERT_IN_PROGRESS)
               | Some False \<Rightarrow>
                   if \<not> isAnalyzing
                   then vthen (SetHintBits env HEAP_XMIN_COMMITTED (HeapTupleGetRawXmin (htup s))) (vret None)
                   else vret None
               | None \<Rightarrow>
                   vthen (check_latest_abort env (xmin_of_tuple env s))
                   (vthen (SetHintBits env HEAP_XMIN_INVALID InvalidTransactionId)
                   (vret (Some (unless_local env HEAPTUPLE_DEAD))))))
     else vret None)"

definition Vacuum_locked :: "vis_env \<Rightarrow> HTSV_Result vis" where
  "Vacuum_locked env = vread (\<lambda>s.
     let invalidate = vthen (SetHintBits env HEAP_XMAX_INVALID InvalidTransactionId) (vret HEAPTUPLE_LIVE)
     in if \<not> has (t_infomask (hdr s)) HEAP_XMAX_COMMITTED
        then
          if has (t_infomask (hdr s)) HEAP_XMAX_IS_MULTI
          then if MultiXactIdIsRunning env (HeapTupleGetRawXmax (htup s)) then vret HEAPTUPLE_LIVE
               else invalidate
          else vbind (GetStatus env (HeapTupleGetRawXmax (htup s))) (\<lambda>xidstatus.
                 if xidstatus = XID_INPROGRESS \<and> TransactionIdIsInProgress s (HeapTupleGetRawXmax (htup s))
                 then vret HEAPTUPLE_LIVE else invalidate)
        else vret HEAPTUPLE_LIVE)"

definition Vacuum_multi :: "vis_env \<Rightarrow> TransactionId \<Rightarrow> HTSV_Result vis" where
  "Vacuum_multi env OldestXmin = vread (\<lambda>s.
     let xmax = HeapTupleHeaderGetUpdateXid env (hdr s)
     in if TransactionIdIsInProgress s xmax then vret HEAPTUPLE_DELETE_IN_PROGRESS
        else vbind (DidCommit env xmax) (\<lambda>did_commit.
          if did_commit
          then if \<not> TransactionIdPrecedes xmax OldestXmin then vret HEAPTUPLE_RECENTLY_DEAD
               else vret HEAPTUPLE_DEAD
          else if \<not> MultiXactIdIsRunning env (HeapTupleHeaderGetRawXmax env (hdr s))
          then vthen (SetHintBits env HEAP_XMAX_INVALID InvalidTransactionId) (vret HEAPTUPLE_LIVE)
          else vret HEAPTUPLE_LIVE))"

definition Vacuum_xmax :: "vis_env \<Rightarrow> TransactionId \<Rightarrow> HTSV_Result vis" where
  "Vacuum_xmax env OldestXmin = vread (\<lambda>s.
     let xmax = HeapTupleGetRawXmax (htup s);
         committed = vret (unless_local env (if \<not> TransactionIdPrecedes xmax OldestXmin
                                             then HEAPTUPLE_RECENTLY_DEAD else HEAPTUPLE_DEAD))
     in if has (t_infomask (hdr s)) HEAP_XMAX_INVALID then vret HEAPTUPLE_LIVE
        else if locked_only (hdr s) then Vacuum_locked env
        else if has (t_infomask (hdr s)) HEAP_XMAX_IS_MULTI then Vacuum_multi env OldestXmin
        else if \<not> has (t_infomask (hdr s)) HEAP_XMAX_COMMITTED
        then
          vbind (GetStatus env xmax) (\<lambda>xidstatus.
          vbind (vacuum_status env xidstatus xmax) (\<lambda>r.
            case r of
              Some True \<Rightarrow> vret HEAPTUPLE_DELETE_IN_PROGRESS
            | Some False \<Rightarrow> vthen (SetHintBits env HEAP_XMAX_COMMITTED xmax) committed
            | None \<Rightarrow>
                vthen (check_latest_abort env (xmax_of_tuple env s))
                (vthen (SetHintBits env HEAP_XMAX_INVALID InvalidTransactionId) (vret HEAPTUPLE_LIVE))))
        else committed)"

definition HeapTupleSatisfiesVacuum :: "vis_env \<Rightarrow> TransactionId \<Rightarrow> bool \<Rightarrow> HTSV_Result vis" where
  "HeapTupleSatisfiesVacuum env OldestXmin isAnalyzing =
     vthen (vmod (\<lambda>s. s\<lparr>htup := HeapTupleCopyBaseFromPage env (htup s)\<rparr>))
       (go_on (Vacuum_xmin env isAnalyzing) (Vacuum_xmax env OldestXmin))"

definition HeapTupleIsSurelyDead :: "HeapTupleData \<Rightarrow> TransactionId \<Rightarrow> bool" where
  "HeapTupleIsSurelyDead tuple OldestXmin =
     (let tup = t_data tuple
      in if \<not> HeapTupleHeaderXminCommitted tup then HeapTupleHeaderXminInvalid tup
         else if has (t_infomask tup) HEAP_XMAX_INVALID then False
         else if locked_only tup then False
         else if has (t_infomask tup) HEAP_XMAX_IS_MULTI then False
         else if \<not> has (t_infomask tup) HEAP_XMAX_COMMITTED then False
         else TransactionIdPrecedes (HeapTupleGetRawXmax tuple) OldestXmin)"

definition HeapTupleIsOnlyLocked :: "vis_env \<Rightarrow> bool vis" where
  "HeapTupleIsOnlyLocked env = vread (\<lambda>s.
     if has (t_infomask (hdr s)) HEAP_XMAX_INVALID then vret True
     else if has (t_infomask2 (hdr s)) HEAP_XMAX_LOCK_ONLY then vret True
     else if \<not> TransactionIdIsValid (HeapTupleGetRawXmax (htup s)) then vret True
     else if \<not> has (t_infomask (hdr s)) HEAP_XMAX_IS_MULTI then vret False
     else
       let xmax = HeapTupleMultiXactGetUpdateXid env (htup s)
       in if \<not> TransactionIdIsValid xmax then vret True
          else if TransactionIdIsCurrentTransactionId env xmax then vret False
          else if TransactionIdIsInProgress s xmax then vret False
          else vbind (DidCommit env xmax) (\<lambda>did_commit. vret (\<not> did_commit)))"

section \<open>Historic and decoding snapshots\<close>

text \<open>The arrays are sorted, so that the binary search of the C library decides membership.\<close>

definition TransactionIdInArray :: "TransactionId \<Rightarrow> TransactionId list \<Rightarrow> bool" where
  "TransactionIdInArray xid xs \<longleftrightarrow> xid \<in> set xs"

definition Historic_xmin :: "vis_env \<Rightarrow> SnapshotData \<Rightarrow> bool option vis" where
  "Historic_xmin env snapshot = vread (\<lambda>s.
     let xmin = xmin_of_tuple env s
     in if HeapTupleHeaderXminInvalid (hdr s) then vret (Some False)
        else if TransactionIdInArray xmin (subxip snapshot)
        then case ResolveCminCmaxDuringDecoding env (htup s) of
               None \<Rightarrow> vraise Unresolved_cid
             | Some (cmin, cmax) \<Rightarrow> vret (if cmin \<ge> curcid snapshot then Some False else None)
        else if TransactionIdPrecedes xmin (snap_xmin snapshot)
        then if \<not> HeapTupleHeaderXminCommitted (hdr s)
             then vbind (DidCommit env xmin) (\<lambda>did_commit. vret (if \<not> did_commit then Some False else None))
             else vret None
        else if xmin \<ge> snap_xmax snapshot then vret (Some False)
        else if TransactionIdInArray xmin (xip snapshot) then vret None
        else vret (Some False))"

definition Historic_xmax :: "vis_env \<Rightarrow> SnapshotData \<Rightarrow> bool vis" where
  "Historic_xmax env snapshot = vread (\<lambda>s.
     let xmax = HeapTupleHeaderGetRawXmax env (hdr s)
     in if has (t_infomask (hdr s)) HEAP_XMAX_INVALID then vret True
        else if TransactionIdInArray xmax (subxip snapshot)
        then case ResolveCminCmaxDuringDecoding env (htup s) of
               None \<Rightarrow> vraise Unresolved_cid
             | Some (cmin, cmax) \<Rightarrow> vret (cmax \<ge> curcid snapshot)
        else if TransactionIdPrecedes xmax (snap_xmin snapshot)
        then if has (t_infomask (hdr s)) HEAP_XMAX_COMMITTED then vret False
             else vbind (DidCommit env xmax) (\<lambda>did_commit. vret (\<not> did_commit))
        else if xmax \<ge> snap_xmax snapshot then vret True
        else if TransactionIdInArray xmax (xip snapshot) then vret False
        else vret True)"

definition HeapTupleSatisfiesHistoricMVCC :: "vis_env \<Rightarrow> SnapshotData \<Rightarrow> bool vis" where
  "HeapTupleSatisfiesHistoricMVCC env snapshot = go_on (Historic_xmin env snapshot) (Historic_xmax env snapshot)"

definition HeapTupleUncommitedXminCheckDecodeMVCC :: "vis_env \<Rightarrow> SnapshotData \<Rightarrow> bool option vis" where
  "HeapTupleUncommitedXminCheckDecodeMVCC env snapshot = vread (\<lambda>s.
     if HeapTupleHeaderXminInvalid (hdr s) then vret (Some False)
     else if \<not> IsVersionMVCCSnapshot snapshot \<and> TransactionIdIsCurrentTransactionId env (xmin_of_tuple env s)
     then
       if has (t_infomask (hdr s)) HEAP_XMAX_INVALID \<or> locked_only (hdr s) then vret (Some True)
       else if \<not> TransactionIdIsCurrentTransactionId env (xmax_of_tuple env s)
       then vthen (SetHintBits env HEAP_XMAX_INVALID InvalidTransactionId) (vret (Some True))
       else vret None
     else
       vbind (XidVisibleInDecodeSnapshot env (xmin_of_tuple env s) snapshot) (\<lambda>(xidVisible, status).
       vthen (set_xmin_hint env status)
       (if \<not> xidVisible
        then vread (\<lambda>s.
          vbind (not_visible_lite env (xc_maintenance_mode (tenv env)) (xmin_of_tuple env s) snapshot status
                   (xmin_of_tuple env s = xmax_of_tuple env s) False)
            (\<lambda>(hidden, sync). vret (if hidden then Some False else None)))
        else vret None)))"

definition HeapTupleCommitedXminCheckDecodeMVCC :: "vis_env \<Rightarrow> SnapshotData \<Rightarrow> bool option vis" where
  "HeapTupleCommitedXminCheckDecodeMVCC env snapshot = vread (\<lambda>s.
     if \<not> HeapTupleHeaderXminFrozen (hdr s)
     then
       vbind (CommittedXidVisibleInDecodeSnapshot env (xmin_of_tuple env s) snapshot) (\<lambda>visible.
         if \<not> visible
         then vread (\<lambda>s.
           vbind (not_visible_lite env False (xmin_of_tuple env s) snapshot XID_COMMITTED
                    (xmin_of_tuple env s = xmax_of_tuple env s) False)
             (\<lambda>(hidden, sync). vret (if hidden then Some False else None)))
         else vret None)
     else vret None)"

definition HeapTupleXmaxCheckDecodeMVCC :: "vis_env \<Rightarrow> SnapshotData \<Rightarrow> bool option vis" where
  "HeapTupleXmaxCheckDecodeMVCC env snapshot = vread (\<lambda>s.
     if has (t_infomask (hdr s)) HEAP_XMAX_INVALID \<or> locked_only (hdr s) \<or>
        has (t_infomask (hdr s)) HEAP_XMAX_IS_MULTI
     then vret (Some True)
     else if \<not> has (t_infomask (hdr s)) HEAP_XMAX_COMMITTED
     then
       vbind (XidVisibleInDecodeSnapshot env (xmax_of_tuple env s) snapshot) (\<lambda>(xidVisible, status).
       vthen (set_xmax_hint env status)
       (if \<not> xidVisible
        then vread (\<lambda>s.
          vbind (not_visible_lite env (xc_maintenance_mode (tenv env)) (xmax_of_tuple env s) snapshot status False False)
            (\<lambda>(hidden, sync). vret (if hidden then Some True else None)))
        else vret None))
     else
       vbind (CommittedXidVisibleInDecodeSnapshot env (xmax_of_tuple env s) snapshot) (\<lambda>visible.
         if \<not> visible
         then vread (\<lambda>s.
           vbind (not_visible_lite env False (xmax_of_tuple env s) snapshot XID_COMMITTED False False)
             (\<lambda>(hidden, sync). vret (if hidden then Some True else None)))
         else vret None))"

definition HeapTupleSatisfiesDecodeMVCC :: "vis_env \<Rightarrow> SnapshotData \<Rightarrow> bool vis" where
  "HeapTupleSatisfiesDecodeMVCC env snapshot = vread (\<lambda>s.
     if show_any_tuples env then vret True
     else
       go_on (if \<not> HeapTupleHeaderXminCommitted (hdr s)
              then HeapTupleUncommitedXminCheckDecodeMVCC env snapshot
              else HeapTupleCommitedXminCheckDecodeMVCC env snapshot)
         (go_on (HeapTupleXmaxCheckDecodeMVCC env snapshot) (vret False)))"

section \<open>The dispatch\<close>

definition HeapTupleSatisfiesVisibility :: "vis_env \<Rightarrow> SnapshotData \<Rightarrow> bool vis" where
  "HeapTupleSatisfiesVisibility env snapshot =
     (case satisfies snapshot of
        SNAPSHOT_MVCC \<Rightarrow> HeapTupleSatisfiesMVCC env snapshot
      | SNAPSHOT_VERSION_MVCC \<Rightarrow> HeapTupleSatisfiesVersionMVCC env snapshot
      | SNAPSHOT_DELTA \<Rightarrow> HeapTupleSatisfiesDelta env snapshot
      | SNAPSHOT_LOST \<Rightarrow> HeapTupleSatisfiesLost env snapshot
      | SNAPSHOT_NOW \<Rightarrow> HeapTupleSatisfiesNow env
      | SNAPSHOT_SELF \<Rightarrow> HeapTupleSatisfiesSelf env
      | SNAPSHOT_ANY \<Rightarrow> HeapTupleSatisfiesAny
      | SNAPSHOT_TOAST \<Rightarrow> HeapTupleSatisfiesToast env
      | SNAPSHOT_DIRTY \<Rightarrow> HeapTupleSatisfiesDirty env
      | SNAPSHOT_HISTORIC_MVCC \<Rightarrow> HeapTupleSatisfiesHistoricMVCC env snapshot
      | SNAPSHOT_DECODE_MVCC \<Rightarrow> HeapTupleSatisfiesDecodeMVCC env snapshot)"

definition HeapTupleCheckVisible :: "vis_env \<Rightarrow> SnapshotData \<Rightarrow> unit vis" where
  "HeapTupleCheckVisible env snapshot =
     (if \<not> IsolationUsesXactSnapshot env then vret ()
      else vbind (without_flag (HeapTupleSatisfiesVisibility env snapshot)) (\<lambda>visible.
        vread (\<lambda>s.
          if \<not> visible \<and> \<not> TransactionIdIsCurrentTransactionId env (xmin_of_tuple env s)
          then vraise Serialization_failure else vret ())))"

end
