(* ===== verification/CSN_Log.thy ===== *)
theory CSN_Log
  imports CSN_Log_Model
begin

text \<open>
  Facts and properties of the commit sequence number log. \<open>csn_entry\<close> is the abstraction: the
  entry of every transaction whose page exists.
\<close>

section \<open>The encoding of entries\<close>

lemmas csn_constants = InvalidCommitSeqNo_def COMMITSEQNO_INPROGRESS_def COMMITSEQNO_ABORTED_def
  COMMITSEQNO_FROZEN_def COMMITSEQNO_COMMIT_INPROGRESS_def COMMITSEQNO_SUBTRANS_BIT_def
  MAX_COMMITSEQNO_def COMMITSEQNO_RESERVE_MASK_def

lemma MAX_mask: "MAX_COMMITSEQNO = mask 60"
  by (simp add: MAX_COMMITSEQNO_def mask_eq_exp_minus_1)

lemma bit_push_one: "bit (push_bit n (1 :: uint64)) m \<longleftrightarrow> m = n \<and> n < 64"
  by (auto simp: bit_simps le_antisym)

lemma bit_SUBTRANS [simp]: "bit COMMITSEQNO_SUBTRANS_BIT m \<longleftrightarrow> m = 63"
  unfolding COMMITSEQNO_SUBTRANS_BIT_def bit_push_one by simp

lemma bit_COMMIT_INPROGRESS [simp]: "bit COMMITSEQNO_COMMIT_INPROGRESS m \<longleftrightarrow> m = 62"
  unfolding COMMITSEQNO_COMMIT_INPROGRESS_def bit_push_one by simp

lemma bit_MAX [simp]: "bit MAX_COMMITSEQNO m \<longleftrightarrow> m < 60"
  unfolding MAX_mask by (auto simp: bit_simps)

lemma bit_RESERVE [simp]: "bit COMMITSEQNO_RESERVE_MASK m \<longleftrightarrow> 60 \<le> m \<and> m < 64"
  unfolding COMMITSEQNO_RESERVE_MASK_def by (auto simp: bit_simps)

lemma single_bit_and:
  assumes "\<And>m. bit (b :: uint64) m \<longleftrightarrow> m = n"
  shows "w AND b = b \<longleftrightarrow> bit w n"
proof -
  have n: "n < 64" using assms [of n] bit_imp_le_length [of b n] by simp
  have "w AND b = b \<longleftrightarrow> (\<forall>m < 64. bit w m \<and> m = n \<longleftrightarrow> m = n)"
    unfolding word_eq_iff_bits by (simp add: bit_and_iff assms)
  then show ?thesis using n by blast
qed

lemma subtrans_iff: "COMMITSEQNO_IS_SUBTRANS c \<longleftrightarrow> bit c 63"
  unfolding COMMITSEQNO_IS_SUBTRANS_def by (rule single_bit_and) simp

lemma committing_iff: "COMMITSEQNO_IS_COMMITTING c \<longleftrightarrow> bit c 62"
  unfolding COMMITSEQNO_IS_COMMITTING_def by (rule single_bit_and) simp

lemma reserve_zero_iff: "c AND COMMITSEQNO_RESERVE_MASK = 0 \<longleftrightarrow> (\<forall>n. 60 \<le> n \<longrightarrow> \<not> bit c n)"
proof -
  have "c AND COMMITSEQNO_RESERVE_MASK = 0 \<longleftrightarrow> (\<forall>n < 64. \<not> (bit c n \<and> 60 \<le> n \<and> n < 64))"
    unfolding word_and_zero_iff by simp
  then show ?thesis using bit_imp_le_length [of c] by auto
qed

lemma committed_bits: "COMMITSEQNO_IS_COMMITTED c \<Longrightarrow> \<not> bit c 62 \<and> \<not> bit c 63"
  by (auto simp: COMMITSEQNO_IS_COMMITTED_def reserve_zero_iff)

lemma aborted_not_committed: "\<not> COMMITSEQNO_IS_COMMITTED COMMITSEQNO_ABORTED"
  by (simp add: COMMITSEQNO_IS_COMMITTED_def csn_constants word_le_nat_alt)

lemma committed_not_aborted: "COMMITSEQNO_IS_COMMITTED c \<Longrightarrow> \<not> COMMITSEQNO_IS_ABORTED c"
  using aborted_not_committed by (auto simp: COMMITSEQNO_IS_ABORTED_def)

text \<open>The link from a committing subtransaction to its top transaction.\<close>

definition top_link :: "TransactionId \<Rightarrow> CommitSeqNo" where
  "top_link topxid = (COMMITSEQNO_SUBTRANS_BIT OR topxid) OR COMMITSEQNO_COMMIT_INPROGRESS"

definition short_xid :: "TransactionId \<Rightarrow> bool" where
  "short_xid xid \<longleftrightarrow> xid AND MAX_COMMITSEQNO = xid"

lemma short_xid_bits: "short_xid xid \<Longrightarrow> bit xid n \<Longrightarrow> n < 60"
  unfolding short_xid_def by (metis bit_MAX bit_and_iff)

lemma top_link_bits: "bit (top_link t) 62" "bit (top_link t) 63"
  by (simp_all add: top_link_def bit_or_iff)

lemma top_link_parent: "short_xid t \<Longrightarrow> GET_PARENTXID (top_link t) = t"
  unfolding GET_PARENTXID_def top_link_def
  by (rule bit_eqI) (auto simp: bit_and_iff bit_or_iff dest: short_xid_bits)

lemma parent_link: "short_xid t \<Longrightarrow> GET_PARENTXID (COMMITSEQNO_SUBTRANS_BIT OR t) = t"
  unfolding GET_PARENTXID_def
  by (rule bit_eqI) (auto simp: bit_and_iff bit_or_iff dest: short_xid_bits)

lemma committing_not_final:
  assumes "bit c 62" shows "\<not> COMMITSEQNO_IS_COMMITTED c" "\<not> COMMITSEQNO_IS_ABORTED c"
proof -
  show "\<not> COMMITSEQNO_IS_COMMITTED c" using committed_bits assms by blast
  have "\<not> bit (1 :: uint64) 62" by simp
  then show "\<not> COMMITSEQNO_IS_ABORTED c"
    using assms unfolding COMMITSEQNO_IS_ABORTED_def COMMITSEQNO_ABORTED_def by metis
qed

section \<open>Updates of entries\<close>

definition csn_entry :: "csn_pages \<Rightarrow> TransactionId \<Rightarrow> CommitSeqNo option" where
  "csn_entry pages xid = map_option (\<lambda>p. p (TransactionIdToCSNPgIndex xid)) (pages (TransactionIdToCSNPage xid))"

lemma same_csn_entry:
  "TransactionIdToCSNPage x = TransactionIdToCSNPage y \<Longrightarrow>
   TransactionIdToCSNPgIndex x = TransactionIdToCSNPgIndex y \<Longrightarrow> x = y"
  unfolding TransactionIdToCSNPage_def TransactionIdToCSNPgIndex_def word_unat_eq_iff
  by (metis div_mult_mod_eq)

definition next_csn :: "CommitSeqNo \<Rightarrow> CommitSeqNo \<Rightarrow> CommitSeqNo option" where
  "next_csn csn value =
     (if (COMMITSEQNO_IS_COMMITTED value \<and> COMMITSEQNO_IS_ABORTED csn) \<or>
         (COMMITSEQNO_IS_ABORTED value \<and> COMMITSEQNO_IS_COMMITTED csn) then None
      else if \<not> COMMITSEQNO_IS_ABORTED value then Some csn else Some value)"

lemma next_csn_idem: "next_csn csn v = Some w \<Longrightarrow> next_csn csn w = Some w"
  using committed_not_aborted [of csn] by (auto simp: next_csn_def split: if_splits)

definition upd_csn :: "CommitSeqNo \<Rightarrow> TransactionId set \<Rightarrow> (TransactionId \<Rightarrow> CommitSeqNo option) \<Rightarrow>
   TransactionId \<Rightarrow> CommitSeqNo option" where
  "upd_csn csn X e = (\<lambda>x. if x \<in> X then Option.bind (e x) (next_csn csn) else e x)"

lemma upd_csn_empty [simp]: "upd_csn csn {} e = e"
  by (simp add: upd_csn_def)

lemma upd_csn_union: "upd_csn csn X (upd_csn csn Y e) = upd_csn csn (X \<union> Y) e"
proof
  fix x
  show "upd_csn csn X (upd_csn csn Y e) x = upd_csn csn (X \<union> Y) e x"
    by (cases "e x"; cases "next_csn csn (the (e x))") (auto simp: upd_csn_def next_csn_idem)
qed

lemma CSNLogSetCSN_entry:
  assumes "CSNLogSetCSN csn xid page = Inr page'" and "pages (TransactionIdToCSNPage xid) = Some page"
  shows "csn_entry (pages(TransactionIdToCSNPage xid \<mapsto> page')) = upd_csn csn {xid} (csn_entry pages)"
proof
  fix x
  show "csn_entry (pages(TransactionIdToCSNPage xid \<mapsto> page')) x = upd_csn csn {xid} (csn_entry pages) x"
    using assms same_csn_entry [of x xid]
    by (auto simp: CSNLogSetCSN_def Let_def csn_entry_def upd_csn_def next_csn_def split: if_splits)
qed

lemma for_each_csn:
  assumes "for_each (CSNLogSetCSN csn) xs page = Inr page'" and "pages pageno = Some page"
    and "\<forall>x \<in> set xs. TransactionIdToCSNPage x = pageno"
  shows "csn_entry (pages(pageno \<mapsto> page')) = upd_csn csn (set xs) (csn_entry pages)"
  using assms
proof (induction xs arbitrary: page pages)
  case Nil
  then show ?case by (simp add: fun_upd_idem)
next
  case (Cons a xs)
  then obtain q where q: "CSNLogSetCSN csn a page = Inr q" and r: "for_each (CSNLogSetCSN csn) xs q = Inr page'"
    by (auto simp: result_bind_Inr_iff)
  have "csn_entry ((pages(pageno \<mapsto> q))(pageno \<mapsto> page')) = upd_csn csn (set xs) (csn_entry (pages(pageno \<mapsto> q)))"
    by (rule Cons.IH [OF r]) (use Cons.prems in auto)
  moreover have "csn_entry (pages(pageno \<mapsto> q)) = upd_csn csn {a} (csn_entry pages)"
    using CSNLogSetCSN_entry [OF q, of pages] Cons.prems by (auto simp: fun_upd_def)
  ultimately show ?case using upd_csn_union [of csn "set xs" "{a}"] by (simp only: fun_upd_upd) simp
qed

lemma for_each_csn_ok:
  assumes "\<forall>x \<in> set xs. next_csn csn (page (TransactionIdToCSNPgIndex x)) \<noteq> None"
  shows "\<exists>page'. for_each (CSNLogSetCSN csn) xs page = Inr page'"
  using assms
proof (induction xs arbitrary: page)
  case (Cons a xs)
  let ?i = TransactionIdToCSNPgIndex
  obtain w where w: "next_csn csn (page (?i a)) = Some w" using Cons.prems by auto
  then have q: "CSNLogSetCSN csn a page = Inr (page(?i a := w))"
    by (auto simp: next_csn_def CSNLogSetCSN_def Let_def fun_upd_idem split: if_splits)
  have "\<forall>x \<in> set xs. next_csn csn ((page(?i a := w)) (?i x)) \<noteq> None"
    using Cons.prems next_csn_idem [OF w] by auto
  then show ?case using Cons.IH q by simp
qed simp

definition main_csn :: "CommitSeqNo \<Rightarrow> TransactionId \<Rightarrow> (TransactionId \<Rightarrow> CommitSeqNo option) \<Rightarrow>
   TransactionId \<Rightarrow> CommitSeqNo option" where
  "main_csn csn xid e = (if TransactionIdIsValid xid then upd_csn csn {xid} e else e)"

lemma dom_entry: "dom pages' = dom pages \<Longrightarrow> csn_entry pages' x = None \<longleftrightarrow> csn_entry pages x = None"
  by (metis csn_entry_def domIff option.map_disc_iff)

lemma CSNLogSetPageStatus_Inr:
  assumes run: "CSNLogSetPageStatus env xid xs csn pageno topx log = Inr log'" and sb: "\<not> DMS_STANDBY env"
    and page: "csn_slru log pageno = Some page"
    and on: "\<forall>x \<in> set xs. TransactionIdToCSNPage x = pageno"
    and xid: "TransactionIdIsValid xid \<Longrightarrow> TransactionIdToCSNPage xid = pageno"
  shows "csn_entry (csn_slru log') = upd_csn (sub_csn csn topx) (set xs) (main_csn csn xid (csn_entry (csn_slru log)))"
    and "dom (csn_slru log') = dom (csn_slru log)" and "shown log' = shown log @ [csn_slru log']"
proof -
  obtain p1 p2 where p1: "(if TransactionIdIsValid xid then CSNLogSetCSN csn xid page else Inr page) = Inr p1"
    and p2: "for_each (CSNLogSetCSN (sub_csn csn topx)) xs p1 = Inr p2"
    and l: "log' = log\<lparr>csn_slru := (csn_slru log)(pageno \<mapsto> p2), shown := shown log @ [(csn_slru log)(pageno \<mapsto> p2)]\<rparr>"
    using run sb page
    by (auto simp: CSNLogSetPageStatus_def read_for_update_def result_bind_Inr_iff Let_def)
  show "dom (csn_slru log') = dom (csn_slru log)" "shown log' = shown log @ [csn_slru log']"
    using l page by auto
  have 1: "csn_entry ((csn_slru log)(pageno \<mapsto> p1)) = main_csn csn xid (csn_entry (csn_slru log))"
  proof (cases "TransactionIdIsValid xid")
    case True
    then show ?thesis using p1 CSNLogSetCSN_entry [of csn xid page p1 "csn_slru log"] page xid
      by (simp add: main_csn_def)
  next
    case False
    then show ?thesis using p1 page by (auto simp: main_csn_def fun_upd_idem)
  qed
  show "csn_entry (csn_slru log') = upd_csn (sub_csn csn topx) (set xs) (main_csn csn xid (csn_entry (csn_slru log)))"
    using for_each_csn [OF p2, of "(csn_slru log)(pageno \<mapsto> p1)" pageno] on 1 l by simp
qed

declare set_csn_loop.simps [simp del]

lemma num_on_csn_page_take: "x \<in> set (take (num_on_csn_page pageno xs) xs) \<Longrightarrow> TransactionIdToCSNPage x = pageno"
  by (induction xs) (auto split: if_splits)

text \<open>The states a run shows: the main entry is updated in all of them, the others one after another.\<close>

definition shown_partial :: "CommitSeqNo \<Rightarrow> TransactionId set \<Rightarrow> (TransactionId \<Rightarrow> CommitSeqNo option) \<Rightarrow>
   csnlog \<Rightarrow> csnlog \<Rightarrow> bool" where
  "shown_partial sub X base log log' \<longleftrightarrow>
     (\<exists>ps. shown log' = shown log @ ps \<and> ps \<noteq> [] \<and>
        (\<forall>p \<in> set ps. \<forall>x. csn_entry p x = base x \<or> csn_entry p x = upd_csn sub X base x))"

lemma shown_partial_step:
  assumes tail: "shown_partial sub Y (upd_csn sub Z base) log1 log'"
    and one: "shown log1 = shown log @ [pages]" "csn_entry pages = upd_csn sub Z base" and X: "X = Y \<union> Z"
  shows "shown_partial sub X base log log'"
proof -
  obtain ps where ps: "shown log' = shown log1 @ ps"
    and b: "\<forall>p \<in> set ps. \<forall>x. csn_entry p x = upd_csn sub Z base x \<or> csn_entry p x = upd_csn sub Y (upd_csn sub Z base) x"
    using tail by (auto simp: shown_partial_def)
  have z: "upd_csn sub Z base x = base x \<or> upd_csn sub Z base x = upd_csn sub X base x" for x
    using X by (auto simp: upd_csn_def)
  have "csn_entry p x = base x \<or> csn_entry p x = upd_csn sub X base x" if "p \<in> set (pages # ps)" for p x
    using that b one(2) z [of x] X upd_csn_union [of sub Y Z base] by (metis set_ConsD)
  moreover have "shown log' = shown log @ (pages # ps)" using ps one(1) by simp
  ultimately show ?thesis unfolding shown_partial_def by blast
qed

lemma set_csn_loop_Inr:
  assumes "set_csn_loop env csn topx xid pageno xs log = Inr log'" and "\<not> DMS_STANDBY env"
    and "\<forall>x \<in> set xs. csn_slru log (TransactionIdToCSNPage x) \<noteq> None" and "csn_slru log pageno \<noteq> None"
    and "TransactionIdIsValid xid \<Longrightarrow> TransactionIdToCSNPage xid = pageno"
  shows "csn_entry (csn_slru log') = upd_csn (sub_csn csn topx) (set xs) (main_csn csn xid (csn_entry (csn_slru log))) \<and>
     dom (csn_slru log') = dom (csn_slru log) \<and>
     shown_partial (sub_csn csn topx) (set xs) (main_csn csn xid (csn_entry (csn_slru log))) log log'"
  using assms
proof (induction env csn topx xid pageno xs log rule: set_csn_loop.induct)
  case (1 env csn topx xid pageno xs log)
  define n where "n = num_on_csn_page pageno xs"
  let ?sub = "sub_csn csn topx" and ?base = "main_csn csn xid (csn_entry (csn_slru log))"
  obtain log1 where s1: "CSNLogSetPageStatus env xid (take n xs) csn pageno topx log = Inr log1"
    and r: "(if drop n xs = [] then Inr log1
         else set_csn_loop env csn topx InvalidTransactionId
                (TransactionIdToCSNPage (hd (drop n xs))) (drop n xs) log1) = Inr log'"
    using "1.prems"(1) unfolding set_csn_loop.simps [of env csn topx xid pageno xs log] Let_def
      n_def [symmetric] result_bind_Inr_iff by blast
  obtain page where page: "csn_slru log pageno = Some page" using "1.prems"(4) by auto
  have on: "\<forall>x \<in> set (take n xs). TransactionIdToCSNPage x = pageno" using num_on_csn_page_take n_def by blast
  note P = CSNLogSetPageStatus_Inr [OF s1 "1.prems"(2) page on "1.prems"(5)]
  show ?case
  proof (cases "drop n xs = []")
    case True
    then have "take n xs = xs" "log' = log1" using r by auto
    then show ?thesis using P by (auto simp: shown_partial_def)
  next
    case False
    have r': "set_csn_loop env csn topx InvalidTransactionId (TransactionIdToCSNPage (hd (drop n xs))) (drop n xs) log1 = Inr log'"
      using r False by simp
    have ex: "csn_slru log1 (TransactionIdToCSNPage x) \<noteq> None" if "x \<in> set (drop n xs)" for x
      using "1.prems"(3) P(2) in_set_dropD [OF that] by (metis domIff)
    have IH: "csn_entry (csn_slru log') = upd_csn ?sub (set (drop n xs)) (csn_entry (csn_slru log1)) \<and>
       dom (csn_slru log') = dom (csn_slru log1) \<and>
       shown_partial ?sub (set (drop n xs)) (csn_entry (csn_slru log1)) log1 log'"
      using "1.IH" [OF n_def False, of log1] r' "1.prems"(2) ex hd_in_set [OF False]
      by (simp add: main_csn_def TransactionIdIsValid_def)
    have u: "set xs = set (drop n xs) \<union> set (take n xs)" by (metis append_take_drop_id set_append sup_commute)
    have "csn_entry (csn_slru log') = upd_csn ?sub (set xs) ?base"
      using IH P(1) u upd_csn_union [of ?sub "set (drop n xs)" "set (take n xs)" ?base] by simp
    moreover have "shown_partial ?sub (set xs) ?base log log'"
      using shown_partial_step [OF _ P(3,1) u] IH P(1) by simp
    ultimately show ?thesis using IH P(2) by simp
  qed
qed

definition can_set :: "CommitSeqNo \<Rightarrow> TransactionId set \<Rightarrow> (TransactionId \<Rightarrow> CommitSeqNo option) \<Rightarrow> bool" where
  "can_set csn X e \<longleftrightarrow> (\<forall>x \<in> X. \<exists>v. e x = Some v \<and> next_csn csn v \<noteq> None)"

lemma can_set_subset: "can_set csn X e \<Longrightarrow> Y \<subseteq> X \<Longrightarrow> can_set csn Y e"
  by (auto simp: can_set_def)

lemma can_set_upd: "can_set csn X e \<Longrightarrow> can_set csn X (upd_csn csn Y e)"
  unfolding can_set_def upd_csn_def using next_csn_idem by fastforce

lemma CSNLogSetPageStatus_ok:
  assumes sb: "\<not> DMS_STANDBY env" and page: "csn_slru log pageno = Some page"
    and on: "\<forall>x \<in> set xs. TransactionIdToCSNPage x = pageno"
    and xid: "TransactionIdIsValid xid \<Longrightarrow> TransactionIdToCSNPage xid = pageno \<and> can_set csn {xid} (csn_entry (csn_slru log))"
    and cs: "can_set (sub_csn csn topx) (set xs) (main_csn csn xid (csn_entry (csn_slru log)))"
  shows "\<exists>log'. CSNLogSetPageStatus env xid xs csn pageno topx log = Inr log'"
proof -
  have "\<exists>p1. (if TransactionIdIsValid xid then CSNLogSetCSN csn xid page else Inr page) = Inr p1 \<and>
     csn_entry ((csn_slru log)(pageno \<mapsto> p1)) = main_csn csn xid (csn_entry (csn_slru log))"
  proof (cases "TransactionIdIsValid xid")
    case True
    then have "next_csn csn (page (TransactionIdToCSNPgIndex xid)) \<noteq> None"
      using xid page by (auto simp: can_set_def csn_entry_def)
    then obtain p1 where "CSNLogSetCSN csn xid page = Inr p1"
      using for_each_csn_ok [of "[xid]" csn page] by (auto simp: result_bind_Inr_iff)
    then show ?thesis using True CSNLogSetCSN_entry [of csn xid page p1 "csn_slru log"] page xid
      by (auto simp: main_csn_def)
  next
    case False
    then show ?thesis using page by (auto simp: main_csn_def fun_upd_idem)
  qed
  then obtain p1 where p1: "(if TransactionIdIsValid xid then CSNLogSetCSN csn xid page else Inr page) = Inr p1"
    and e: "csn_entry ((csn_slru log)(pageno \<mapsto> p1)) = main_csn csn xid (csn_entry (csn_slru log))" by blast
  have "next_csn (sub_csn csn topx) (p1 (TransactionIdToCSNPgIndex x)) \<noteq> None" if "x \<in> set xs" for x
  proof -
    have "main_csn csn xid (csn_entry (csn_slru log)) x = Some (p1 (TransactionIdToCSNPgIndex x))"
      unfolding e [symmetric] using on that by (simp add: csn_entry_def)
    then show ?thesis using cs that by (auto simp: can_set_def)
  qed
  then obtain p2 where "for_each (CSNLogSetCSN (sub_csn csn topx)) xs p1 = Inr p2"
    using for_each_csn_ok by blast
  then show ?thesis using sb page p1 by (simp add: CSNLogSetPageStatus_def read_for_update_def Let_def)
qed

lemma set_csn_loop_ok:
  assumes "\<not> DMS_STANDBY env" and "csn_slru log pageno \<noteq> None"
    and "TransactionIdIsValid xid \<Longrightarrow> TransactionIdToCSNPage xid = pageno \<and> can_set csn {xid} (csn_entry (csn_slru log))"
    and "can_set (sub_csn csn topx) (set xs) (main_csn csn xid (csn_entry (csn_slru log)))"
    and "\<forall>x \<in> set xs. csn_slru log (TransactionIdToCSNPage x) \<noteq> None"
  shows "\<exists>log'. set_csn_loop env csn topx xid pageno xs log = Inr log'"
  using assms
proof (induction env csn topx xid pageno xs log rule: set_csn_loop.induct)
  case (1 env csn topx xid pageno xs log)
  define n where "n = num_on_csn_page pageno xs"
  let ?sub = "sub_csn csn topx" and ?base = "main_csn csn xid (csn_entry (csn_slru log))"
  obtain page where page: "csn_slru log pageno = Some page" using "1.prems"(2) by auto
  have on: "\<forall>x \<in> set (take n xs). TransactionIdToCSNPage x = pageno" using num_on_csn_page_take n_def by blast
  have "can_set ?sub (set (take n xs)) ?base" using can_set_subset [OF "1.prems"(4) set_take_subset] .
  then obtain log1 where s1: "CSNLogSetPageStatus env xid (take n xs) csn pageno topx log = Inr log1"
    using CSNLogSetPageStatus_ok [OF "1.prems"(1) page on "1.prems"(3)] by blast
  note P = CSNLogSetPageStatus_Inr [OF s1 "1.prems"(1) page on]
  have "\<exists>log'. (if drop n xs = [] then Inr log1
         else set_csn_loop env csn topx InvalidTransactionId
                (TransactionIdToCSNPage (hd (drop n xs))) (drop n xs) log1) = Inr log'"
  proof (cases "drop n xs = []")
    case False
    have ex: "csn_slru log1 (TransactionIdToCSNPage x) \<noteq> None" if "x \<in> set (drop n xs)" for x
      using "1.prems"(3,5) P(2) in_set_dropD [OF that] by (metis domIff)
    have e1: "csn_entry (csn_slru log1) = upd_csn ?sub (set (take n xs)) ?base" using P(1) "1.prems"(3) by blast
    have "can_set ?sub (set (drop n xs)) (main_csn csn InvalidTransactionId (csn_entry (csn_slru log1)))"
      using can_set_upd [OF can_set_subset [OF "1.prems"(4) set_drop_subset]] e1
      by (simp add: main_csn_def [of _ InvalidTransactionId] TransactionIdIsValid_def)
    then have "\<exists>log'. set_csn_loop env csn topx InvalidTransactionId
                (TransactionIdToCSNPage (hd (drop n xs))) (drop n xs) log1 = Inr log'"
      using "1.IH" [OF n_def False, of log1] "1.prems"(1) ex hd_in_set [OF False]
      by (simp add: TransactionIdIsValid_def)
    then show ?thesis using False by simp
  qed simp
  then show ?case
    unfolding set_csn_loop.simps [of env csn topx xid pageno xs log] Let_def n_def [symmetric] s1 by simp
qed

text \<open>The whole operation on a tree of known transactions.\<close>

lemma CSNLogSetCommitSeqNo_Inr:
  assumes run: "CSNLogSetCommitSeqNo env xid xs csn log = Inr log'" and sb: "\<not> DMS_STANDBY env"
    and csn: "csn > COMMITSEQNO_ABORTED \<or> \<not> (useLocalSnapshot env \<or> IsRoachStandbyCluster env)"
    and c0: "csn \<noteq> InvalidCommitSeqNo" and x0: "TransactionIdIsValid xid" "xid \<noteq> BootstrapTransactionId"
    and ex: "\<forall>x \<in> set (xid # xs). csn_entry (csn_slru log) x \<noteq> None"
  shows "csn_entry (csn_slru log') = upd_csn (sub_csn csn xid) (set xs) (upd_csn csn {xid} (csn_entry (csn_slru log)))"
    and "shown_partial (sub_csn csn xid) (set xs) (upd_csn csn {xid} (csn_entry (csn_slru log))) log log'"
    and "dom (csn_slru log') = dom (csn_slru log)"
proof -
  obtain l where l: "set_csn_loop env csn xid xid (TransactionIdToCSNPage xid) xs log = Inr l"
    and e: "csn_slru log' = csn_slru l" "shown log' = shown l"
    using run csn c0 x0 by (auto simp: CSNLogSetCommitSeqNo_def Let_def result_bind_Inr_iff split: if_splits)
  have p: "\<forall>x \<in> set xs. csn_slru log (TransactionIdToCSNPage x) \<noteq> None"
    "csn_slru log (TransactionIdToCSNPage xid) \<noteq> None"
    using ex by (auto simp: csn_entry_def)
  note L = set_csn_loop_Inr [OF l sb p refl]
  show "csn_entry (csn_slru log') = upd_csn (sub_csn csn xid) (set xs) (upd_csn csn {xid} (csn_entry (csn_slru log)))"
    "dom (csn_slru log') = dom (csn_slru log)"
    using L x0 e by (auto simp: main_csn_def)
  show "shown_partial (sub_csn csn xid) (set xs) (upd_csn csn {xid} (csn_entry (csn_slru log))) log log'"
    using L x0 e by (simp add: main_csn_def shown_partial_def)
qed

lemma CSNLogSetCommitSeqNo_ok:
  assumes sb: "\<not> DMS_STANDBY env"
    and csn: "csn > COMMITSEQNO_ABORTED \<or> \<not> (useLocalSnapshot env \<or> IsRoachStandbyCluster env)"
    and c0: "csn \<noteq> InvalidCommitSeqNo" and x0: "TransactionIdIsValid xid" "xid \<noteq> BootstrapTransactionId"
    and m: "can_set csn {xid} (csn_entry (csn_slru log))"
    and s: "can_set (sub_csn csn xid) (set xs) (upd_csn csn {xid} (csn_entry (csn_slru log)))"
    and ex: "\<forall>x \<in> set (xid # xs). csn_entry (csn_slru log) x \<noteq> None"
  shows "\<exists>log'. CSNLogSetCommitSeqNo env xid xs csn log = Inr log'"
proof -
  have "\<exists>l. set_csn_loop env csn xid xid (TransactionIdToCSNPage xid) xs log = Inr l"
    by (rule set_csn_loop_ok) (use assms in \<open>auto simp: main_csn_def csn_entry_def\<close>)
  then show ?thesis using csn c0 x0 by (auto simp: CSNLogSetCommitSeqNo_def Let_def)
qed

end
