(* ===== verification/CSN_Log_Properties.thy ===== *)
theory CSN_Log_Properties
  imports CSN_Log
begin

text \<open>
  What the commit sequence number log promises: a commit in two phases switches a whole
  transaction tree at once for every reader, links to parents are ordered so that the walk along
  them ends, an outcome is irrevocable, and extension provides the page of every new transaction.
\<close>

section \<open>Reading along parents\<close>

lemma normal_read:
  "TransactionIdIsNormal xid \<Longrightarrow> InternalGetCommitSeqNo pages xid =
     (case csn_entry pages xid of None \<Rightarrow> Inl SLRU_OPEN_FAILED | Some v \<Rightarrow> Inr v)"
  by (auto simp: InternalGetCommitSeqNo_def csn_entry_def TransactionIdIsNormal_def special_xids Let_def
      split: option.splits)

lemma nest_entry:
  assumes "TransactionIdIsNormal xid" "csn_entry pages xid = Some v"
    and "\<not> (COMMITSEQNO_IS_SUBTRANS v \<and> COMMITSEQNO_IS_COMMITTING v)"
  shows "CSNLogGetNestCommitSeqNo pages xid = Some (Inr v)"
  unfolding CSNLogGetNestCommitSeqNo_def
  by (subst RecursiveGetCommitSeqNo.simps) (use assms in \<open>auto simp: normal_read\<close>)

lemma nest_link:
  assumes "TransactionIdIsNormal xid" "csn_entry pages xid = Some (top_link t)" "short_xid t"
  shows "CSNLogGetNestCommitSeqNo pages xid = CSNLogGetNestCommitSeqNo pages t"
  unfolding CSNLogGetNestCommitSeqNo_def
  by (subst RecursiveGetCommitSeqNo.simps)
    (use assms in \<open>simp add: normal_read subtrans_iff committing_iff top_link_bits top_link_parent\<close>)

definition ordered_parents :: "csn_pages \<Rightarrow> bool" where
  "ordered_parents pages \<longleftrightarrow>
     (\<forall>x v. csn_entry pages x = Some v \<longrightarrow> COMMITSEQNO_IS_SUBTRANS v \<longrightarrow> GET_PARENTXID v < x)"

lemma nest_returns:
  assumes "ordered_parents pages"
  shows "\<exists>r. CSNLogGetNestCommitSeqNo pages xid = Some r"
proof (induction "unat xid" arbitrary: xid rule: less_induct)
  case less
  show ?case
  proof (cases "InternalGetCommitSeqNo pages xid")
    case (Inl e)
    then show ?thesis
      unfolding CSNLogGetNestCommitSeqNo_def by (subst RecursiveGetCommitSeqNo.simps) simp
  next
    case (Inr v)
    show ?thesis
    proof (cases "COMMITSEQNO_IS_SUBTRANS v \<and> COMMITSEQNO_IS_COMMITTING v")
      case True
      have "csn_entry pages xid = Some v"
        using Inr True by (auto simp: InternalGetCommitSeqNo_def Let_def csn_entry_def COMMITSEQNO_ABORTED_def
            COMMITSEQNO_FROZEN_def subtrans_iff split: if_splits option.splits)
      then have "GET_PARENTXID v < xid" using assms True by (auto simp: ordered_parents_def)
      then have "\<exists>r. CSNLogGetNestCommitSeqNo pages (GET_PARENTXID v) = Some r"
        using less by (simp add: word_less_nat_alt)
      then show ?thesis using Inr True
        unfolding CSNLogGetNestCommitSeqNo_def by (subst RecursiveGetCommitSeqNo.simps) simp
    next
      case False
      then show ?thesis using Inr
        unfolding CSNLogGetNestCommitSeqNo_def by (subst RecursiveGetCommitSeqNo.simps) auto
    qed
  qed
qed

section \<open>The two phases of a commit\<close>

lemma committing_csn_bits: "bit (COMMITSEQNO_COMMIT_INPROGRESS OR c) 62"
  by (simp add: bit_or_iff)

lemma committed_greater: "COMMITSEQNO_IS_COMMITTED c \<Longrightarrow> c > COMMITSEQNO_ABORTED"
proof -
  assume "COMMITSEQNO_IS_COMMITTED c"
  then have "2 \<le> c AND MAX_COMMITSEQNO" by (simp add: COMMITSEQNO_IS_COMMITTED_def COMMITSEQNO_FROZEN_def)
  moreover have "c AND MAX_COMMITSEQNO \<le> c" by (rule word_and_le2)
  ultimately have "2 \<le> c" by order
  then show ?thesis by (simp add: COMMITSEQNO_ABORTED_def word_le_nat_alt word_less_nat_alt)
qed

lemma committing_greater: "bit c 62 \<Longrightarrow> c > COMMITSEQNO_ABORTED \<and> c \<noteq> InvalidCommitSeqNo"
proof -
  assume b: "bit c 62"
  then have "c \<noteq> 0" "c \<noteq> 1" by auto
  then show ?thesis
    by (auto simp: COMMITSEQNO_ABORTED_def InvalidCommitSeqNo_def word_less_nat_alt word_unat_eq_iff)
qed

lemma sub_csn_committing: "bit c 62 \<Longrightarrow> sub_csn c t = top_link t"
  using committing_iff [of c] by (simp add: sub_csn_def top_link_def COMMITSEQNO_IS_COMMITTING_def)

lemma sub_csn_committed: "COMMITSEQNO_IS_COMMITTED c \<Longrightarrow> sub_csn c t = c"
  using committing_iff [of c] committed_bits [of c] by (simp add: sub_csn_def COMMITSEQNO_IS_COMMITTING_def)

lemma next_csn_committing: "bit c 62 \<Longrightarrow> \<not> COMMITSEQNO_IS_ABORTED v \<Longrightarrow> next_csn c v = Some c"
  using committing_not_final by (simp add: next_csn_def)

lemma next_csn_committed: "COMMITSEQNO_IS_COMMITTED c \<Longrightarrow> \<not> COMMITSEQNO_IS_ABORTED v \<Longrightarrow> next_csn c v = Some c"
  using committed_not_aborted by (simp add: next_csn_def)

definition live_tree :: "TransactionId \<Rightarrow> TransactionId list \<Rightarrow> csn_pages \<Rightarrow> bool" where
  "live_tree xid xs pages \<longleftrightarrow>
     (\<forall>x \<in> set (xid # xs). TransactionIdIsNormal x \<and>
        (\<exists>v. csn_entry pages x = Some v \<and> \<not> COMMITSEQNO_IS_ABORTED v)) \<and> xid \<notin> set xs"

lemma normal_valid: "TransactionIdIsNormal x \<Longrightarrow> TransactionIdIsValid x \<and> x \<noteq> BootstrapTransactionId"
  by (auto simp: TransactionIdIsNormal_def TransactionIdIsValid_def special_xids word_le_nat_alt)

text \<open>Either kind of sequence number, committing or committed, is stored as it is.\<close>

lemma set_live_tree:
  assumes sb: "\<not> DMS_STANDBY env" and live: "live_tree xid xs (csn_slru log)"
    and csn: "bit csn 62 \<or> COMMITSEQNO_IS_COMMITTED csn"
  shows "\<exists>log'. CSNLogSetCommitSeqNo env xid xs csn log = Inr log' \<and>
     csn_entry (csn_slru log') = (\<lambda>x. if x = xid then Some csn else if x \<in> set xs then Some (sub_csn csn xid)
       else csn_entry (csn_slru log) x) \<and>
     (\<exists>ps. shown log' = shown log @ ps \<and> ps \<noteq> [] \<and> (\<forall>p \<in> set ps. csn_entry p xid = Some csn \<and>
        (\<forall>x \<in> set xs. csn_entry p x = csn_entry (csn_slru log) x \<or> csn_entry p x = Some (sub_csn csn xid))))"
proof -
  let ?e = "csn_entry (csn_slru log)" and ?s = "sub_csn csn xid"
  have v: "TransactionIdIsValid xid" "xid \<noteq> BootstrapTransactionId" using live normal_valid by (auto simp: live_tree_def)
  have gt: "csn > COMMITSEQNO_ABORTED" "csn \<noteq> InvalidCommitSeqNo"
    using csn committing_greater [of csn] committed_greater [of csn]
    by (auto simp: InvalidCommitSeqNo_def COMMITSEQNO_ABORTED_def)
  have n1: "next_csn csn v = Some csn" if "\<not> COMMITSEQNO_IS_ABORTED v" for v
    using csn that next_csn_committing next_csn_committed by blast
  have n2: "next_csn ?s v = Some ?s" if "\<not> COMMITSEQNO_IS_ABORTED v" for v
    using csn that next_csn_committing [OF top_link_bits(1)] next_csn_committed sub_csn_committing sub_csn_committed
    by metis
  have upd: "upd_csn ?s (set xs) (upd_csn csn {xid} ?e) = (\<lambda>x. if x = xid then Some csn
      else if x \<in> set xs then Some ?s else ?e x)"
    using live n1 n2 by (auto simp: upd_csn_def live_tree_def fun_eq_iff)
  have ex: "\<forall>x \<in> set (xid # xs). ?e x \<noteq> None" using live by (auto simp: live_tree_def)
  have "\<exists>log'. CSNLogSetCommitSeqNo env xid xs csn log = Inr log'"
  proof (rule CSNLogSetCommitSeqNo_ok [OF sb _ gt(2) v _ _ ex])
    show "can_set csn {xid} ?e" using live n1 by (fastforce simp: can_set_def live_tree_def)
    show "can_set ?s (set xs) (upd_csn csn {xid} ?e)"
      using live n2 by (fastforce simp: can_set_def live_tree_def upd_csn_def)
  qed (use gt in simp)
  then obtain log' where run: "CSNLogSetCommitSeqNo env xid xs csn log = Inr log'" by blast
  note R = CSNLogSetCommitSeqNo_Inr [OF run sb _ gt(2) v ex]
  obtain ps where ps: "shown log' = shown log @ ps" "ps \<noteq> []"
    and b: "\<forall>p \<in> set ps. \<forall>x. csn_entry p x = upd_csn csn {xid} ?e x \<or>
          csn_entry p x = upd_csn ?s (set xs) (upd_csn csn {xid} ?e) x"
    using R(2) gt unfolding shown_partial_def by blast
  have x: "upd_csn csn {xid} ?e xid = Some csn" using live n1 by (auto simp: upd_csn_def live_tree_def)
  have y: "upd_csn csn {xid} ?e x = ?e x" if "x \<in> set xs" for x
    using live that by (auto simp: upd_csn_def live_tree_def)
  have "csn_entry p xid = Some csn" if "p \<in> set ps" for p
    using b that x unfolding upd by metis
  moreover have "csn_entry p x = ?e x \<or> csn_entry p x = Some ?s" if "p \<in> set ps" "x \<in> set xs" for p x
    using b that y live unfolding upd live_tree_def by metis
  ultimately show ?thesis using run R(1) gt ps unfolding upd by blast
qed

section \<open>Properties\<close>

definition csn_demo_env :: csn_env where
  "csn_demo_env = \<lparr>useLocalSnapshot = False, IsRoachStandbyCluster = False, IsBootstrapProcessingMode = False,
     IS_DISASTER_RECOVER_MODE = False, DMS_STANDBY = False, RecoveryInProgress = False, TransactionXmin = 3,
     sn_recent_global_xmin = 0, page_in_memory = (\<lambda>_. True)\<rparr>"

definition blank_csnlog :: "nat \<Rightarrow> csnlog" where
  "blank_csnlog n = \<lparr>csn_slru = (\<lambda>i. if i < n then Some (\<lambda>_. 0) else None), shown = [], xlogMaxCSN = 0,
     lastExtendCSNLogpage = n - 1, startExtendCSNLogpage = 0\<rparr>"

lemma blank_entry: "TransactionIdToCSNPage x < n \<Longrightarrow> csn_entry (csn_slru (blank_csnlog n)) x = Some 0"
  by (simp add: csn_entry_def blank_csnlog_def)



lemma link_bits: "bit (COMMITSEQNO_SUBTRANS_BIT OR t) 63"
  by (simp add: bit_or_iff)

lemma link_or_committing: "short_xid t \<Longrightarrow> GET_PARENTXID ((COMMITSEQNO_SUBTRANS_BIT OR t) OR COMMITSEQNO_COMMIT_INPROGRESS) = t"
  using top_link_parent by (simp add: top_link_def)

lemma set_parent_entry:
  assumes "\<not> DMS_STANDBY env" "csn_entry (csn_slru log) xid = Some v"
  shows "\<exists>log' w. SubTransSetParent env xid parent log = Inr log' \<and>
     csn_entry (csn_slru log') = (csn_entry (csn_slru log))(xid \<mapsto> w) \<and>
     (w = COMMITSEQNO_SUBTRANS_BIT OR parent \<or> w = (COMMITSEQNO_SUBTRANS_BIT OR parent) OR COMMITSEQNO_COMMIT_INPROGRESS)"
proof -
  let ?n = "COMMITSEQNO_SUBTRANS_BIT OR parent"
  obtain page where page: "csn_slru log (TransactionIdToCSNPage xid) = Some page"
    and v: "page (TransactionIdToCSNPgIndex xid) = v"
    using assms(2) by (auto simp: csn_entry_def)
  have new: "csn_entry ((csn_slru log)(TransactionIdToCSNPage xid \<mapsto> page(TransactionIdToCSNPgIndex xid := ?n))) =
      (csn_entry (csn_slru log))(xid \<mapsto> ?n)"
    using page same_csn_entry [of _ xid] by (auto simp: csn_entry_def fun_eq_iff)
  show ?thesis
  proof (cases "v \<noteq> ?n \<and> v \<noteq> ?n OR COMMITSEQNO_COMMIT_INPROGRESS")
    case True
    then show ?thesis using assms(1) page v new by (auto simp: SubTransSetParent_def Let_def)
  next
    case False
    then have "SubTransSetParent env xid parent log = Inr log" using assms(1) page v
      by (auto simp: SubTransSetParent_def Let_def)
    then show ?thesis using False assms(2) by (intro exI [of _ log] exI [of _ v]) (auto simp: fun_upd_idem)
  qed
qed

text \<open>
  C38. Recording the parent of a subtransaction, which precedes it: the parent reads back,
  no other entry changes, every link of the log still leads to a smaller transaction, and
  therefore the walk along the parents returns for every transaction.
\<close>

theorem subtrans_parents_ordered:
  assumes "\<not> DMS_STANDBY env" "TransactionIdIsNormal xid" "TransactionIdPrecedes parent xid" "short_xid parent"
    and "ordered_parents (csn_slru log)" "csn_entry (csn_slru log) xid \<noteq> None"
  shows "\<exists>log'. SubTransSetParent env xid parent log = Inr log' \<and>
     SubTransGetParent from_procs (csn_slru log') xid status force = Inr (parent, status) \<and>
     (\<forall>x. x \<noteq> xid \<longrightarrow> csn_entry (csn_slru log') x = csn_entry (csn_slru log) x) \<and>
     ordered_parents (csn_slru log') \<and> (\<forall>x. \<exists>r. CSNLogGetNestCommitSeqNo (csn_slru log') x = Some r)"
proof -
  obtain v where "csn_entry (csn_slru log) xid = Some v" using assms(6) by auto
  from set_parent_entry [OF assms(1) this] obtain log' w where run: "SubTransSetParent env xid parent log = Inr log'"
    and e: "csn_entry (csn_slru log') = (csn_entry (csn_slru log))(xid \<mapsto> w)"
    and w: "w = COMMITSEQNO_SUBTRANS_BIT OR parent \<or> w = (COMMITSEQNO_SUBTRANS_BIT OR parent) OR COMMITSEQNO_COMMIT_INPROGRESS"
    by blast
  have sub: "COMMITSEQNO_IS_SUBTRANS w" and par: "GET_PARENTXID w = parent"
    using w parent_link [OF assms(4)] link_or_committing [OF assms(4)] by (auto simp: subtrans_iff bit_or_iff)
  have ord: "ordered_parents (csn_slru log')"
    using assms(3,5) e par by (auto simp: ordered_parents_def TransactionIdPrecedes_def)
  have "SubTransGetParent from_procs (csn_slru log') xid status force = Inr (parent, status)"
    using assms(2) e sub par by (simp add: SubTransGetParent_def CSNLogGetCommitSeqNo_def normal_read)
  then show ?thesis using run e ord nest_returns [OF ord] by auto
qed

theorem subtrans_parents_ordered_witness:
  "\<exists>log'. SubTransSetParent csn_demo_env 101 100 (blank_csnlog 1) = Inr log' \<and>
     SubTransGetParent (\<lambda>x. x) (csn_slru log') 101 CLOG_XID_STATUS_IN_PROGRESS False = Inr (100, CLOG_XID_STATUS_IN_PROGRESS)"
proof -
  have "ordered_parents (csn_slru (blank_csnlog 1))"
    by (auto simp: ordered_parents_def csn_entry_def blank_csnlog_def subtrans_iff split: if_splits)
  moreover have "csn_entry (csn_slru (blank_csnlog 1)) 101 \<noteq> None"
    by (simp add: blank_entry TransactionIdToCSNPage_def CSNLOG_XACTS_PER_PAGE_def BLCKSZ_def)
  moreover have "short_xid 100" by (simp add: short_xid_def MAX_COMMITSEQNO_def)
  ultimately show ?thesis
    using subtrans_parents_ordered [of csn_demo_env 101 100 "blank_csnlog 1" "\<lambda>x. x" CLOG_XID_STATUS_IN_PROGRESS False]
    by (auto simp: csn_demo_env_def TransactionIdIsNormal_def special_xids TransactionIdPrecedes_def
        word_le_nat_alt word_less_nat_alt)
qed

text \<open>
  C39. An outcome is irrevocable: an attempt to abort a transaction that has a commit sequence
  number, or to give a sequence number to an aborted one, is refused, whatever its
  subtransactions.
\<close>

theorem csn_outcome_irrevocable:
  assumes "\<not> DMS_STANDBY env" "\<not> (useLocalSnapshot env \<or> IsRoachStandbyCluster env)" "TransactionIdIsNormal xid"
    and "csn_entry (csn_slru log) xid = Some v"
    and "(COMMITSEQNO_IS_COMMITTED v \<and> COMMITSEQNO_IS_ABORTED csn) \<or>
         (COMMITSEQNO_IS_ABORTED v \<and> COMMITSEQNO_IS_COMMITTED csn)"
  shows "CSNLogSetCommitSeqNo env xid xs csn log = Inl Csn_state_change"
proof -
  obtain page where page: "csn_slru log (TransactionIdToCSNPage xid) = Some page"
    and v: "page (TransactionIdToCSNPgIndex xid) = v"
    using assms(4) by (auto simp: csn_entry_def)
  have val: "TransactionIdIsValid xid" "xid \<noteq> BootstrapTransactionId" using normal_valid [OF assms(3)] by auto
  have c0: "csn \<noteq> InvalidCommitSeqNo"
    using assms(5) committed_greater [of csn]
    by (auto simp: COMMITSEQNO_IS_ABORTED_def COMMITSEQNO_ABORTED_def InvalidCommitSeqNo_def)
  have set: "CSNLogSetCSN csn xid page = Inl Csn_state_change"
    using assms(5) v by (simp add: CSNLogSetCSN_def Let_def)
  then have "CSNLogSetPageStatus env xid (take n xs) csn (TransactionIdToCSNPage xid) xid log = Inl Csn_state_change" for n
    using assms(1) page val by (simp add: CSNLogSetPageStatus_def read_for_update_def)
  then have "set_csn_loop env csn xid xid (TransactionIdToCSNPage xid) xs log = Inl Csn_state_change"
    by (subst set_csn_loop.simps) (simp add: Let_def)
  then show ?thesis using assms(2) val c0 by (simp add: CSNLogSetCommitSeqNo_def Let_def)
qed

theorem csn_outcome_irrevocable_witness:
  "CSNLogSetCommitSeqNo csn_demo_env 5 []
     COMMITSEQNO_ABORTED (blank_csnlog 1\<lparr>csn_slru := [0 \<mapsto> (\<lambda>_. 7)]\<rparr>) = Inl Csn_state_change"
proof (rule csn_outcome_irrevocable [where v=7])
  show "csn_entry (csn_slru (blank_csnlog 1\<lparr>csn_slru := [0 \<mapsto> (\<lambda>_. 7)]\<rparr>)) 5 = Some 7"
    by (simp add: csn_entry_def TransactionIdToCSNPage_def CSNLOG_XACTS_PER_PAGE_def BLCKSZ_def)
qed (simp_all add: csn_demo_env_def TransactionIdIsNormal_def special_xids COMMITSEQNO_IS_COMMITTED_def csn_constants
    COMMITSEQNO_IS_ABORTED_def word_le_nat_alt)

section \<open>Extension\<close>

definition extended :: "csnlog \<Rightarrow> bool" where
  "extended log \<longleftrightarrow> (\<forall>p. startExtendCSNLogpage log \<le> p \<longrightarrow> p \<le> lastExtendCSNLogpage log \<longrightarrow> csn_slru log p \<noteq> None)"

lemma ZeroCSNLOGPage_some: "ZeroCSNLOGPage env q pages p \<noteq> None \<longleftrightarrow> p = q \<or> pages p \<noteq> None"
  by (auto simp: ZeroCSNLOGPage_def)

lemma ZeroCSNLOGPage_self [simp]: "\<exists>y. ZeroCSNLOGPage env q pages q = Some y"
  by (auto simp: ZeroCSNLOGPage_def)

lemma ZeroCSNLOGPage_kept: "pages p \<noteq> None \<Longrightarrow> page_in_memory env p \<Longrightarrow> ZeroCSNLOGPage env q pages p = pages p"
  by (auto simp: ZeroCSNLOGPage_def)

lemma fold_zero_some: "fold (ZeroCSNLOGPage env) qs pages p \<noteq> None \<longleftrightarrow> p \<in> set qs \<or> pages p \<noteq> None"
  by (induction qs arbitrary: pages) (auto simp: ZeroCSNLOGPage_some simp del: not_None_eq)

lemma fold_zero_kept: "pages p \<noteq> None \<Longrightarrow> page_in_memory env p \<Longrightarrow> fold (ZeroCSNLOGPage env) qs pages p = pages p"
  by (induction qs arbitrary: pages) (auto simp: ZeroCSNLOGPage_kept ZeroCSNLOGPage_some)

lemma BootStrapCSNLOG_extended: "extended (BootStrapCSNLOG env log)"
  by (auto simp: extended_def BootStrapCSNLOG_def BATCH_SIZE_def fold_zero_some simp del: not_None_eq)

text \<open>
  C40. Extension for a new transaction id that is not behind the global xmin always succeeds,
  keeps every page of the extended range, provides the page of the new id, and leaves the
  pages in memory as they are.
\<close>

theorem extend_provides_page:
  assumes "extended log" "TransactionIdIsValid newestXact"
    and "startExtendCSNLogpage log \<le> TransactionIdToCSNPage newestXact"
    and "sn_recent_global_xmin env \<le> newestXact"
  shows "\<exists>log'. ExtendCSNLOG env newestXact log = Inr log' \<and> extended log' \<and>
     csn_slru log' (TransactionIdToCSNPage newestXact) \<noteq> None \<and>
     (\<forall>p. csn_slru log p \<noteq> None \<and> page_in_memory env p \<longrightarrow> csn_slru log' p = csn_slru log p)"
proof -
  let ?page = "TransactionIdToCSNPage newestXact" and ?last = "lastExtendCSNLogpage log"
  have guard: "\<not> ?page < startExtendCSNLogpage log" using assms(3) by simp
  show ?thesis
  proof (cases "(?last + 1) * CSNLOG_XACTS_PER_PAGE - 1 < unat newestXact")
    case False
    have "0 < CSNLOG_XACTS_PER_PAGE" by (simp add: CSNLOG_XACTS_PER_PAGE_def BLCKSZ_def)
    then have "unat newestXact < (?last + 1) * CSNLOG_XACTS_PER_PAGE" using False by (cases "(?last + 1) * CSNLOG_XACTS_PER_PAGE") auto
    then have "?page \<le> ?last" unfolding TransactionIdToCSNPage_def
      using less_mult_imp_div_less [of "unat newestXact" "?last + 1" CSNLOG_XACTS_PER_PAGE] by simp
    then show ?thesis using False assms guard by (auto simp: ExtendCSNLOG_def Let_def extended_def)
  next
    case True
    have K: "CSNLOG_XACTS_PER_PAGE = 1024" by (simp add: CSNLOG_XACTS_PER_PAGE_def BLCKSZ_def)
    have lp: "?last < ?page" using True unfolding TransactionIdToCSNPage_def K by simp
    have xm: "TransactionIdToCSNPage (sn_recent_global_xmin env) \<le> ?page"
      using assms(4) unfolding TransactionIdToCSNPage_def by (simp add: word_le_nat_alt div_le_mono)
    obtain l log1 where x: "extend_from_xmin env ?last log = (l, log1)" by fastforce
    define new where "new = (?page + BATCH_SIZE) div BATCH_SIZE * BATCH_SIZE"
    have new: "?page < new" by (simp add: new_def BATCH_SIZE_def)
    have l: "l \<le> ?page" "?last \<le> l" "\<And>p. startExtendCSNLogpage log1 \<le> p \<Longrightarrow> p \<le> l \<Longrightarrow> csn_slru log1 p \<noteq> None"
      "startExtendCSNLogpage log1 \<le> ?page"
      "\<And>p. csn_slru log p \<noteq> None \<Longrightarrow> page_in_memory env p \<Longrightarrow> csn_slru log1 p = csn_slru log p"
      using x lp xm assms(1,3)
      by (auto simp: extend_from_xmin_def Let_def extended_def ZeroCSNLOGPage_some ZeroCSNLOGPage_kept
          simp del: not_None_eq split: if_splits)
    let ?log' = "log1\<lparr>csn_slru := fold (ZeroCSNLOGPage env) [l + 1..<new] (csn_slru log1), lastExtendCSNLogpage := new - 1\<rparr>"
    have run: "ExtendCSNLOG env newestXact log = Inr ?log'"
      using True assms(2) guard x l(1) new by (simp add: ExtendCSNLOG_def Let_def new_def [symmetric])
    have ext: "csn_slru ?log' p \<noteq> None" if "startExtendCSNLogpage log1 \<le> p" "p < new" for p
      using l(3) [OF that(1)] that(2) by (cases "p \<le> l") (auto simp: fold_zero_some simp del: not_None_eq)
    have "extended ?log'" using ext new by (simp add: extended_def)
    moreover have "csn_slru ?log' ?page \<noteq> None" by (rule ext [OF l(4) new])
    moreover have "csn_slru ?log' p = csn_slru log p" if "csn_slru log p \<noteq> None" "page_in_memory env p" for p
      using l(5) [OF that] that by (simp add: fold_zero_kept)
    ultimately show ?thesis using run by blast
  qed
qed

theorem extend_provides_page_witness:
  "\<exists>log'. ExtendCSNLOG csn_demo_env 40000 (blank_csnlog 1) = Inr log' \<and>
     csn_slru log' (TransactionIdToCSNPage 40000) \<noteq> None"
proof -
  have "extended (blank_csnlog 1)" by (simp add: extended_def blank_csnlog_def)
  then show ?thesis
    using extend_provides_page [of "blank_csnlog 1" 40000 csn_demo_env]
    by (auto simp: blank_csnlog_def csn_demo_env_def TransactionIdIsValid_def special_xids)
qed

end
