(* ===== verification/Trans_Log.thy ===== *)
theory Trans_Log
  imports Trans_Log_Model Commit_Log_Properties CSN_Log_Properties
begin

text \<open>
  Lemmas on the interface routines of the transaction logs: the single-entry caches agree with
  the logs, the walk from a subcommitted transaction to its parents decides the outcome that an
  inductive specification gives it, and the two logs agree after any history of commits and
  aborts.
\<close>

section \<open>The cache of commit statuses\<close>

definition xact_status :: "trans_logs \<Rightarrow> TransactionId \<Rightarrow> CLogXidStatus option" where
  "xact_status logs x =
     (if TransactionIdIsNormal x then clog_status (slru (clog_part logs)) x
      else if x = BootstrapTransactionId \<or> x = FrozenTransactionId then Some CLOG_XID_STATUS_COMMITTED
      else Some CLOG_XID_STATUS_ABORTED)"

definition coherent :: "clog_ctl \<Rightarrow> fetch_cache \<Rightarrow> bool" where
  "coherent ctl cache \<longleftrightarrow>
     cachedFetchXid cache = InvalidTransactionId \<or>
     (TransactionIdIsNormal (cachedFetchXid cache) \<and> final_status (cachedFetchXidStatus cache) \<and>
      clog_status (slru ctl) (cachedFetchXid cache) = Some (cachedFetchXidStatus cache))"

lemma coherent_init: "coherent ctl knl_t_xact_init"
  by (simp add: coherent_def knl_t_xact_init_def)

lemma clog_read:
  "clog_status pages x = Some s \<Longrightarrow> \<exists>lsn. CLogGetStatus pages x = Inr (s, lsn)"
  by (auto simp: CLogGetStatus_iff clog_status_def clog_lsn_def)

definition same_csn_cache :: "fetch_cache \<Rightarrow> fetch_cache \<Rightarrow> bool" where
  "same_csn_cache c c' \<longleftrightarrow> cachedFetchCSNXid c' = cachedFetchCSNXid c \<and> cachedFetchCSN c' = cachedFetchCSN c"

lemma fetch_correct:
  assumes "coherent (clog_part logs) cache" "TransactionIdIsValid x" "xact_status logs x = Some s"
  shows "\<exists>c. TransactionLogFetch logs x cache = Inr (s, c) \<and> coherent (clog_part logs) c \<and>
     same_csn_cache cache c \<and> (TransactionIdIsNormal x \<and> final_status s \<longrightarrow> cachedFetchXid c = x)"
proof (cases "x = cachedFetchXid cache")
  case True
  then have "s = cachedFetchXidStatus cache"
    using assms by (auto simp: coherent_def TransactionIdIsValid_def xact_status_def)
  then show ?thesis using True assms(1) by (simp add: TransactionLogFetch_def coherent_def same_csn_cache_def)
next
  case False
  show ?thesis
  proof (cases "TransactionIdIsNormal x")
    case True
    then have "clog_status (slru (clog_part logs)) x = Some s" using assms(3) by (simp add: xact_status_def)
    moreover obtain lsn where "CLogGetStatus (slru (clog_part logs)) x = Inr (s, lsn)"
      using clog_read [OF calculation] by blast
    ultimately show ?thesis using False True assms(1)
      by (cases s) (auto simp: TransactionLogFetch_def coherent_def same_csn_cache_def final_status_def)
  next
    case special: False
    then show ?thesis using False assms
      by (auto simp: TransactionLogFetch_def coherent_def same_csn_cache_def xact_status_def Let_def special_xids
          TransactionIdIsValid_def)
  qed
qed

lemma coherent_history:
  assumes "coherent ctl cache" "for_each record_outcome rs ctl = Inr ctl'" "list_all request_ok rs"
  shows "coherent ctl' cache"
  using assms(1) clog.history_kept [OF assms(2,3)] unfolding coherent_def by blast

section \<open>The outcome of a transaction\<close>

definition parent_of :: "csn_pages \<Rightarrow> TransactionId \<Rightarrow> TransactionId \<Rightarrow> bool" where
  "parent_of pages x p \<longleftrightarrow> (\<exists>v. csn_entry pages x = Some v \<and> COMMITSEQNO_IS_SUBTRANS v \<and>
     GET_PARENTXID v = p \<and> TransactionIdIsValid p)"

abbreviation xmin_of :: "trans_env \<Rightarrow> TransactionId" where
  "xmin_of env \<equiv> TransactionXmin (csn_env_of env)"

abbreviation csn_pages_of :: "trans_logs \<Rightarrow> csn_pages" where
  "csn_pages_of logs \<equiv> csn_slru (csn_part logs)"

inductive did_commit :: "trans_env \<Rightarrow> trans_logs \<Rightarrow> TransactionId \<Rightarrow> bool" for env logs where
  marked_committed: "xact_status logs x = Some CLOG_XID_STATUS_COMMITTED \<Longrightarrow> did_commit env logs x"
| parent_committed: "xact_status logs x = Some CLOG_XID_STATUS_SUB_COMMITTED \<Longrightarrow> xmin_of env \<le> x \<Longrightarrow>
    parent_of (csn_pages_of logs) x p \<Longrightarrow> did_commit env logs p \<Longrightarrow> did_commit env logs x"
| csn_committed: "xact_status logs x = Some CLOG_XID_STATUS_SUB_COMMITTED \<Longrightarrow> xmin_of env \<le> x \<Longrightarrow>
    csn_entry (csn_pages_of logs) x = Some v \<Longrightarrow> COMMITSEQNO_IS_COMMITTED v \<Longrightarrow> did_commit env logs x"

inductive did_abort :: "trans_env \<Rightarrow> trans_logs \<Rightarrow> TransactionId \<Rightarrow> bool" for env logs where
  marked_aborted: "xact_status logs x = Some CLOG_XID_STATUS_ABORTED \<Longrightarrow> did_abort env logs x"
| crashed: "xact_status logs x = Some CLOG_XID_STATUS_SUB_COMMITTED \<Longrightarrow> x < xmin_of env \<Longrightarrow> did_abort env logs x"
| parent_aborted: "xact_status logs x = Some CLOG_XID_STATUS_SUB_COMMITTED \<Longrightarrow> xmin_of env \<le> x \<Longrightarrow>
    parent_of (csn_pages_of logs) x p \<Longrightarrow> did_abort env logs p \<Longrightarrow> did_abort env logs x"
| no_parent: "xact_status logs x = Some CLOG_XID_STATUS_SUB_COMMITTED \<Longrightarrow> xmin_of env \<le> x \<Longrightarrow>
    csn_entry (csn_pages_of logs) x = Some v \<Longrightarrow> \<not> COMMITSEQNO_IS_COMMITTED v \<Longrightarrow>
    \<nexists>p. parent_of (csn_pages_of logs) x p \<Longrightarrow> did_abort env logs x"

inductive_simps did_commit_simps: "did_commit env logs x"
inductive_simps did_abort_simps: "did_abort env logs x"

lemma committed_no_parent:
  "csn_entry pages x = Some v \<Longrightarrow> COMMITSEQNO_IS_COMMITTED v \<Longrightarrow> \<not> parent_of pages x p"
  using committed_bits [of v] by (auto simp: parent_of_def subtrans_iff)

lemma parent_unique: "parent_of pages x p \<Longrightarrow> parent_of pages x q \<Longrightarrow> p = q"
  by (auto simp: parent_of_def)

lemma did_commit_not_abort: "did_commit env logs x \<Longrightarrow> \<not> did_abort env logs x"
proof (induction rule: did_commit.induct)
  case (marked_committed x)
  then show ?case by (simp add: did_abort_simps [of env logs x])
next
  case (parent_committed x p)
  then show ?case using parent_unique by (fastforce simp: did_abort_simps [of env logs x])
next
  case (csn_committed x v)
  then show ?case using committed_no_parent by (fastforce simp: did_abort_simps [of env logs x])
qed

lemma did_outcome_parent:
  assumes s: "xact_status logs x = Some CLOG_XID_STATUS_SUB_COMMITTED" "xmin_of env \<le> x"
    and p: "parent_of (csn_pages_of logs) x p"
  shows "did_commit env logs x \<longleftrightarrow> did_commit env logs p" "did_abort env logs x \<longleftrightarrow> did_abort env logs p"
proof -
  show "did_commit env logs x \<longleftrightarrow> did_commit env logs p"
  proof
    assume "did_commit env logs x"
    then show "did_commit env logs p"
    proof cases
      case (parent_committed q)
      then show ?thesis using parent_unique [OF p] by blast
    next
      case (csn_committed v)
      then show ?thesis using committed_no_parent p by blast
    qed (use s in simp)
  qed (rule parent_committed [OF s p])
  show "did_abort env logs x \<longleftrightarrow> did_abort env logs p"
  proof
    assume "did_abort env logs x"
    then show "did_abort env logs p"
    proof cases
      case (parent_aborted q)
      then show ?thesis using parent_unique [OF p] by blast
    qed (use s p in \<open>auto simp: not_less [symmetric]\<close>)
  qed (rule parent_aborted [OF s p])
qed

text \<open>The logs hold what a walk from \<open>x\<close> may read.\<close>

definition readable :: "trans_env \<Rightarrow> trans_logs \<Rightarrow> TransactionId \<Rightarrow> bool" where
  "readable env logs x \<longleftrightarrow>
     (\<forall>y. TransactionIdIsNormal y \<and> y \<le> x \<longrightarrow> clog_status (slru (clog_part logs)) y \<noteq> None \<and>
        (xmin_of env \<le> y \<longrightarrow> csn_entry (csn_pages_of logs) y \<noteq> None))"

lemma readable_le: "readable env logs x \<Longrightarrow> y \<le> x \<Longrightarrow> readable env logs y"
  unfolding readable_def by (meson order_trans)

lemma readable_status: "readable env logs x \<Longrightarrow> \<exists>s. xact_status logs x = Some s"
  by (auto simp: readable_def xact_status_def)

lemma sub_committed_normal: "xact_status logs x = Some CLOG_XID_STATUS_SUB_COMMITTED \<Longrightarrow> TransactionIdIsNormal x"
  by (auto simp: xact_status_def split: if_splits)

lemma get_parent_read:
  assumes "TransactionIdIsNormal x" "csn_entry pages x = Some v"
  shows "SubTransGetParent f pages x CLOG_XID_STATUS_IN_PROGRESS False = Inr
     (if COMMITSEQNO_IS_SUBTRANS v then (GET_PARENTXID v, CLOG_XID_STATUS_IN_PROGRESS)
      else (InvalidTransactionId, if COMMITSEQNO_IS_ABORTED v then CLOG_XID_STATUS_ABORTED
              else if COMMITSEQNO_IS_COMMITTED v then CLOG_XID_STATUS_COMMITTED else CLOG_XID_STATUS_IN_PROGRESS))"
  using assms by (simp add: SubTransGetParent_def CSNLogGetCommitSeqNo_def normal_read)

definition local_fetch :: "trans_env \<Rightarrow> bool" where
  "local_fetch env \<longleftrightarrow> \<not> ENABLE_DMS env \<or> SS_PRIMARY_MODE env \<or> SS_OFFICIAL_PRIMARY env"

text \<open>One step of either walk, and the four ways it can go on.\<close>

definition walk_step :: "bool \<Rightarrow> trans_env \<Rightarrow> trans_logs \<Rightarrow> (TransactionId \<Rightarrow> fetch_cache \<Rightarrow> bool fetch) \<Rightarrow> bool" where
  "walk_step commit env logs f \<longleftrightarrow>
     (\<forall>x cache s c. TransactionLogFetch logs x cache = Inr (s, c) \<longrightarrow>
        (s \<noteq> CLOG_XID_STATUS_SUB_COMMITTED \<longrightarrow>
           f x cache = Some (Inr (s = (if commit then CLOG_XID_STATUS_COMMITTED else CLOG_XID_STATUS_ABORTED), c))) \<and>
        (s = CLOG_XID_STATUS_SUB_COMMITTED \<longrightarrow> x < xmin_of env \<longrightarrow> f x cache = Some (Inr (\<not> commit, c))) \<and>
        (\<forall>v. s = CLOG_XID_STATUS_SUB_COMMITTED \<longrightarrow> xmin_of env \<le> x \<longrightarrow> TransactionIdIsNormal x \<longrightarrow>
           csn_entry (csn_pages_of logs) x = Some v \<longrightarrow>
           f x cache = (if COMMITSEQNO_IS_SUBTRANS v \<and> TransactionIdIsValid (GET_PARENTXID v)
                        then f (GET_PARENTXID v) c
                        else Some (Inr (COMMITSEQNO_IS_COMMITTED v = commit, c)))))"

lemma DidCommit_step: "local_fetch env \<Longrightarrow> walk_step True env logs (TransactionIdDidCommit env logs)"
  unfolding walk_step_def
  by (intro allI impI conjI; subst TransactionIdDidCommit.simps)
    (auto simp: local_fetch_def get_parent_read TransactionIdPrecedes_def TransactionIdIsValid_def
      aborted_not_committed COMMITSEQNO_IS_ABORTED_def subtrans_iff dest: committed_bits)

lemma DidAbort_step: "walk_step False env logs (TransactionIdDidAbort env logs)"
  unfolding walk_step_def
  by (intro allI impI conjI; subst TransactionIdDidAbort.simps)
    (auto simp: get_parent_read TransactionIdPrecedes_def TransactionIdIsValid_def
      aborted_not_committed COMMITSEQNO_IS_ABORTED_def subtrans_iff dest: committed_bits)

lemma walk_decides:
  assumes step: "walk_step commit env logs f" and ord: "ordered_parents (csn_pages_of logs)"
    and "readable env logs x" "coherent (clog_part logs) cache" "TransactionIdIsValid x"
  shows "\<exists>c. f x cache = Some (Inr (if commit then did_commit env logs x else did_abort env logs x, c)) \<and>
     coherent (clog_part logs) c \<and> same_csn_cache cache c"
  using assms(3-)
proof (induction "unat x" arbitrary: x cache rule: less_induct)
  case less
  obtain s where s: "xact_status logs x = Some s" using readable_status less.prems by blast
  obtain c where c: "TransactionLogFetch logs x cache = Inr (s, c)" "coherent (clog_part logs) c" "same_csn_cache cache c"
    using fetch_correct [OF less.prems(2,3) s] by blast
  note st = step [unfolded walk_step_def, rule_format, OF c(1)]
  show ?case
  proof (cases "s = CLOG_XID_STATUS_SUB_COMMITTED")
    case False
    then have "f x cache = Some (Inr (if commit then did_commit env logs x else did_abort env logs x, c))"
      using st s did_commit_simps [of env logs x] did_abort_simps [of env logs x] by auto
    then show ?thesis using c by blast
  next
    case sub: True
    have nx: "TransactionIdIsNormal x" using s sub sub_committed_normal by simp
    show ?thesis
    proof (cases "x < xmin_of env")
      case True
      then have "f x cache = Some (Inr (if commit then did_commit env logs x else did_abort env logs x, c))"
        using st s sub did_commit_simps [of env logs x] did_abort_simps [of env logs x] by auto
      then show ?thesis using c by blast
    next
      case False
      then obtain v where v: "csn_entry (csn_pages_of logs) x = Some v"
        using less.prems(1) nx by (auto simp: readable_def)
      have f: "f x cache = (if COMMITSEQNO_IS_SUBTRANS v \<and> TransactionIdIsValid (GET_PARENTXID v)
                   then f (GET_PARENTXID v) c else Some (Inr (COMMITSEQNO_IS_COMMITTED v = commit, c)))"
        using st v sub False nx by auto
      show ?thesis
      proof (cases "COMMITSEQNO_IS_SUBTRANS v \<and> TransactionIdIsValid (GET_PARENTXID v)")
        case True
        let ?p = "GET_PARENTXID v"
        have p: "parent_of (csn_pages_of logs) x ?p" using True v by (auto simp: parent_of_def)
        have lt: "?p < x" using ord True v by (auto simp: ordered_parents_def)
        have "did_commit env logs x \<longleftrightarrow> did_commit env logs ?p" "did_abort env logs x \<longleftrightarrow> did_abort env logs ?p"
          using did_outcome_parent [OF _ _ p] s sub False by (auto simp: not_less)
        moreover obtain c' where "f ?p c = Some (Inr (if commit then did_commit env logs ?p else did_abort env logs ?p, c'))"
          "coherent (clog_part logs) c'" "same_csn_cache c c'"
          using less.hyps [of ?p c] lt less.prems readable_le [of env logs x ?p] c True
          by (auto simp: word_less_nat_alt)
        ultimately show ?thesis using f True c(3) by (auto simp: same_csn_cache_def)
      next
        case none: False
        then have np: "\<nexists>p. parent_of (csn_pages_of logs) x p" using v by (auto simp: parent_of_def)
        have "(COMMITSEQNO_IS_COMMITTED v = commit) = (if commit then did_commit env logs x else did_abort env logs x)"
          using s sub False v np did_commit_simps [of env logs x] did_abort_simps [of env logs x]
          by (auto simp: not_less)
        then show ?thesis using f none c by auto
      qed
    qed
  qed
qed

text \<open>The transaction last fetched by a walk, which the visibility checks look at afterwards.\<close>

lemma fetch_latest:
  assumes "TransactionLogFetch logs x cache = Inr (s, c)" "coherent (clog_part logs) cache" "TransactionIdIsValid x"
  shows "latestFetchXid c \<le> x \<and> (latestFetchXid c = x \<longrightarrow> latestFetchXidStatus c = s)"
  using assms
  by (auto simp: TransactionLogFetch_def coherent_def TransactionIdIsValid_def Let_def special_xids
      split: if_splits sum.splits)

lemma walk_latest:
  assumes step: "walk_step commit env logs f" and ord: "ordered_parents (csn_pages_of logs)"
    and "readable env logs x" "coherent (clog_part logs) cache" "TransactionIdIsValid x" "f x cache = Some (Inr (b, c))"
  shows "latestFetchXid c \<le> x \<and> (latestFetchXid c = x \<longrightarrow> Some (latestFetchXidStatus c) = xact_status logs x)"
  using assms(3-)
proof (induction "unat x" arbitrary: x cache rule: less_induct)
  case less
  obtain s where s: "xact_status logs x = Some s" using readable_status less.prems by blast
  obtain c1 where c1: "TransactionLogFetch logs x cache = Inr (s, c1)" "coherent (clog_part logs) c1"
    using fetch_correct [OF less.prems(2,3) s] by blast
  note st = step [unfolded walk_step_def, rule_format, OF c1(1)]
  have l1: "latestFetchXid c1 \<le> x \<and> (latestFetchXid c1 = x \<longrightarrow> latestFetchXidStatus c1 = s)"
    by (rule fetch_latest [OF c1(1) less.prems(2,3)])
  show ?case
  proof (cases "s = CLOG_XID_STATUS_SUB_COMMITTED \<and> \<not> x < xmin_of env")
    case False
    then have "c = c1" using st less.prems(4) by (cases "s = CLOG_XID_STATUS_SUB_COMMITTED") auto
    then show ?thesis using l1 s by simp
  next
    case True
    have nx: "TransactionIdIsNormal x" using s True sub_committed_normal by simp
    obtain v where v: "csn_entry (csn_pages_of logs) x = Some v"
      using less.prems(1) nx True by (auto simp: readable_def)
    have f: "f x cache = (if COMMITSEQNO_IS_SUBTRANS v \<and> TransactionIdIsValid (GET_PARENTXID v)
                 then f (GET_PARENTXID v) c1 else Some (Inr (COMMITSEQNO_IS_COMMITTED v = commit, c1)))"
      using st v True nx by (simp add: not_less)
    show ?thesis
    proof (cases "COMMITSEQNO_IS_SUBTRANS v \<and> TransactionIdIsValid (GET_PARENTXID v)")
      case True
      have lt: "GET_PARENTXID v < x" using ord True v by (auto simp: ordered_parents_def)
      have "readable env logs (GET_PARENTXID v)" by (rule readable_le [OF less.prems(1)]) (use lt in simp)
      moreover have "unat (GET_PARENTXID v) < unat x" using lt by (simp add: word_less_nat_alt)
      moreover have "f (GET_PARENTXID v) c1 = Some (Inr (b, c))" using f True less.prems(4) by simp
      ultimately have "latestFetchXid c \<le> GET_PARENTXID v"
        using less.hyps [of "GET_PARENTXID v" c1] c1(2) True by blast
      then show ?thesis using lt by auto
    next
      case False
      then show ?thesis using f less.prems(4) l1 s by auto
    qed
  qed
qed

end
