(* ===== verification/Trans_History.thy ===== *)
theory Trans_History
  imports Trans_Log
begin

text \<open>
  Histories of the transaction logs: what a sequence of commits, aborts and assignments of
  parents keeps. The interface of finished transactions that the commit log satisfies holds of
  the two logs together, and the CSN log never runs ahead of the commit log.
\<close>

section \<open>The CSN log stores nothing else\<close>

text \<open>
  Whatever page had to be made again on the way: an entry after the update is the value
  stored for a member of the tree, or what it was, or zero on a new page.
\<close>

definition csn_origin :: "CommitSeqNo set \<Rightarrow> TransactionId set \<Rightarrow> csn_pages \<Rightarrow> csn_pages \<Rightarrow> bool" where
  "csn_origin C X pages pages' \<longleftrightarrow>
     (\<forall>x v. csn_entry pages' x = Some v \<longrightarrow> (v \<in> C \<and> x \<in> X) \<or> csn_entry pages x = Some v \<or> v = 0)"

lemma csn_origin_refl [simp]: "csn_origin C X pages pages"
  by (simp add: csn_origin_def)

lemma csn_origin_trans:
  "csn_origin C X p q \<Longrightarrow> csn_origin C X q r \<Longrightarrow> csn_origin C X p r"
  unfolding csn_origin_def by meson

lemma csn_origin_mono: "csn_origin C X p q \<Longrightarrow> C \<subseteq> C' \<Longrightarrow> X \<subseteq> X' \<Longrightarrow> csn_origin C' X' p q"
  unfolding csn_origin_def by (meson subsetD)

lemma CSNLogSetCSN_origin:
  "CSNLogSetCSN csn x page = Inr page' \<Longrightarrow>
   page' i = page i \<or> (i = TransactionIdToCSNPgIndex x \<and> page' i = csn)"
  by (auto simp: CSNLogSetCSN_def Let_def split: if_splits)

lemma for_each_csn_origin:
  "for_each (CSNLogSetCSN csn) xs page = Inr page' \<Longrightarrow>
   page' i = page i \<or> (\<exists>x \<in> set xs. i = TransactionIdToCSNPgIndex x \<and> page' i = csn)"
proof (induction xs arbitrary: page)
  case (Cons x xs)
  then obtain q where q: "CSNLogSetCSN csn x page = Inr q" "for_each (CSNLogSetCSN csn) xs q = Inr page'"
    by (auto simp: result_bind_Inr_iff)
  show ?case using Cons.IH [OF q(2)] CSNLogSetCSN_origin [OF q(1), of i] by auto
qed simp

lemma read_for_update_origin:
  "read_for_update env pageno pages = Inr (page, pages') \<Longrightarrow>
   pages' pageno = Some page \<and> csn_origin C X pages pages'"
  by (auto simp: read_for_update_def Let_def ZeroCSNLOGPage_def csn_origin_def csn_entry_def split: option.splits if_splits)

lemma CSNLogSetPageStatus_origin:
  assumes run: "CSNLogSetPageStatus env xid xs csn pageno topx log = Inr log'"
    and on: "\<forall>x \<in> set xs. TransactionIdToCSNPage x = pageno" "TransactionIdIsValid xid \<longrightarrow> TransactionIdToCSNPage xid = pageno"
  shows "csn_origin {csn, sub_csn csn topx} ({x. x = xid \<and> TransactionIdIsValid x} \<union> set xs) (csn_slru log) (csn_slru log')"
proof (cases "DMS_STANDBY env")
  case True
  then show ?thesis using run by (simp add: CSNLogSetPageStatus_def)
next
  case False
  let ?C = "{csn, sub_csn csn topx}" and ?X = "{x. x = xid \<and> TransactionIdIsValid x} \<union> set xs"
  obtain p0 pages p1 p2 where p0: "read_for_update env pageno (csn_slru log) = Inr (p0, pages)"
    and p1: "(if TransactionIdIsValid xid then CSNLogSetCSN csn xid p0 else Inr p0) = Inr p1"
    and p2: "for_each (CSNLogSetCSN (sub_csn csn topx)) xs p1 = Inr p2"
    and l: "csn_slru log' = pages(pageno \<mapsto> p2)"
    using run False by (auto simp: CSNLogSetPageStatus_def result_bind_Inr_iff Let_def)
  note r = read_for_update_origin [OF p0, of ?C ?X]
  have "(v \<in> ?C \<and> x \<in> ?X) \<or> csn_entry pages x = Some v"
    if e: "csn_entry (pages(pageno \<mapsto> p2)) x = Some v" for x v
  proof (cases "TransactionIdToCSNPage x = pageno")
    case True
    let ?i = "TransactionIdToCSNPgIndex x"
    have v: "v = p2 ?i" using e True by (simp add: csn_entry_def)
    have "p2 ?i = p1 ?i \<or> (\<exists>y \<in> set xs. ?i = TransactionIdToCSNPgIndex y \<and> p2 ?i = sub_csn csn topx)"
      using for_each_csn_origin [OF p2] .
    moreover have "y = x" if "y \<in> set xs" "?i = TransactionIdToCSNPgIndex y" for y
      using same_csn_entry [of y x] on(1) that True by simp
    moreover have "p1 ?i = p0 ?i \<or> (x = xid \<and> TransactionIdIsValid x \<and> p1 ?i = csn)"
    proof (cases "TransactionIdIsValid xid")
      case valid: True
      then show ?thesis using CSNLogSetCSN_origin [of csn xid p0 p1 ?i] p1 on(2) same_csn_entry [of xid x] True by auto
    qed (use p1 in simp)
    ultimately show ?thesis using v r True by (auto simp: csn_entry_def)
  next
    case False
    then show ?thesis using e by (simp add: csn_entry_def)
  qed
  then have "csn_origin ?C ?X pages (csn_slru log')" unfolding csn_origin_def l by blast
  then show ?thesis using r csn_origin_trans by blast
qed

lemma set_csn_loop_origin:
  "set_csn_loop env csn topx xid pageno xs log = Inr log' \<Longrightarrow>
   (TransactionIdIsValid xid \<longrightarrow> TransactionIdToCSNPage xid = pageno) \<Longrightarrow>
   csn_origin {csn, sub_csn csn topx} ({x. x = xid \<and> TransactionIdIsValid x} \<union> set xs) (csn_slru log) (csn_slru log')"
proof (induction env csn topx xid pageno xs log rule: set_csn_loop.induct)
  case (1 env csn topx xid pageno xs log)
  define n where "n = num_on_csn_page pageno xs"
  obtain l1 where l1: "CSNLogSetPageStatus env xid (take n xs) csn pageno topx log = Inr l1"
    and rest: "(if drop n xs = [] then Inr l1
         else set_csn_loop env csn topx InvalidTransactionId
                (TransactionIdToCSNPage (hd (drop n xs))) (drop n xs) l1) = Inr log'"
    using 1(2) unfolding set_csn_loop.simps [of env csn topx xid pageno xs log] Let_def n_def [symmetric]
    by (auto simp: result_bind_Inr_iff)
  let ?X = "{x. x = xid \<and> TransactionIdIsValid x} \<union> set xs"
  have "csn_origin {csn, sub_csn csn topx} ({x. x = xid \<and> TransactionIdIsValid x} \<union> set (take n xs)) (csn_slru log) (csn_slru l1)"
    by (rule CSNLogSetPageStatus_origin [OF l1]) (use num_on_csn_page_take 1(3) in \<open>auto simp: n_def\<close>)
  then have a: "csn_origin {csn, sub_csn csn topx} ?X (csn_slru log) (csn_slru l1)"
    by (rule csn_origin_mono) (auto dest: in_set_takeD)
  show ?case
  proof (cases "drop n xs = []")
    case True
    then show ?thesis using a rest by simp
  next
    case False
    have "csn_origin {csn, sub_csn csn topx}
        ({x. x = InvalidTransactionId \<and> TransactionIdIsValid x} \<union> set (drop n xs)) (csn_slru l1) (csn_slru log')"
      by (rule 1(1) [OF n_def]) (use False rest in \<open>auto simp: TransactionIdIsValid_def\<close>)
    then have "csn_origin {csn, sub_csn csn topx} ?X (csn_slru l1) (csn_slru log')"
      by (rule csn_origin_mono) (auto simp: TransactionIdIsValid_def dest: in_set_dropD)
    then show ?thesis using a csn_origin_trans by blast
  qed
qed

lemma CSNLogSetCommitSeqNo_origin:
  assumes "CSNLogSetCommitSeqNo env xid xs csn log = Inr log'" "csn \<noteq> InvalidCommitSeqNo" "TransactionIdIsNormal xid"
  shows "csn_origin {csn, sub_csn csn xid} (set (xid # xs)) (csn_slru log) (csn_slru log')"
proof -
  have x: "(csn = InvalidCommitSeqNo \<or> xid = BootstrapTransactionId) = False"
    using normal_valid [OF assms(3)] assms(2) by simp
  show ?thesis
  proof (cases "(useLocalSnapshot env \<or> IsRoachStandbyCluster env) \<and> csn \<le> COMMITSEQNO_ABORTED")
    case True
    then show ?thesis using assms(1) by (simp add: CSNLogSetCommitSeqNo_def)
  next
    case False
    then obtain l where 2: "set_csn_loop env csn xid xid (TransactionIdToCSNPage xid) xs log = Inr l" "csn_slru log' = csn_slru l"
      using assms(1) unfolding CSNLogSetCommitSeqNo_def x Let_def by (auto simp: result_bind_Inr_iff simp del: set_csn_loop.simps)
    show ?thesis using set_csn_loop_origin [OF 2(1)] 2(2) by (auto elim: csn_origin_mono)
  qed
qed

lemma SubTransSetParent_origin:
  "SubTransSetParent env x parent log = Inr log' \<Longrightarrow>
   csn_origin {COMMITSEQNO_SUBTRANS_BIT OR parent} {x} (csn_slru log) (csn_slru log')"
  using same_csn_entry [of _ x]
  by (auto simp: SubTransSetParent_def Let_def csn_origin_def csn_entry_def split: if_splits option.splits)

section \<open>Operations on the two logs\<close>

text \<open>
  The operations transactions perform: assign a parent to a subtransaction, mark a tree as
  committing, commit and abort it. Each is made by some thread in some environment.
\<close>

datatype trans_op =
    Set_parent trans_env TransactionId TransactionId
  | Mark_committing trans_env TransactionId "TransactionId list" CommitSeqNo
  | Commit_tree trans_env TransactionId "TransactionId list" XLogRecPtr CommitSeqNo
  | Abort_tree trans_env TransactionId "TransactionId list"

fun run_op :: "trans_op \<Rightarrow> trans_logs \<Rightarrow> trans_error + trans_logs" where
  "run_op (Set_parent env x parent) logs =
     (case SubTransSetParent (csn_env_of env) x parent (csn_part logs) of
        Inl e \<Rightarrow> Inl (Csn_error e) | Inr log \<Rightarrow> Inr (logs\<lparr>csn_part := log\<rparr>))"
| "run_op (Mark_committing env xid xs csn) logs =
     set_csnlog env xid xs (COMMITSEQNO_COMMIT_INPROGRESS OR csn) logs"
| "run_op (Commit_tree env xid xs lsn csn) logs = TransactionIdAsyncCommitTree env xid xs lsn csn logs"
| "run_op (Abort_tree env xid xs) logs = TransactionIdAbortTree env xid xs logs"

fun op_tree :: "trans_op \<Rightarrow> TransactionId set" where
  "op_tree (Commit_tree env xid xs lsn csn) = set (xid # xs)"
| "op_tree (Abort_tree env xid xs) = set (xid # xs)"
| "op_tree _ = {}"

fun op_outcome :: "trans_op \<Rightarrow> CLogXidStatus" where
  "op_outcome (Abort_tree env xid xs) = CLOG_XID_STATUS_ABORTED"
| "op_outcome _ = CLOG_XID_STATUS_COMMITTED"

definition tree_request :: "trans_env \<Rightarrow> TransactionId \<Rightarrow> TransactionId list \<Rightarrow> CLogXidStatus \<Rightarrow> XLogRecPtr \<Rightarrow> finish_request" where
  "tree_request env xid xs st lsn =
     \<lparr>req_env = clog_env_of env, req_xid = xid, req_subxids = xs, req_status = st, req_lsn = lsn\<rparr>"

text \<open>
  The operations as the server makes them: normal transactions, outcomes through the commit log
  requests above, and a committed sequence number; during recovery it may be missing.
\<close>

fun op_ok :: "trans_op \<Rightarrow> bool" where
  "op_ok (Set_parent env x parent) \<longleftrightarrow> True"
| "op_ok (Mark_committing env xid xs csn) \<longleftrightarrow> TransactionIdIsNormal xid"
| "op_ok (Commit_tree env xid xs lsn csn) \<longleftrightarrow>
     TransactionIdIsNormal xid \<and> request_ok (tree_request env xid xs CLOG_XID_STATUS_COMMITTED lsn) \<and>
     (if RecoveryInProgress (csn_env_of env) then csn = 0 \<or> COMMITSEQNO_IS_COMMITTED csn
      else COMMITSEQNO_IS_COMMITTED (csn AND NOT COMMITSEQNO_COMMIT_INPROGRESS))"
| "op_ok (Abort_tree env xid xs) \<longleftrightarrow>
     TransactionIdIsNormal xid \<and> request_ok (tree_request env xid xs CLOG_XID_STATUS_ABORTED 0)"

definition logs_status :: "trans_logs \<Rightarrow> TransactionId \<Rightarrow> CLogXidStatus option" where
  "logs_status logs = clog_status (slru (clog_part logs))"

lemma set_clog_Inr:
  "set_clog env xid xs st lsn logs = Inr logs' \<longleftrightarrow>
   (\<exists>ctl. record_outcome (tree_request env xid xs st lsn) (clog_part logs) = Inr ctl \<and> logs' = logs\<lparr>clog_part := ctl\<rparr>)"
  by (auto simp: set_clog_def record_outcome_def tree_request_def split: sum.splits)

lemma set_csnlog_Inr:
  "set_csnlog env xid xs csn logs = Inr logs' \<longleftrightarrow>
   (\<exists>log. CSNLogSetCommitSeqNo (csn_env_of env) xid xs csn (csn_part logs) = Inr log \<and> logs' = logs\<lparr>csn_part := log\<rparr>)"
  by (auto simp: set_csnlog_def split: sum.splits)

text \<open>A finished tree: the commit log first, then the sequence number that is stored, if any.\<close>

definition stored_csn :: "trans_env \<Rightarrow> CommitSeqNo \<Rightarrow> CommitSeqNo" where
  "stored_csn env csn =
     (if RecoveryInProgress (csn_env_of env) then csn else csn AND NOT COMMITSEQNO_COMMIT_INPROGRESS)"

lemma commit_stages:
  assumes "TransactionIdIsNormal xid"
  shows "TransactionIdAsyncCommitTree env xid xs lsn csn logs =
     result_bind (set_clog env xid xs CLOG_XID_STATUS_COMMITTED lsn logs) (\<lambda>logs.
       if RecoveryInProgress (csn_env_of env) \<and> csn = 0 then Inr logs
       else set_csnlog env xid xs (stored_csn env csn) logs)"
  using assms word_neq_0_conv [of csn]
  unfolding TransactionIdAsyncCommitTree_def UpdateCSNLogAtTransactionEND_def stored_csn_def
  by (intro arg_cong2 [where f=result_bind] refl ext) auto

lemma commit_Inr:
  assumes "TransactionIdIsNormal xid" "TransactionIdAsyncCommitTree env xid xs lsn csn logs = Inr logs'"
  shows "record_outcome (tree_request env xid xs CLOG_XID_STATUS_COMMITTED lsn) (clog_part logs) = Inr (clog_part logs')"
    and "if RecoveryInProgress (csn_env_of env) \<and> csn = 0 then csn_part logs' = csn_part logs
      else CSNLogSetCommitSeqNo (csn_env_of env) xid xs (stored_csn env csn) (csn_part logs) = Inr (csn_part logs')"
proof -
  obtain l1 where l1: "set_clog env xid xs CLOG_XID_STATUS_COMMITTED lsn logs = Inr l1"
    and rest: "(if RecoveryInProgress (csn_env_of env) \<and> csn = 0 then Inr l1
       else set_csnlog env xid xs (stored_csn env csn) l1) = Inr logs'"
    using assms(2) unfolding commit_stages [OF assms(1)] result_bind_Inr_iff by blast
  show "record_outcome (tree_request env xid xs CLOG_XID_STATUS_COMMITTED lsn) (clog_part logs) = Inr (clog_part logs')"
    using l1 rest by (cases "RecoveryInProgress (csn_env_of env) \<and> csn = 0") (auto simp: set_clog_Inr set_csnlog_Inr)
  show "if RecoveryInProgress (csn_env_of env) \<and> csn = 0 then csn_part logs' = csn_part logs
      else CSNLogSetCommitSeqNo (csn_env_of env) xid xs (stored_csn env csn) (csn_part logs) = Inr (csn_part logs')"
    using l1 rest by (cases "RecoveryInProgress (csn_env_of env) \<and> csn = 0") (auto simp: set_clog_Inr set_csnlog_Inr)
qed

lemma abort_Inr:
  assumes "TransactionIdAbortTree env xid xs logs = Inr logs'"
  shows "record_outcome (tree_request env xid xs CLOG_XID_STATUS_ABORTED 0) (clog_part logs) = Inr (clog_part logs')"
    and "CSNLogSetCommitSeqNo (csn_env_of env) xid xs COMMITSEQNO_ABORTED (csn_part logs) = Inr (csn_part logs')"
  using assms by (auto simp: TransactionIdAbortTree_def result_bind_Inr_iff set_clog_Inr set_csnlog_Inr)

lemma run_op_clog:
  assumes "run_op op logs = Inr logs'" "op_ok op"
  shows "(op_tree op = {} \<and> clog_part logs' = clog_part logs) \<or>
     (\<exists>r. request_ok r \<and> request_tree r = op_tree op \<and> req_status r = op_outcome op \<and>
        record_outcome r (clog_part logs) = Inr (clog_part logs'))"
proof (cases op)
  case (Commit_tree env xid xs lsn csn)
  let ?r = "tree_request env xid xs CLOG_XID_STATUS_COMMITTED lsn"
  have "record_outcome ?r (clog_part logs) = Inr (clog_part logs')"
    using assms Commit_tree commit_Inr(1) by simp
  then show ?thesis using assms Commit_tree
    by (intro disjI2 exI [of _ ?r]) (auto simp: tree_request_def request_tree_def)
next
  case (Abort_tree env xid xs)
  let ?r = "tree_request env xid xs CLOG_XID_STATUS_ABORTED 0"
  have "record_outcome ?r (clog_part logs) = Inr (clog_part logs')"
    using assms Abort_tree abort_Inr(1) by simp
  then show ?thesis using assms Abort_tree
    by (intro disjI2 exI [of _ ?r]) (auto simp: tree_request_def request_tree_def)
qed (use assms in \<open>auto simp: set_csnlog_Inr split: sum.splits\<close>)

text \<open>The interface of the commit log, now for the two logs together.\<close>

interpretation trans: status_log op_ok op_tree op_outcome logs_status run_op
proof unfold_locales
  show "final_status (op_outcome op)" if "op_ok op" for op
    by (cases op) (simp_all add: final_status_def)
  show "logs_status logs' x = Some (op_outcome op)"
    if "run_op op logs = Inr logs'" "op_ok op" "x \<in> op_tree op" "logs_status logs x \<noteq> None" for op logs logs' x
    using run_op_clog [OF that(1,2)] that(3,4) clog.finish_sets unfolding logs_status_def by fastforce
  show "logs_status logs' x = Some f"
    if "run_op op logs = Inr logs'" "op_ok op" "final_status f" "logs_status logs x = Some f" for op logs logs' x f
    using run_op_clog [OF that(1,2)] that(3,4) clog.finish_kept unfolding logs_status_def by fastforce
  show "(logs_status logs' x = None) = (logs_status logs x = None)"
    if "run_op op logs = Inr logs'" "op_ok op" for op logs logs' x
    using run_op_clog [OF that] clog.finish_known unfolding logs_status_def by fastforce
qed

section \<open>The CSN log never runs ahead\<close>

definition logs_agree :: "trans_logs \<Rightarrow> bool" where
  "logs_agree logs \<longleftrightarrow>
     (\<forall>x v. csn_entry (csn_pages_of logs) x = Some v \<longrightarrow>
        (COMMITSEQNO_IS_COMMITTED v \<longrightarrow> logs_status logs x = Some CLOG_XID_STATUS_COMMITTED) \<and>
        (COMMITSEQNO_IS_ABORTED v \<longrightarrow> logs_status logs x = Some CLOG_XID_STATUS_ABORTED))"

text \<open>Where a final sequence number can come from.\<close>

definition csn_final_for :: "CLogXidStatus \<Rightarrow> CommitSeqNo \<Rightarrow> bool" where
  "csn_final_for st v \<longleftrightarrow>
     (COMMITSEQNO_IS_COMMITTED v \<and> st = CLOG_XID_STATUS_COMMITTED) \<or>
     (COMMITSEQNO_IS_ABORTED v \<and> st = CLOG_XID_STATUS_ABORTED)"

lemma csn_final_for_final: "csn_final_for st v \<Longrightarrow> final_status st"
  by (auto simp: csn_final_for_def final_status_def)

lemma logs_agree_alt:
  "logs_agree logs \<longleftrightarrow> (\<forall>x v st. csn_entry (csn_pages_of logs) x = Some v \<longrightarrow> csn_final_for st v \<longrightarrow>
     logs_status logs x = Some st)"
  unfolding logs_agree_def csn_final_for_def by blast

lemma zero_not_final: "\<not> csn_final_for st 0"
  by (simp add: csn_final_for_def COMMITSEQNO_IS_COMMITTED_def COMMITSEQNO_IS_ABORTED_def csn_constants
      word_le_nat_alt)

lemma link_not_final: "bit v 62 \<or> bit v 63 \<Longrightarrow> \<not> csn_final_for st v"
  using committed_bits [of v] by (auto simp: csn_final_for_def COMMITSEQNO_IS_ABORTED_def COMMITSEQNO_ABORTED_def)

lemma sub_csn_aborted: "sub_csn COMMITSEQNO_ABORTED t = COMMITSEQNO_ABORTED"
  using committing_iff [of COMMITSEQNO_ABORTED]
  by (simp add: sub_csn_def COMMITSEQNO_IS_COMMITTING_def COMMITSEQNO_ABORTED_def)

lemma run_op_origin:
  assumes "run_op op logs = Inr logs'" "op_ok op"
  shows "\<exists>C X. csn_origin C X (csn_pages_of logs) (csn_pages_of logs') \<and>
     (\<forall>v st. v \<in> C \<longrightarrow> csn_final_for st v \<longrightarrow> X \<subseteq> op_tree op \<and> st = op_outcome op)"
proof (cases op)
  case (Set_parent env x parent)
  then have "csn_origin {COMMITSEQNO_SUBTRANS_BIT OR parent} {x} (csn_pages_of logs) (csn_pages_of logs')"
    using assms SubTransSetParent_origin by (auto split: sum.splits)
  then show ?thesis using link_not_final link_bits by blast
next
  case (Mark_committing env xid xs csn)
  let ?c = "COMMITSEQNO_COMMIT_INPROGRESS OR csn"
  have c: "bit ?c 62" by (rule committing_csn_bits)
  have "csn_origin {?c, sub_csn ?c xid} (set (xid # xs)) (csn_pages_of logs) (csn_pages_of logs')"
    using assms Mark_committing CSNLogSetCommitSeqNo_origin committing_greater [OF c] by (auto simp: set_csnlog_Inr)
  moreover have "bit v 62" if "v \<in> {?c, sub_csn ?c xid}" for v
    using that c sub_csn_committing [OF c] top_link_bits by auto
  ultimately show ?thesis using link_not_final by blast
next
  case (Commit_tree env xid xs lsn csn)
  let ?c = "stored_csn env csn"
  have n: "TransactionIdIsNormal xid" using assms(2) Commit_tree by simp
  show ?thesis
  proof (cases "RecoveryInProgress (csn_env_of env) \<and> csn = 0")
    case True
    then have "csn_part logs' = csn_part logs"
      using assms(1) Commit_tree commit_Inr(2) [OF n, of env xs lsn csn logs logs'] by simp
    then show ?thesis by (intro exI [of _ "{}"]) simp
  next
    case False
    have ok: "COMMITSEQNO_IS_COMMITTED ?c" using assms(2) Commit_tree False by (auto simp: stored_csn_def split: if_splits)
    then have "?c \<noteq> InvalidCommitSeqNo" using committed_greater [OF ok] by (auto simp: InvalidCommitSeqNo_def)
    moreover have "CSNLogSetCommitSeqNo (csn_env_of env) xid xs ?c (csn_part logs) = Inr (csn_part logs')"
      using assms(1) Commit_tree commit_Inr(2) [OF n, of env xs lsn csn logs logs'] False by auto
    ultimately have "csn_origin {?c} (set (xid # xs)) (csn_pages_of logs) (csn_pages_of logs')"
      using CSNLogSetCommitSeqNo_origin [OF _ _ n] sub_csn_committed [OF ok] by fastforce
    moreover have "st = CLOG_XID_STATUS_COMMITTED" if "csn_final_for st ?c" for st
      using that ok committed_not_aborted by (auto simp: csn_final_for_def)
    ultimately show ?thesis using Commit_tree by (intro exI [of _ "{?c}"] exI [of _ "set (xid # xs)"]) auto
  qed
next
  case (Abort_tree env xid xs)
  have "COMMITSEQNO_ABORTED \<noteq> InvalidCommitSeqNo" by (simp add: csn_constants)
  then have "csn_origin {COMMITSEQNO_ABORTED} (set (xid # xs)) (csn_pages_of logs) (csn_pages_of logs')"
    using assms Abort_tree CSNLogSetCommitSeqNo_origin [of "csn_env_of env" xid xs COMMITSEQNO_ABORTED]
      abort_Inr(2) [of env xid xs logs logs'] by (simp add: sub_csn_aborted)
  moreover have "st = CLOG_XID_STATUS_ABORTED" if "csn_final_for st COMMITSEQNO_ABORTED" for st
    using that aborted_not_committed by (auto simp: csn_final_for_def)
  ultimately show ?thesis using Abort_tree by (intro exI [of _ "{COMMITSEQNO_ABORTED}"] exI [of _ "set (xid # xs)"]) auto
qed

text \<open>The commit log has an entry wherever the CSN log has one.\<close>

definition clog_covers :: "trans_logs \<Rightarrow> trans_op list \<Rightarrow> bool" where
  "clog_covers logs ops \<longleftrightarrow> (\<forall>op \<in> set ops. \<forall>x \<in> op_tree op. logs_status logs x \<noteq> None)"

lemma run_op_agree:
  assumes run: "run_op op logs = Inr logs'" "op_ok op" and ag: "logs_agree logs"
    and cov: "\<forall>x \<in> op_tree op. logs_status logs x \<noteq> None"
  shows "logs_agree logs'"
  unfolding logs_agree_alt
proof (intro allI impI)
  fix x v st assume e: "csn_entry (csn_pages_of logs') x = Some v" and f: "csn_final_for st v"
  obtain C X where o: "csn_origin C X (csn_pages_of logs) (csn_pages_of logs')"
    and C: "\<forall>v st. v \<in> C \<longrightarrow> csn_final_for st v \<longrightarrow> X \<subseteq> op_tree op \<and> st = op_outcome op"
    using run_op_origin [OF run] by blast
  have "(v \<in> C \<and> x \<in> X) \<or> csn_entry (csn_pages_of logs) x = Some v"
    using o e f zero_not_final unfolding csn_origin_def by blast
  then show "logs_status logs' x = Some st"
  proof
    assume "v \<in> C \<and> x \<in> X"
    then show ?thesis using C f trans.finish_sets [OF run] cov by blast
  next
    assume "csn_entry (csn_pages_of logs) x = Some v"
    then have "logs_status logs x = Some st" using ag f unfolding logs_agree_alt by blast
    then show ?thesis using trans.finish_kept [OF run] csn_final_for_final [OF f] by blast
  qed
qed

lemma history_agree:
  "for_each run_op ops logs = Inr logs' \<Longrightarrow> list_all op_ok ops \<Longrightarrow> logs_agree logs \<Longrightarrow> clog_covers logs ops \<Longrightarrow>
   logs_agree logs'"
proof (induction ops arbitrary: logs)
  case (Cons op ops)
  then obtain l1 where l1: "run_op op logs = Inr l1" "for_each run_op ops l1 = Inr logs'"
    by (auto simp: result_bind_Inr_iff)
  have ok: "op_ok op" using Cons.prems by simp
  have "clog_covers l1 ops" using Cons.prems(4) trans.finish_known [OF l1(1) ok] by (simp add: clog_covers_def)
  moreover have "logs_agree l1" using run_op_agree [OF l1(1) ok] Cons.prems by (simp add: clog_covers_def)
  ultimately show ?case using Cons.IH [OF l1(2)] Cons.prems by simp
qed simp

end
