(* ===== verification/Trans_Log_Properties.thy ===== *)
theory Trans_Log_Properties
  imports Trans_History
begin

text \<open>
  The properties of the transaction log interface: the status cache is transparent, the walk
  over the parents decides the specified outcome, the logs agree after every history, and a
  finished tree is read with its outcome by every route.
\<close>

section \<open>A finished transaction and the cache of sequence numbers\<close>

definition settled :: "trans_logs \<Rightarrow> TransactionId \<Rightarrow> CLogXidStatus \<Rightarrow> bool" where
  "settled logs x st \<longleftrightarrow> TransactionIdIsNormal x \<and> logs_status logs x = Some st \<and>
     (\<exists>v. csn_entry (csn_pages_of logs) x = Some v \<and> csn_final_for st v)"

definition csn_coherent :: "trans_logs \<Rightarrow> fetch_cache \<Rightarrow> bool" where
  "csn_coherent logs cache \<longleftrightarrow>
     (\<forall>st. settled logs (cachedFetchCSNXid cache) st \<longrightarrow> csn_final_for st (cachedFetchCSN cache))"

lemma csn_coherent_init: "csn_coherent logs knl_t_xact_init"
  by (simp add: csn_coherent_def settled_def knl_t_xact_init_def TransactionIdIsNormal_def special_xids word_le_nat_alt)

lemma csn_coherent_same: "same_csn_cache c c' \<Longrightarrow> csn_coherent logs c \<Longrightarrow> csn_coherent logs c'"
  by (simp add: csn_coherent_def same_csn_cache_def)

lemma frozen_final: "csn_final_for CLOG_XID_STATUS_COMMITTED COMMITSEQNO_FROZEN"
proof -
  have "COMMITSEQNO_FROZEN AND MAX_COMMITSEQNO = COMMITSEQNO_FROZEN"
    "COMMITSEQNO_FROZEN AND COMMITSEQNO_RESERVE_MASK = 0"
    by (simp_all add: COMMITSEQNO_FROZEN_def COMMITSEQNO_RESERVE_MASK_def MAX_COMMITSEQNO_def)
  then show ?thesis by (simp add: csn_final_for_def COMMITSEQNO_IS_COMMITTED_def)
qed

lemma aborted_final: "csn_final_for CLOG_XID_STATUS_ABORTED COMMITSEQNO_ABORTED"
  by (simp add: csn_final_for_def COMMITSEQNO_IS_ABORTED_def)

lemma csn_by_clog:
  assumes "settled logs x st" "isCommit \<longrightarrow> st = CLOG_XID_STATUS_COMMITTED"
  shows "\<exists>c. GetCSNByCLog logs x isCommit = Inr c \<and> csn_final_for st c"
proof -
  obtain lsn where "CLogGetStatus (slru (clog_part logs)) x = Inr (st, lsn)"
    using assms(1) clog_read [of "slru (clog_part logs)" x st] unfolding settled_def logs_status_def by blast
  moreover have "st = CLOG_XID_STATUS_COMMITTED \<or> st = CLOG_XID_STATUS_ABORTED"
    using assms(1) by (auto simp: settled_def csn_final_for_def)
  ultimately show ?thesis using assms(2) frozen_final aborted_final by (auto simp: GetCSNByCLog_def)
qed

lemma settled_log_read:
  assumes "settled logs x st"
  shows "\<exists>v. csn_entry (csn_pages_of logs) x = Some v \<and> csn_final_for st v \<and>
     CSNLogGetNestCommitSeqNo (csn_pages_of logs) x = Some (Inr v) \<and>
     CSNLogGetCommitSeqNo (csn_pages_of logs) x = Inr v"
proof -
  obtain v where v: "csn_entry (csn_pages_of logs) x = Some v" "csn_final_for st v" "TransactionIdIsNormal x"
    using assms by (auto simp: settled_def)
  have "\<not> COMMITSEQNO_IS_SUBTRANS v" using v(2) link_not_final by (auto simp: subtrans_iff)
  then show ?thesis using v nest_entry [OF v(3,1)] by (simp add: CSNLogGetCommitSeqNo_def normal_read)
qed

lemma fetch_csn_settled:
  assumes "settled logs x st" "isCommit \<longrightarrow> st = CLOG_XID_STATUS_COMMITTED"
  shows "\<exists>c. fetch_csn env logs x isCommit isMvcc isNest snapshot n = Some (Inr c) \<and> csn_final_for st c"
proof -
  obtain v where "csn_final_for st v" "CSNLogGetNestCommitSeqNo (csn_pages_of logs) x = Some (Inr v)"
    "CSNLogGetCommitSeqNo (csn_pages_of logs) x = Inr v" using settled_log_read [OF assms(1)] by blast
  then show ?thesis using csn_by_clog [OF assms]
    unfolding fetch_csn.simps [of env logs x isCommit isMvcc isNest snapshot n] Let_def by auto
qed

lemma cache_hit:
  "FetchCSNFromCache env x snapshot isMvcc cache = (c, cache') \<Longrightarrow>
   same_csn_cache cache cache' \<and> (c \<noteq> InvalidCommitSeqNo \<longrightarrow> x = cachedFetchCSNXid cache \<and> c = cachedFetchCSN cache)"
  by (auto simp: FetchCSNFromCache_def SetLatestFetchState_def same_csn_cache_def Let_def split: if_splits option.splits)

lemma get_csn_settled:
  assumes "settled logs x st" "isCommit \<longrightarrow> st = CLOG_XID_STATUS_COMMITTED" "csn_coherent logs cache"
  shows "\<exists>c cache'. TransactionIdGetCommitSeqNo env logs x isCommit isMvcc isNest snapshot cache = Some (Inr (c, cache')) \<and>
     csn_final_for st c \<and> csn_coherent logs cache'"
proof -
  obtain c0 cache0 where c0: "FetchCSNFromCache env x snapshot isMvcc cache = (c0, cache0)" by force
  note hit = cache_hit [OF c0]
  have nx: "TransactionIdIsNormal x" using assms(1) by (simp add: settled_def)
  show ?thesis
  proof (cases "c0 = InvalidCommitSeqNo")
    case False
    then have "csn_final_for st c0" using hit assms(1,3) by (simp add: csn_coherent_def)
    moreover have "csn_coherent logs cache0" using hit csn_coherent_same assms(3) by blast
    ultimately show ?thesis using c0 False by (simp add: TransactionIdGetCommitSeqNo_def)
  next
    case True
    obtain c where c: "fetch_csn env logs x isCommit isMvcc isNest snapshot 0 = Some (Inr c)" "csn_final_for st c"
      using fetch_csn_settled [OF assms(1,2)] by blast
    have "COMMITSEQNO_IS_COMMITTED c \<or> COMMITSEQNO_IS_ABORTED c" using c(2) by (auto simp: csn_final_for_def)
    moreover have "st' = st" if "settled logs x st'" for st' using that assms(1) by (simp add: settled_def)
    ultimately show ?thesis using c c0 True nx
      by (auto simp: TransactionIdGetCommitSeqNo_def csn_coherent_def simp del: fetch_csn.simps)
  qed
qed

text \<open>Reading any transaction, finished or not, keeps the cache coherent.\<close>

lemma get_csn_coherent:
  assumes "TransactionIdGetCommitSeqNo env logs x isCommit isMvcc isNest snapshot cache = Some (Inr (c, cache'))"
    and "csn_coherent logs cache" "isCommit \<longrightarrow> logs_status logs x = Some CLOG_XID_STATUS_COMMITTED"
  shows "csn_coherent logs cache'"
proof (cases "\<exists>st. settled logs x st")
  case True
  then obtain st where st: "settled logs x st" by blast
  then have i: "isCommit \<longrightarrow> st = CLOG_XID_STATUS_COMMITTED" using assms(3) by (auto simp: settled_def)
  show ?thesis
    using get_csn_settled [OF st i assms(2), of env isMvcc isNest snapshot] unfolding assms(1) by auto
next
  case False
  obtain c0 cache0 where c0: "FetchCSNFromCache env x snapshot isMvcc cache = (c0, cache0)" by force
  have co: "csn_coherent logs cache0" using cache_hit [OF c0] csn_coherent_same assms(2) by blast
  have eq: "TransactionIdGetCommitSeqNo env logs x isCommit isMvcc isNest snapshot cache =
      (if c0 \<noteq> InvalidCommitSeqNo then Some (Inr (c0, cache0))
       else if \<not> TransactionIdIsNormal x
       then Some (Inr (if x = BootstrapTransactionId \<or> x = FrozenTransactionId then COMMITSEQNO_FROZEN
                       else COMMITSEQNO_ABORTED, cache0\<lparr>latestFetchCSNXid := InvalidTransactionId\<rparr>))
       else case fetch_csn env logs x isCommit isMvcc isNest snapshot 0 of
              None \<Rightarrow> None
            | Some (Inl e) \<Rightarrow> Some (Inl e)
            | Some (Inr r) \<Rightarrow> Some (Inr (r, (if COMMITSEQNO_IS_COMMITTED r \<or> COMMITSEQNO_IS_ABORTED r
                 then cache0\<lparr>cachedFetchCSNXid := x, cachedFetchCSN := r\<rparr> else cache0)
                 \<lparr>latestFetchCSNXid := x, latestFetchCSN := r\<rparr>)))"
    unfolding TransactionIdGetCommitSeqNo_def c0 Let_def by (simp del: fetch_csn.simps)
  have "same_csn_cache cache0 cache' \<or> cachedFetchCSNXid cache' = x"
  proof (cases "c0 \<noteq> InvalidCommitSeqNo \<or> \<not> TransactionIdIsNormal x")
    case True
    then show ?thesis using assms(1) unfolding eq same_csn_cache_def by (auto split: if_splits)
  next
    case False
    then obtain r where r: "fetch_csn env logs x isCommit isMvcc isNest snapshot 0 = Some (Inr r)"
      using assms(1) unfolding eq
      by (cases "fetch_csn env logs x isCommit isMvcc isNest snapshot 0")
        (simp_all del: fetch_csn.simps split: sum.splits)
    show ?thesis using assms(1) False unfolding eq r same_csn_cache_def by auto
  qed
  then show ?thesis
    by (rule disjE) (use co csn_coherent_same False in \<open>auto simp: csn_coherent_def\<close>)
qed

section \<open>Concrete logs\<close>

definition trans_demo_env :: trans_env where
  "trans_demo_env = \<lparr>clog_env_of = plain_env, csn_env_of = csn_demo_env, GTM_LITE_MODE = False,
     IS_CN_DISASTER_RECOVER_MODE = False, ENABLE_DMS = False, role_is_DMS_WORKER = False,
     SS_PRIMARY_MODE = False, SS_OFFICIAL_PRIMARY = False, SSTransactionIdDidCommit = (\<lambda>_. False),
     ReplicationSlotCatalogXmin = 3, recentGlobalXmin = (\<lambda>_. 50), recentLocalXmin = 50, RecentXmin = 60,
     startupMaxXid = 10, nextXid = 1000, xc_maintenance_mode = False, XactIsoLevel_READ_UNCOMMITTED = False,
     globalRecycleXid = 20\<rparr>"

definition blank_logs :: trans_logs where
  "blank_logs = \<lparr>clog_part = blank_clog 1, csn_part = blank_csnlog 1\<rparr>"

lemma blank_logs_status: "x < 1024 \<Longrightarrow> logs_status blank_logs x = Some CLOG_XID_STATUS_IN_PROGRESS"
  using blank_status [of x 1]
  by (auto simp: logs_status_def blank_logs_def TransactionIdToPage_def clog_constants word_less_nat_alt)

lemma blank_logs_entry: "x < 1024 \<Longrightarrow> csn_entry (csn_pages_of blank_logs) x = Some 0"
  using blank_entry [of x 1]
  by (auto simp: blank_logs_def TransactionIdToCSNPage_def CSNLOG_XACTS_PER_PAGE_def BLCKSZ_def word_less_nat_alt)

section \<open>Properties\<close>

text \<open>
  C36. The single-entry cache of TransactionLogFetch is transparent. A cache filled at any time
  stays right while any number of transactions finish: a later fetch returns the status the
  commit log has then, from the cache or not, the cache is coherent again, and a finished
  transaction is in it, so that TransactionIdIsKnownCompleted says so. A transaction whose
  status the cache holds has finished.
\<close>

theorem log_fetch_transparent:
  assumes "coherent ctl cache" "for_each record_outcome rs ctl = Inr (clog_part logs)" "list_all request_ok rs"
    and "TransactionIdIsValid x" "xact_status logs x = Some s"
  shows "\<exists>c. TransactionLogFetch logs x cache = Inr (s, c) \<and> coherent (clog_part logs) c \<and>
     (TransactionIdIsNormal x \<and> final_status s \<longrightarrow> TransactionIdIsKnownCompleted x c) \<and>
     (x = cachedFetchXid c \<longrightarrow> final_status s)"
proof -
  have co: "coherent (clog_part logs) cache" by (rule coherent_history [OF assms(1-3)])
  obtain c where c: "TransactionLogFetch logs x cache = Inr (s, c)" "coherent (clog_part logs) c"
    "TransactionIdIsNormal x \<and> final_status s \<longrightarrow> cachedFetchXid c = x"
    using fetch_correct [OF co assms(4,5)] by blast
  have "final_status s" if "x = cachedFetchXid c"
  proof -
    have "TransactionIdIsNormal x \<and> final_status (cachedFetchXidStatus c) \<and>
        clog_status (slru (clog_part logs)) x = Some (cachedFetchXidStatus c)"
      using c(2) assms(4) unfolding coherent_def TransactionIdIsValid_def that [symmetric] by blast
    then show ?thesis using assms(5) by (simp add: xact_status_def)
  qed
  then show ?thesis using c(1,2,3) unfolding TransactionIdIsKnownCompleted_def by blast
qed

theorem log_fetch_transparent_witness:
  "\<exists>ctl c. record_outcome (plain_request 100 [101] CLOG_XID_STATUS_COMMITTED) (blank_clog 1) = Inr ctl \<and>
     TransactionLogFetch (blank_logs\<lparr>clog_part := ctl\<rparr>) 101 knl_t_xact_init = Inr (CLOG_XID_STATUS_COMMITTED, c) \<and>
     TransactionIdIsKnownCompleted 101 c"
proof -
  let ?r = "plain_request 100 [101] CLOG_XID_STATUS_COMMITTED"
  have al: "\<forall>x \<in> set [100, 101 :: TransactionId]. \<exists>s. clog_status (slru (blank_clog 1)) x = Some s \<and>
      allowed CLOG_XID_STATUS_COMMITTED s"
    by (simp add: blank_status TransactionIdToPage_def clog_constants allowed_def)
  have ok: "request_ok ?r" by (rule plain_request_ok) (simp_all add: final_status_def)
  have "\<exists>ctl. CLogSetTreeStatus plain_env 100 [101] CLOG_XID_STATUS_COMMITTED 7 (blank_clog 1) = Inr ctl"
    by (rule tree_runs) (use al plain_own_path in \<open>auto simp: final_status_def all_allowed_def TransactionIdIsValid_def special_xids\<close>)
  then obtain ctl where run: "record_outcome ?r (blank_clog 1) = Inr ctl"
    by (auto simp: record_outcome_def plain_request_def)
  have st: "clog_status (slru ctl) 101 = Some CLOG_XID_STATUS_COMMITTED"
    using clog.finish_sets [OF run ok, of 101] al by (auto simp: request_tree_def plain_request_def)
  have norm: "TransactionIdIsNormal 101" by (simp add: TransactionIdIsNormal_def special_xids word_le_nat_alt)
  show ?thesis
    using log_fetch_transparent [of "blank_clog 1" knl_t_xact_init "[?r]" "blank_logs\<lparr>clog_part := ctl\<rparr>" 101
        CLOG_XID_STATUS_COMMITTED] run ok st norm coherent_init
    by (auto simp: xact_status_def TransactionIdIsValid_def special_xids final_status_def)
qed

text \<open>
  C32. TransactionIdDidCommit and TransactionIdDidAbort return and decide the outcome the
  logs give a transaction: its own mark in the commit log or, when it is subcommitted, that
  of its nearest ancestor that is not, or the sequence number it has. They never both say yes;
  they hold for every coherent cache and leave it coherent. The parents recorded in the CSN log
  precede their children, as SubTransSetParent leaves them, and the pages read are there.
\<close>

theorem did_commit_decides:
  assumes "local_fetch env" "ordered_parents (csn_pages_of logs)" "readable env logs x"
    and "coherent (clog_part logs) cache" "TransactionIdIsValid x"
  shows "\<exists>c1 c2. TransactionIdDidCommit env logs x cache = Some (Inr (did_commit env logs x, c1)) \<and>
     TransactionIdDidAbort env logs x c1 = Some (Inr (did_abort env logs x, c2)) \<and>
     \<not> (did_commit env logs x \<and> did_abort env logs x) \<and> coherent (clog_part logs) c2"
proof -
  obtain c1 where c1: "TransactionIdDidCommit env logs x cache = Some (Inr (did_commit env logs x, c1))"
    "coherent (clog_part logs) c1"
    using walk_decides [OF DidCommit_step [OF assms(1)] assms(2-)] by auto
  obtain c2 where "TransactionIdDidAbort env logs x c1 = Some (Inr (did_abort env logs x, c2))"
    "coherent (clog_part logs) c2"
    using walk_decides [OF DidAbort_step assms(2,3) c1(2) assms(5)] by auto
  then show ?thesis using c1 did_commit_not_abort by blast
qed

lemma blank_unordered: "ordered_parents (csn_pages_of blank_logs)"
  by (auto simp: ordered_parents_def blank_logs_def blank_csnlog_def csn_entry_def subtrans_iff split: if_splits)

lemma blank_readable: "x < 1024 \<Longrightarrow> readable env blank_logs x"
  unfolding readable_def
  using blank_logs_status blank_logs_entry by (fastforce simp: logs_status_def)

theorem did_commit_decides_witness:
  "\<exists>c1 c2. TransactionIdDidCommit trans_demo_env blank_logs 100 knl_t_xact_init = Some (Inr (False, c1)) \<and>
     TransactionIdDidAbort trans_demo_env blank_logs 100 c1 = Some (Inr (False, c2))"
proof -
  have n: "TransactionIdIsNormal 100" by (simp add: TransactionIdIsNormal_def special_xids word_le_nat_alt)
  have s: "xact_status blank_logs 100 = Some CLOG_XID_STATUS_IN_PROGRESS"
    using blank_logs_status [of 100] n by (simp add: xact_status_def logs_status_def word_less_nat_alt)
  then have "\<not> did_commit trans_demo_env blank_logs 100" "\<not> did_abort trans_demo_env blank_logs 100"
    by (simp_all add: did_commit_simps [of _ _ 100] did_abort_simps [of _ _ 100])
  then show ?thesis
    using did_commit_decides [of trans_demo_env blank_logs 100 knl_t_xact_init] blank_unordered
      blank_readable [of 100 trans_demo_env] coherent_init
    by (auto simp: local_fetch_def trans_demo_env_def TransactionIdIsValid_def special_xids word_less_nat_alt)
qed


lemma blank_agree: "logs_agree blank_logs"
  using zero_not_final
  by (auto simp: logs_agree_alt blank_logs_def blank_csnlog_def csn_entry_def split: if_splits)

lemma demo_request_ok: "final_status st \<Longrightarrow> xid \<noteq> 0 \<Longrightarrow> request_ok (tree_request trans_demo_env xid xs st lsn)"
  by (simp add: request_ok_def tree_request_def trans_demo_env_def plain_env_def TransactionIdIsValid_def special_xids)

section \<open>Finished trees\<close>

lemma commit_runs:
  assumes "TransactionIdIsNormal xid" "own_path (clog_env_of env) xid xs" "\<not> SS_STANDBY_MODE (clog_env_of env)"
    and "\<not> DMS_STANDBY (csn_env_of env)" "COMMITSEQNO_IS_COMMITTED (stored_csn env csn)"
    and "live_tree xid xs (csn_pages_of logs)"
    and "\<forall>x \<in> set (xid # xs). \<exists>s. logs_status logs x = Some s \<and> allowed CLOG_XID_STATUS_COMMITTED s"
  shows "\<exists>logs'. TransactionIdAsyncCommitTree env xid xs lsn csn logs = Inr logs' \<and>
     (\<forall>x. logs_status logs' x = (if x \<in> set (xid # xs) then Some CLOG_XID_STATUS_COMMITTED else logs_status logs x)) \<and>
     (\<forall>x. csn_entry (csn_pages_of logs') x =
        (if x \<in> set (xid # xs) then Some (stored_csn env csn) else csn_entry (csn_pages_of logs) x))"
proof -
  have f: "final_status CLOG_XID_STATUS_COMMITTED" by (simp add: final_status_def)
  have v: "TransactionIdIsValid xid" using normal_valid assms(1) by blast
  obtain ctl where ctl: "CLogSetTreeStatus (clog_env_of env) xid xs CLOG_XID_STATUS_COMMITTED lsn (clog_part logs) = Inr ctl"
    and st: "\<And>x. clog_status (slru ctl) x = (if x \<in> set (xid # xs) then Some CLOG_XID_STATUS_COMMITTED else logs_status logs x)"
    using clog_tree_sets [OF f v assms(3,2), of "clog_part logs" lsn] assms(7) unfolding logs_status_def by blast
  obtain log where log: "CSNLogSetCommitSeqNo (csn_env_of env) xid xs (stored_csn env csn) (csn_part logs) = Inr log"
    and e: "csn_entry (csn_slru log) = (\<lambda>x. if x = xid then Some (stored_csn env csn)
        else if x \<in> set xs then Some (sub_csn (stored_csn env csn) xid) else csn_entry (csn_pages_of logs) x)"
    using set_live_tree [OF assms(4,6)] assms(5) by blast
  have nz: "\<not> (RecoveryInProgress (csn_env_of env) \<and> csn = 0)"
  proof
    assume "RecoveryInProgress (csn_env_of env) \<and> csn = 0"
    then have "stored_csn env csn = 0" by (simp add: stored_csn_def)
    then show False using assms(5) zero_not_final [of CLOG_XID_STATUS_COMMITTED] by (simp add: csn_final_for_def)
  qed
  have "TransactionIdAsyncCommitTree env xid xs lsn csn logs = Inr (logs\<lparr>clog_part := ctl, csn_part := log\<rparr>)"
    unfolding commit_stages [OF assms(1)] using ctl log nz by (auto simp: set_clog_def set_csnlog_def)
  then show ?thesis using st e sub_csn_committed [OF assms(5)] by (auto simp: logs_status_def)
qed

lemma abort_runs:
  assumes "TransactionIdIsNormal xid" "own_path (clog_env_of env) xid xs" "\<not> SS_STANDBY_MODE (clog_env_of env)"
    and "\<not> DMS_STANDBY (csn_env_of env)"
    and "\<not> (useLocalSnapshot (csn_env_of env) \<or> IsRoachStandbyCluster (csn_env_of env))"
    and "\<forall>x \<in> set (xid # xs). TransactionIdIsNormal x \<and> (\<exists>v. csn_entry (csn_pages_of logs) x = Some v \<and> \<not> COMMITSEQNO_IS_COMMITTED v)"
    and "\<forall>x \<in> set (xid # xs). \<exists>s. logs_status logs x = Some s \<and> allowed CLOG_XID_STATUS_ABORTED s"
  shows "\<exists>logs'. TransactionIdAbortTree env xid xs logs = Inr logs' \<and>
     (\<forall>x. logs_status logs' x = (if x \<in> set (xid # xs) then Some CLOG_XID_STATUS_ABORTED else logs_status logs x)) \<and>
     (\<forall>x. csn_entry (csn_pages_of logs') x =
        (if x \<in> set (xid # xs) then Some COMMITSEQNO_ABORTED else csn_entry (csn_pages_of logs) x))"
proof -
  let ?e = "csn_entry (csn_pages_of logs)"
  have f: "final_status CLOG_XID_STATUS_ABORTED" by (simp add: final_status_def)
  have v: "TransactionIdIsValid xid" "xid \<noteq> BootstrapTransactionId" using normal_valid assms(1) by blast+
  have c0: "COMMITSEQNO_ABORTED \<noteq> InvalidCommitSeqNo" by (simp add: csn_constants)
  obtain ctl where ctl: "CLogSetTreeStatus (clog_env_of env) xid xs CLOG_XID_STATUS_ABORTED 0 (clog_part logs) = Inr ctl"
    and st: "\<And>x. clog_status (slru ctl) x = (if x \<in> set (xid # xs) then Some CLOG_XID_STATUS_ABORTED else logs_status logs x)"
    using clog_tree_sets [OF f v(1) assms(3,2), of "clog_part logs" 0] assms(7) unfolding logs_status_def by blast
  have nx: "next_csn COMMITSEQNO_ABORTED w = Some COMMITSEQNO_ABORTED" if "\<not> COMMITSEQNO_IS_COMMITTED w" for w
    using that aborted_not_committed by (auto simp: next_csn_def COMMITSEQNO_IS_ABORTED_def)
  have up: "upd_csn COMMITSEQNO_ABORTED X ?e = (\<lambda>x. if x \<in> X then Some COMMITSEQNO_ABORTED else ?e x)"
    if "X \<subseteq> set (xid # xs)" for X
    using assms(6) nx that by (force simp: upd_csn_def fun_eq_iff)
  have ex: "\<forall>x \<in> set (xid # xs). ?e x \<noteq> None" using assms(6) by auto
  have "\<exists>log. CSNLogSetCommitSeqNo (csn_env_of env) xid xs COMMITSEQNO_ABORTED (csn_part logs) = Inr log"
  proof (rule CSNLogSetCommitSeqNo_ok [OF assms(4) _ c0 v _ _ ex])
    show "can_set COMMITSEQNO_ABORTED {xid} ?e" using assms(6) nx by (auto simp: can_set_def)
    show "can_set (sub_csn COMMITSEQNO_ABORTED xid) (set xs) (upd_csn COMMITSEQNO_ABORTED {xid} ?e)"
      using assms(6) nx [of COMMITSEQNO_ABORTED] nx aborted_not_committed unfolding sub_csn_aborted
      by (auto simp: can_set_def up)
  qed (use assms(5) in simp)
  then obtain log where log: "CSNLogSetCommitSeqNo (csn_env_of env) xid xs COMMITSEQNO_ABORTED (csn_part logs) = Inr log"
    by blast
  have "csn_entry (csn_slru log) = upd_csn COMMITSEQNO_ABORTED (set xs) (upd_csn COMMITSEQNO_ABORTED {xid} ?e)"
    using CSNLogSetCommitSeqNo_Inr(1) [OF log assms(4) _ c0 v ex] assms(5) by (simp add: sub_csn_aborted)
  then have e: "csn_entry (csn_slru log) x = (if x \<in> set (xid # xs) then Some COMMITSEQNO_ABORTED else ?e x)" for x
    using up [of "set xs \<union> {xid}"] unfolding upd_csn_union by auto
  have "TransactionIdAbortTree env xid xs logs = Inr (logs\<lparr>clog_part := ctl, csn_part := log\<rparr>)"
    using ctl log by (simp add: TransactionIdAbortTree_def set_clog_def set_csnlog_def)
  then show ?thesis using st e by (auto simp: logs_status_def)
qed

lemma demo_simps [simp]:
  "clog_env_of trans_demo_env = plain_env" "csn_env_of trans_demo_env = csn_demo_env"
  "\<not> SS_STANDBY_MODE plain_env" "\<not> DMS_STANDBY csn_demo_env" "\<not> RecoveryInProgress csn_demo_env"
  "\<not> useLocalSnapshot csn_demo_env" "\<not> IsRoachStandbyCluster csn_demo_env" "local_fetch trans_demo_env"
  by (simp_all add: trans_demo_env_def plain_env_def csn_demo_env_def local_fetch_def)

lemma demo_csn: "stored_csn trans_demo_env 5 = 5" "COMMITSEQNO_IS_COMMITTED 5"
  by (simp_all add: stored_csn_def COMMITSEQNO_IS_COMMITTED_def csn_constants MAX_COMMITSEQNO_def
      COMMITSEQNO_RESERVE_MASK_def COMMITSEQNO_COMMIT_INPROGRESS_def word_le_nat_alt)

lemma zero_not_aborted: "\<not> COMMITSEQNO_IS_ABORTED 0" "\<not> COMMITSEQNO_IS_COMMITTED 0"
  using zero_not_final [of CLOG_XID_STATUS_ABORTED] zero_not_final [of CLOG_XID_STATUS_COMMITTED]
  by (simp_all add: csn_final_for_def)

lemma demo_commit:
  "\<exists>logs'. TransactionIdAsyncCommitTree trans_demo_env 100 [101] 0 5 blank_logs = Inr logs' \<and>
     (\<forall>x. logs_status logs' x = (if x \<in> set [100, 101] then Some CLOG_XID_STATUS_COMMITTED else logs_status blank_logs x)) \<and>
     (\<forall>x. csn_entry (csn_pages_of logs') x = (if x \<in> set [100, 101] then Some 5 else csn_entry (csn_pages_of blank_logs) x))"
proof -
  have lt: "x < 1024" "TransactionIdIsNormal x" if "x \<in> set [100, 101 :: TransactionId]" for x
    using that by (auto simp: word_less_nat_alt TransactionIdIsNormal_def special_xids word_le_nat_alt)
  have "live_tree 100 [101] (csn_pages_of blank_logs)"
    using lt blank_logs_entry zero_not_aborted by (auto simp: live_tree_def)
  moreover have "\<forall>x \<in> set [100, 101]. \<exists>s. logs_status blank_logs x = Some s \<and> allowed CLOG_XID_STATUS_COMMITTED s"
    using lt blank_logs_status by (auto simp: allowed_def)
  ultimately show ?thesis
    using commit_runs [of 100 trans_demo_env "[101]" 5 blank_logs 0, unfolded demo_csn(1)] lt demo_csn(2) plain_own_path
    by simp
qed


lemma walk_final:
  assumes "walk_step commit env logs f" "coherent (clog_part logs) cache" "TransactionIdIsNormal x"
    and "logs_status logs x = Some s" "final_status s"
  shows "\<exists>c. f x cache = Some (Inr (s = (if commit then CLOG_XID_STATUS_COMMITTED else CLOG_XID_STATUS_ABORTED), c)) \<and>
     coherent (clog_part logs) c"
proof -
  have "xact_status logs x = Some s" using assms by (simp add: xact_status_def logs_status_def)
  then obtain c where "TransactionLogFetch logs x cache = Inr (s, c)" "coherent (clog_part logs) c"
    using fetch_correct assms normal_valid by blast
  moreover have "s \<noteq> CLOG_XID_STATUS_SUB_COMMITTED" using assms(5) by (auto simp: final_status_def)
  ultimately show ?thesis using assms(1) unfolding walk_step_def by blast
qed

text \<open>How a thread with any coherent cache sees a transaction with a final outcome.\<close>

definition seen_as :: "trans_env \<Rightarrow> trans_logs \<Rightarrow> TransactionId \<Rightarrow> CLogXidStatus \<Rightarrow> bool" where
  "seen_as env logs x st \<longleftrightarrow>
     (\<forall>cache. coherent (clog_part logs) cache \<longrightarrow>
        (\<exists>c. TransactionIdDidCommit env logs x cache = Some (Inr (st = CLOG_XID_STATUS_COMMITTED, c))) \<and>
        (\<exists>c. TransactionIdDidAbort env logs x cache = Some (Inr (st = CLOG_XID_STATUS_ABORTED, c)))) \<and>
     (\<forall>cache. csn_coherent logs cache \<longrightarrow>
        (\<exists>c. TransactionIdGetStatus env logs x cache =
           Some (Inr (if st = CLOG_XID_STATUS_COMMITTED then XID_COMMITTED else XID_ABORTED, c))))"

lemma settled_seen:
  assumes "local_fetch env" "settled logs x st"
  shows "seen_as env logs x st"
proof -
  have s: "TransactionIdIsNormal x" "logs_status logs x = Some st" "final_status st"
    using assms(2) csn_final_for_final by (auto simp: settled_def)
  have "\<exists>c. TransactionIdGetStatus env logs x cache =
      Some (Inr (if st = CLOG_XID_STATUS_COMMITTED then XID_COMMITTED else XID_ABORTED, c))"
    if co: "csn_coherent logs cache" for cache
  proof -
    obtain c cache' where "TransactionIdGetCommitSeqNo env logs x False True True None cache = Some (Inr (c, cache'))"
      "csn_final_for st c"
      using get_csn_settled [OF assms(2) _ co, of False env True True None] by auto
    then show ?thesis using committed_not_aborted [of c] by (auto simp: TransactionIdGetStatus_def csn_final_for_def)
  qed
  then show ?thesis
    unfolding seen_as_def
    using walk_final [OF DidCommit_step [OF assms(1)] _ s] walk_final [OF DidAbort_step _ s] by fastforce
qed

text \<open>
  C34. Committing a tree: TransactionIdCommitTree returns when no member has aborted, every
  member then is committed in both logs with the given sequence number without its commit mark,
  is reported as committed and not aborted by TransactionIdDidCommit, TransactionIdDidAbort and
  TransactionIdGetStatus whatever the caches of the thread hold, and nothing else changes.
\<close>

theorem commit_tree_outcome:
  assumes "TransactionIdIsNormal xid" "own_path (clog_env_of env) xid xs" "\<not> SS_STANDBY_MODE (clog_env_of env)"
    and "\<not> DMS_STANDBY (csn_env_of env)" "COMMITSEQNO_IS_COMMITTED (stored_csn env csn)"
    and "live_tree xid xs (csn_pages_of logs)" "local_fetch env"
    and "\<forall>x \<in> set (xid # xs). \<exists>s. logs_status logs x = Some s \<and> allowed CLOG_XID_STATUS_COMMITTED s"
  shows "\<exists>logs'. TransactionIdCommitTree env xid xs csn logs = Inr logs' \<and>
     (\<forall>x \<in> set (xid # xs). settled logs' x CLOG_XID_STATUS_COMMITTED \<and> seen_as env logs' x CLOG_XID_STATUS_COMMITTED \<and>
        csn_entry (csn_pages_of logs') x = Some (stored_csn env csn)) \<and>
     (\<forall>x. x \<notin> set (xid # xs) \<longrightarrow> logs_status logs' x = logs_status logs x \<and>
        csn_entry (csn_pages_of logs') x = csn_entry (csn_pages_of logs) x)"
proof -
  obtain logs' where run: "TransactionIdAsyncCommitTree env xid xs 0 csn logs = Inr logs'"
    and st: "\<And>x. logs_status logs' x = (if x \<in> set (xid # xs) then Some CLOG_XID_STATUS_COMMITTED else logs_status logs x)"
    and e: "\<And>x. csn_entry (csn_pages_of logs') x =
      (if x \<in> set (xid # xs) then Some (stored_csn env csn) else csn_entry (csn_pages_of logs) x)"
    using commit_runs [OF assms(1-6,8), of 0] by blast
  have "settled logs' x CLOG_XID_STATUS_COMMITTED" if "x \<in> set (xid # xs)" for x
    using that st e assms(5,6) by (auto simp: settled_def csn_final_for_def live_tree_def)
  then show ?thesis
    using run st e settled_seen [OF assms(7)] by (auto simp: TransactionIdCommitTree_def)
qed

theorem commit_tree_outcome_witness:
  "\<exists>logs'. TransactionIdCommitTree trans_demo_env 100 [101] 5 blank_logs = Inr logs' \<and>
     seen_as trans_demo_env logs' 101 CLOG_XID_STATUS_COMMITTED \<and> csn_entry (csn_pages_of logs') 101 = Some 5"
proof -
  have lt: "x < 1024" "TransactionIdIsNormal x" if "x \<in> set [100, 101 :: TransactionId]" for x
    using that by (auto simp: word_less_nat_alt TransactionIdIsNormal_def special_xids word_le_nat_alt)
  have "live_tree 100 [101] (csn_pages_of blank_logs)"
    using lt blank_logs_entry zero_not_aborted by (auto simp: live_tree_def)
  moreover have "\<forall>x \<in> set [100, 101]. \<exists>s. logs_status blank_logs x = Some s \<and> allowed CLOG_XID_STATUS_COMMITTED s"
    using lt blank_logs_status by (auto simp: allowed_def)
  ultimately show ?thesis
    using commit_tree_outcome [of 100 trans_demo_env "[101]" 5 blank_logs] lt demo_csn plain_own_path by auto
qed

text \<open>
  C35. The route does not matter: for a transaction with the same final outcome in both logs,
  TransactionIdGetCommitSeqNo returns a sequence number of that outcome whatever the snapshot,
  the horizon, the mode of the server, the flags and the attempt, from the cache, the
  commit log or the CSN log; and every read, of any transaction, leaves the cache coherent.
\<close>

theorem csn_route_independent:
  assumes "csn_coherent logs cache" "settled logs x st" "isCommit \<longrightarrow> st = CLOG_XID_STATUS_COMMITTED"
    and "TransactionIdGetCommitSeqNo env' logs y isCommit' isMvcc' isNest' snapshot' cache = Some (Inr (c', cache'))"
    and "isCommit' \<longrightarrow> logs_status logs y = Some CLOG_XID_STATUS_COMMITTED"
  shows "\<exists>c cache''. TransactionIdGetCommitSeqNo env logs x isCommit isMvcc isNest snapshot cache' = Some (Inr (c, cache'')) \<and>
     (COMMITSEQNO_IS_COMMITTED c \<longleftrightarrow> st = CLOG_XID_STATUS_COMMITTED) \<and>
     (COMMITSEQNO_IS_ABORTED c \<longleftrightarrow> st = CLOG_XID_STATUS_ABORTED) \<and> csn_coherent logs cache''"
proof -
  have "csn_coherent logs cache'" by (rule get_csn_coherent [OF assms(4,1,5)])
  then obtain c cache'' where
    c: "TransactionIdGetCommitSeqNo env logs x isCommit isMvcc isNest snapshot cache' = Some (Inr (c, cache''))"
      "csn_final_for st c" "csn_coherent logs cache''"
    using get_csn_settled [OF assms(2,3)] by blast
  have "COMMITSEQNO_IS_COMMITTED c \<longleftrightarrow> st = CLOG_XID_STATUS_COMMITTED"
    "COMMITSEQNO_IS_ABORTED c \<longleftrightarrow> st = CLOG_XID_STATUS_ABORTED"
    using c(2) committed_not_aborted [of c] by (auto simp: csn_final_for_def)
  then show ?thesis using c by blast
qed

theorem csn_route_independent_witness:
  "\<exists>logs c cache. TransactionIdAsyncCommitTree trans_demo_env 100 [101] 0 5 blank_logs = Inr logs \<and>
     TransactionIdGetCommitSeqNo trans_demo_env logs 101 False True True None knl_t_xact_init = Some (Inr (c, cache)) \<and>
     (\<exists>c2 cache2. TransactionIdGetCommitSeqNo trans_demo_env logs 101 False True True None cache = Some (Inr (c2, cache2)) \<and>
        COMMITSEQNO_IS_COMMITTED c2)"
proof -
  obtain logs where l: "TransactionIdAsyncCommitTree trans_demo_env 100 [101] 0 5 blank_logs = Inr logs"
    and s: "\<And>x. logs_status logs x = (if x \<in> set [100, 101] then Some CLOG_XID_STATUS_COMMITTED else logs_status blank_logs x)"
    and e: "\<And>x. csn_entry (csn_pages_of logs) x = (if x \<in> set [100, 101] then Some 5 else csn_entry (csn_pages_of blank_logs) x)"
    using demo_commit by blast
  have st: "settled logs 101 CLOG_XID_STATUS_COMMITTED"
    using s [of 101] e [of 101] demo_csn by (auto simp: settled_def csn_final_for_def TransactionIdIsNormal_def special_xids word_le_nat_alt)
  obtain c cache where r: "TransactionIdGetCommitSeqNo trans_demo_env logs 101 False True True None knl_t_xact_init = Some (Inr (c, cache))"
    using get_csn_settled [OF st _ csn_coherent_init, of False trans_demo_env True True None] by auto
  show ?thesis
    using csn_route_independent [OF csn_coherent_init st _ r, of False trans_demo_env True True None] l r by blast
qed

text \<open>
  C37. Aborting a tree: TransactionIdAbortTree returns when no member has committed, every
  member then is aborted in both logs and reported so by every routine, and nothing else
  changes.
\<close>

theorem abort_tree_outcome:
  assumes "TransactionIdIsNormal xid" "own_path (clog_env_of env) xid xs" "\<not> SS_STANDBY_MODE (clog_env_of env)"
    and "\<not> DMS_STANDBY (csn_env_of env)"
    and "\<not> (useLocalSnapshot (csn_env_of env) \<or> IsRoachStandbyCluster (csn_env_of env))"
    and "\<forall>x \<in> set (xid # xs). TransactionIdIsNormal x \<and> (\<exists>v. csn_entry (csn_pages_of logs) x = Some v \<and> \<not> COMMITSEQNO_IS_COMMITTED v)"
    and "\<forall>x \<in> set (xid # xs). \<exists>s. logs_status logs x = Some s \<and> allowed CLOG_XID_STATUS_ABORTED s"
    and "local_fetch env"
  shows "\<exists>logs'. TransactionIdAbortTree env xid xs logs = Inr logs' \<and>
     (\<forall>x \<in> set (xid # xs). settled logs' x CLOG_XID_STATUS_ABORTED \<and> seen_as env logs' x CLOG_XID_STATUS_ABORTED) \<and>
     (\<forall>x. x \<notin> set (xid # xs) \<longrightarrow> logs_status logs' x = logs_status logs x \<and>
        csn_entry (csn_pages_of logs') x = csn_entry (csn_pages_of logs) x)"
proof -
  obtain logs' where run: "TransactionIdAbortTree env xid xs logs = Inr logs'"
    and st: "\<And>x. logs_status logs' x = (if x \<in> set (xid # xs) then Some CLOG_XID_STATUS_ABORTED else logs_status logs x)"
    and e: "\<And>x. csn_entry (csn_pages_of logs') x =
      (if x \<in> set (xid # xs) then Some COMMITSEQNO_ABORTED else csn_entry (csn_pages_of logs) x)"
    using abort_runs [OF assms(1-7)] by blast
  have "settled logs' x CLOG_XID_STATUS_ABORTED" if "x \<in> set (xid # xs)" for x
    using that st e assms(6) aborted_final by (auto simp: settled_def)
  then show ?thesis using run st e settled_seen [OF assms(8)] by auto
qed

theorem abort_tree_outcome_witness:
  "\<exists>logs'. TransactionIdAbortTree trans_demo_env 100 [101] blank_logs = Inr logs' \<and>
     seen_as trans_demo_env logs' 101 CLOG_XID_STATUS_ABORTED"
proof -
  have lt: "x < 1024" "TransactionIdIsNormal x" if "x \<in> set [100, 101 :: TransactionId]" for x
    using that by (auto simp: word_less_nat_alt TransactionIdIsNormal_def special_xids word_le_nat_alt)
  have "\<forall>x \<in> set [100, 101]. \<exists>s. logs_status blank_logs x = Some s \<and> allowed CLOG_XID_STATUS_ABORTED s"
    using lt blank_logs_status by (auto simp: allowed_def)
  moreover have "\<forall>x \<in> set [100, 101]. TransactionIdIsNormal x \<and>
      (\<exists>v. csn_entry (csn_pages_of blank_logs) x = Some v \<and> \<not> COMMITSEQNO_IS_COMMITTED v)"
    using lt blank_logs_entry zero_not_aborted by auto
  ultimately show ?thesis
    using abort_tree_outcome [of 100 trans_demo_env "[101]" blank_logs] lt plain_own_path by auto
qed

end
