(* ===== verification/Heap_Hints.thy ===== *)
theory Heap_Hints
  imports Heap_MVCC_Model Trans_Log_Properties
begin

text \<open>
  The logic of the visibility checks: rules that follow the sequencing of a check, what it means
  that the hint bits of a tuple are truthful, and that the hint bits a check sets are.
\<close>

section \<open>Following a check\<close>

definition ok :: "'a vis \<Rightarrow> vis_state \<Rightarrow> ('a \<Rightarrow> vis_state \<Rightarrow> bool) \<Rightarrow> bool" where
  "ok m s P \<longleftrightarrow> (\<exists>x s'. m s = Some (Inr (x, s')) \<and> P x s')"

lemma ok_vret [simp]: "ok (vret x) s P \<longleftrightarrow> P x s"
  by (simp add: ok_def vret_def)

lemma ok_vraise [simp]: "\<not> ok (vraise e) s P"
  by (simp add: ok_def vraise_def)

lemma ok_vread [simp]: "ok (vread f) s P \<longleftrightarrow> ok (f s) s P"
  by (simp add: ok_def vread_def)

lemma ok_vmod [simp]: "ok (vmod f) s P \<longleftrightarrow> P () (f s)"
  by (simp add: ok_def vmod_def)

lemma ok_vbind [simp]: "ok (vbind m f) s P \<longleftrightarrow> ok m s (\<lambda>x s'. ok (f x) s' P)"
  by (auto simp: ok_def vbind_def split: option.splits sum.splits)

lemma ok_vthen [simp]: "ok (vthen m k) s P \<longleftrightarrow> ok m s (\<lambda>_ s'. ok k s' P)"
  by (simp add: vthen_def)

lemma ok_go_on [simp]:
  "ok (go_on m k) s P \<longleftrightarrow> ok m s (\<lambda>r s'. case r of Some x \<Rightarrow> P x s' | None \<Rightarrow> ok k s' P)"
  by (auto simp: go_on_def ok_def vbind_def vret_def split: option.splits sum.splits)

lemma ok_mono: "ok m s P \<Longrightarrow> (\<And>x s'. P x s' \<Longrightarrow> Q x s') \<Longrightarrow> ok m s Q"
  unfolding ok_def by blast

section \<open>Flags as bits\<close>

lemma has_power: "has m (2 ^ k) \<longleftrightarrow> bit m k"
  by (simp add: has_def and_exp_eq_0_iff_not_bit)

lemma flag_bits [tuple_simps]:
  "has m HEAP_COMBOCID \<longleftrightarrow> bit m 5" "has m HEAP_XMAX_EXCL_LOCK \<longleftrightarrow> bit m 6" "has m HEAP_XMAX_SHARED_LOCK \<longleftrightarrow> bit m 7"
  "has m HEAP_XMIN_COMMITTED \<longleftrightarrow> bit m 8" "has m HEAP_XMIN_INVALID \<longleftrightarrow> bit m 9" "has m HEAP_XMAX_COMMITTED \<longleftrightarrow> bit m 10"
  "has m HEAP_XMAX_INVALID \<longleftrightarrow> bit m 11" "has m HEAP_XMAX_IS_MULTI \<longleftrightarrow> bit m 12" "has m HEAP_XMAX_LOCK_ONLY \<longleftrightarrow> bit m 11"
  using has_power [of m 5] has_power [of m 6] has_power [of m 7] has_power [of m 8] has_power [of m 9]
    has_power [of m 10] has_power [of m 11] has_power [of m 12]
  by (simp_all add: HEAP_COMBOCID_def HEAP_XMAX_EXCL_LOCK_def HEAP_XMAX_SHARED_LOCK_def HEAP_XMIN_COMMITTED_def
      HEAP_XMIN_INVALID_def HEAP_XMAX_COMMITTED_def HEAP_XMAX_INVALID_def HEAP_XMAX_IS_MULTI_def HEAP_XMAX_LOCK_ONLY_def)

lemma flag_powers:
  "HEAP_XMAX_EXCL_LOCK = 2 ^ 6" "HEAP_XMAX_SHARED_LOCK = 2 ^ 7" "HEAP_XMIN_COMMITTED = 2 ^ 8" "HEAP_XMIN_INVALID = 2 ^ 9"
  "HEAP_XMAX_COMMITTED = 2 ^ 10" "HEAP_XMAX_INVALID = 2 ^ 11" "HEAP_XMAX_IS_MULTI = 2 ^ 12"
  by (simp_all add: HEAP_XMAX_EXCL_LOCK_def HEAP_XMAX_SHARED_LOCK_def HEAP_XMIN_COMMITTED_def
      HEAP_XMIN_INVALID_def HEAP_XMAX_COMMITTED_def HEAP_XMAX_INVALID_def HEAP_XMAX_IS_MULTI_def)

lemma bit_power16: "bit ((2 :: uint16) ^ k) n \<longleftrightarrow> n = k \<and> k < 16"
  by (auto simp: bit_exp_iff)

lemma flag_bit [simp]:
  "bit HEAP_XMAX_EXCL_LOCK n \<longleftrightarrow> n = 6" "bit HEAP_XMAX_SHARED_LOCK n \<longleftrightarrow> n = 7" "bit HEAP_XMIN_COMMITTED n \<longleftrightarrow> n = 8"
  "bit HEAP_XMIN_INVALID n \<longleftrightarrow> n = 9" "bit HEAP_XMAX_COMMITTED n \<longleftrightarrow> n = 10" "bit HEAP_XMAX_INVALID n \<longleftrightarrow> n = 11"
  "bit HEAP_XMAX_IS_MULTI n \<longleftrightarrow> n = 12"
  unfolding flag_powers bit_power16 by simp_all

lemma lock_mask_bit [simp]: "bit HEAP_LOCK_MASK n \<longleftrightarrow> n = 6 \<or> n = 7"
  by (auto simp: HEAP_LOCK_MASK_def HEAP_XMAX_KEYSHR_LOCK_def bit_or_iff)

text \<open>Masking two or three flags and comparing with one of them.\<close>

lemma mask_eq_flag:
  assumes "\<And>n. bit (A :: uint16) n \<longleftrightarrow> n \<in> P" "\<And>n. bit B n \<longleftrightarrow> n = q" "q \<in> P"
  shows "m AND A = B \<longleftrightarrow> bit m q \<and> (\<forall>p \<in> P - {q}. \<not> bit m p)"
proof
  assume e: "m AND A = B"
  have "bit m n \<and> n \<in> P \<longleftrightarrow> n = q" for n
    using arg_cong [OF e, of "\<lambda>w. bit w n"] assms(1,2) by (simp add: bit_and_iff)
  then show "bit m q \<and> (\<forall>p \<in> P - {q}. \<not> bit m p)" by blast
next
  assume "bit m q \<and> (\<forall>p \<in> P - {q}. \<not> bit m p)"
  then show "m AND A = B" using assms by (intro bit_eqI) (auto simp: bit_and_iff)
qed

lemma header_bits [tuple_simps]:
  "HeapTupleHeaderXminCommitted tup \<longleftrightarrow> bit (t_infomask tup) 8"
  "HeapTupleHeaderXminInvalid tup \<longleftrightarrow> bit (t_infomask tup) 9 \<and> \<not> bit (t_infomask tup) 8"
  "HeapTupleHeaderXminFrozen tup \<longleftrightarrow> bit (t_infomask tup) 9 \<and> bit (t_infomask tup) 8"
proof -
  show "HeapTupleHeaderXminCommitted tup \<longleftrightarrow> bit (t_infomask tup) 8"
    by (simp add: HeapTupleHeaderXminCommitted_def flag_bits)
  show "HeapTupleHeaderXminInvalid tup \<longleftrightarrow> bit (t_infomask tup) 9 \<and> \<not> bit (t_infomask tup) 8"
    using mask_eq_flag [of "HEAP_XMIN_COMMITTED OR HEAP_XMIN_INVALID" "{8, 9}" HEAP_XMIN_INVALID 9 "t_infomask tup"]
    by (simp add: HeapTupleHeaderXminInvalid_def bit_or_iff insert_Diff_if)
  have "m AND HEAP_XMIN_FROZEN = HEAP_XMIN_FROZEN \<longleftrightarrow> bit m 9 \<and> bit m 8" for m
  proof
    assume e: "m AND HEAP_XMIN_FROZEN = HEAP_XMIN_FROZEN"
    show "bit m 9 \<and> bit m 8"
      using arg_cong [OF e, of "\<lambda>w. bit w 9"] arg_cong [OF e, of "\<lambda>w. bit w 8"]
      by (simp add: bit_and_iff HEAP_XMIN_FROZEN_def bit_or_iff)
  next
    assume "bit m 9 \<and> bit m 8"
    then show "m AND HEAP_XMIN_FROZEN = HEAP_XMIN_FROZEN"
      by (intro bit_eqI) (auto simp: bit_and_iff HEAP_XMIN_FROZEN_def bit_or_iff)
  qed
  then show "HeapTupleHeaderXminFrozen tup \<longleftrightarrow> bit (t_infomask tup) 9 \<and> bit (t_infomask tup) 8"
    by (simp add: HeapTupleHeaderXminFrozen_def)
qed

lemma locked_only_bits:
  "locked_only tup \<longleftrightarrow> bit (t_infomask2 tup) 11 \<or> bit (t_infomask tup) 7 \<or>
     (bit (t_infomask tup) 6 \<and> \<not> bit (t_infomask tup) 12)"
proof -
  have "\<And>n. bit (HEAP_XMAX_IS_MULTI OR HEAP_LOCK_MASK) n \<longleftrightarrow> n \<in> {6, 7, 12}" by (auto simp: bit_or_iff)
  then show ?thesis
    using mask_eq_flag [of "HEAP_XMAX_IS_MULTI OR HEAP_LOCK_MASK" "{6, 7, 12}" HEAP_XMAX_EXCL_LOCK 6 "t_infomask tup"]
    by (auto simp: locked_only_def HEAP_XMAX_IS_LOCKED_ONLY_def flag_bits)
qed

section \<open>Truthful hint bits\<close>

text \<open>Who deleted or updated the tuple, whatever became of that transaction.\<close>

definition deleter :: "vis_env \<Rightarrow> HeapTupleHeaderData \<Rightarrow> TransactionId option" where
  "deleter env tup =
     (if locked_only tup then None
      else Some (if has (t_infomask tup) HEAP_XMAX_IS_MULTI then HeapTupleHeaderMultiXactGetUpdateXid env tup
                 else HeapTupleHeaderGetXmax env tup))"

definition committed :: "vis_env \<Rightarrow> vis_state \<Rightarrow> TransactionId \<Rightarrow> bool" where
  "committed env s x \<longleftrightarrow> did_commit (tenv env) (vlogs s) x"

definition finished_commit :: "vis_env \<Rightarrow> vis_state \<Rightarrow> TransactionId \<Rightarrow> bool" where
  "finished_commit env s x \<longleftrightarrow>
     \<not> TransactionIdIsCurrentTransactionId env x \<and> \<not> TransactionIdIsInProgress s x \<and> committed env s x"

definition finished_abort :: "vis_env \<Rightarrow> vis_state \<Rightarrow> TransactionId \<Rightarrow> bool" where
  "finished_abort env s x \<longleftrightarrow>
     \<not> TransactionIdIsCurrentTransactionId env x \<and> \<not> TransactionIdIsInProgress s x \<and> \<not> committed env s x"

text \<open>
  The hint bits tell the truth about the transactions of the tuple. A frozen tuple says nothing
  about its inserter. A tuple of the current transaction can only have been deleted by it or
  by one of its subtransactions that has aborted, as the code asserts.
\<close>

definition truthful :: "vis_env \<Rightarrow> vis_state \<Rightarrow> bool" where
  "truthful env s \<longleftrightarrow>
     (bit (t_infomask (hdr s)) 8 \<and> \<not> bit (t_infomask (hdr s)) 9 \<longrightarrow> finished_commit env s (xmin_of_tuple env s)) \<and>
     (bit (t_infomask (hdr s)) 9 \<and> \<not> bit (t_infomask (hdr s)) 8 \<longrightarrow> finished_abort env s (xmin_of_tuple env s)) \<and>
     (\<forall>d. deleter env (hdr s) = Some d \<longrightarrow>
        (bit (t_infomask (hdr s)) 11 \<longrightarrow> finished_abort env s d) \<and>
        (bit (t_infomask (hdr s)) 10 \<and> \<not> bit (t_infomask (hdr s)) 11 \<longrightarrow> finished_commit env s d) \<and>
        (TransactionIdIsCurrentTransactionId env (xmin_of_tuple env s) \<longrightarrow>
         TransactionIdIsCurrentTransactionId env d \<or> finished_abort env s d))"

text \<open>
  The cached sequence number is that of a finished transaction: the one in the log, or the frozen
  one when it was read below the horizon of some snapshot.
\<close>

definition csn_exact :: "trans_logs \<Rightarrow> fetch_cache \<Rightarrow> bool" where
  "csn_exact logs cache \<longleftrightarrow>
     cachedFetchCSNXid cache = InvalidTransactionId \<or>
     (\<exists>st. settled logs (cachedFetchCSNXid cache) st \<and> csn_final_for st (cachedFetchCSN cache) \<and>
        (cachedFetchCSN cache = COMMITSEQNO_FROZEN \<or>
         csn_entry (csn_pages_of logs) (cachedFetchCSNXid cache) = Some (cachedFetchCSN cache)))"

lemma csn_exact_same: "same_csn_cache c c' \<Longrightarrow> csn_exact logs c \<Longrightarrow> csn_exact logs c'"
  by (simp add: csn_exact_def same_csn_cache_def)

lemma csn_exact_init: "csn_exact logs knl_t_xact_init"
  by (simp add: csn_exact_def knl_t_xact_init_def)

text \<open>The logs can be read, and the caches agree with them.\<close>

definition sane :: "vis_env \<Rightarrow> vis_state \<Rightarrow> bool" where
  "sane env s \<longleftrightarrow> local_fetch (tenv env) \<and> ordered_parents (csn_pages_of (vlogs s)) \<and>
     coherent (clog_part (vlogs s)) (fcache s) \<and> csn_exact (vlogs s) (fcache s)"

definition known :: "vis_env \<Rightarrow> vis_state \<Rightarrow> TransactionId \<Rightarrow> bool" where
  "known env s x \<longleftrightarrow> TransactionIdIsValid x \<and> readable (tenv env) (vlogs s) x"

text \<open>
  A transaction that neither runs nor committed is marked aborted, or from before the last start of
  the server, when a crash may have left it unmarked.
\<close>

definition resolved :: "vis_env \<Rightarrow> vis_state \<Rightarrow> TransactionId \<Rightarrow> bool" where
  "resolved env s x \<longleftrightarrow>
     TransactionIdIsCurrentTransactionId env x \<or> TransactionIdIsInProgress s x \<or> committed env s x \<or>
     did_abort (tenv env) (vlogs s) x \<or> \<not> TransactionIdIsValid (startupMaxXid (tenv env)) \<or>
     x < startupMaxXid (tenv env)"

text \<open>Two states that differ in the caches and in hint bits that were added.\<close>

definition hinted :: "vis_state \<Rightarrow> vis_state \<Rightarrow> bool" where
  "hinted s s' \<longleftrightarrow>
     (\<exists>m. htup s' = (htup s)\<lparr>t_data := (hdr s)\<lparr>t_infomask := m\<rparr>\<rparr> \<and>
        (\<forall>n. n \<notin> {8, 9, 10, 11} \<longrightarrow> bit m n = bit (t_infomask (hdr s)) n) \<and>
        (\<forall>n. bit (t_infomask (hdr s)) n \<longrightarrow> bit m n)) \<and>
     vlogs s' = vlogs s \<and> TransactionIdIsInProgress s' = TransactionIdIsInProgress s \<and> needSync s' = needSync s"

lemma hinted_refl [simp]: "hinted s s"
  unfolding hinted_def by (intro conjI exI [of _ "t_infomask (hdr s)"]) simp_all

lemma hinted_trans: "hinted s t \<Longrightarrow> hinted t u \<Longrightarrow> hinted s u"
  unfolding hinted_def by (elim conjE exE, intro conjI) (auto intro!: exI)

lemma hinted_header:
  assumes "hinted s s'"
  shows "bit (t_infomask (hdr s')) 5 = bit (t_infomask (hdr s)) 5" "bit (t_infomask (hdr s')) 6 = bit (t_infomask (hdr s)) 6"
    "bit (t_infomask (hdr s')) 7 = bit (t_infomask (hdr s)) 7" "bit (t_infomask (hdr s')) 12 = bit (t_infomask (hdr s)) 12"
    "t_xmin (hdr s') = t_xmin (hdr s)" "t_xmax (hdr s') = t_xmax (hdr s)" "t_cid (hdr s') = t_cid (hdr s)"
    "t_infomask2 (hdr s') = t_infomask2 (hdr s)" "t_ctid (hdr s') = t_ctid (hdr s)" "t_self (htup s') = t_self (htup s)"
    "vlogs s' = vlogs s" "TransactionIdIsInProgress s' = TransactionIdIsInProgress s" "needSync s' = needSync s"
    "bit (t_infomask (hdr s)) n \<Longrightarrow> bit (t_infomask (hdr s')) n"
  using assms by (auto simp: hinted_def)

lemma hinted_simps:
  assumes "hinted s s'"
  shows "xmin_of_tuple env s' = xmin_of_tuple env s" "xmax_of_tuple env s' = xmax_of_tuple env s"
    "locked_only (hdr s') = locked_only (hdr s)" "HeapTupleHeaderGetCmin env (hdr s') = HeapTupleHeaderGetCmin env (hdr s)"
    "HeapTupleHeaderGetCmax env (hdr s') = HeapTupleHeaderGetCmax env (hdr s)"
    "updated_or_deleted (htup s') = updated_or_deleted (htup s)"
    "committed env s' x = committed env s x" "finished_commit env s' x = finished_commit env s x"
    "finished_abort env s' x = finished_abort env s x" "known env s' x = known env s x" "resolved env s' x = resolved env s x"
  using hinted_header [OF assms]
  by (simp_all add: HeapTupleHeaderGetXmin_def HeapTupleHeaderGetXmax_def locked_only_bits HeapTupleHeaderGetCmin_def
      HeapTupleHeaderGetCmax_def updated_or_deleted_def committed_def finished_commit_def finished_abort_def known_def
      resolved_def flag_bits)

lemma hinted_update_xid:
  assumes "hinted s s'" "local_fetch (tenv env)"
  shows "HeapTupleHeaderMultiXactGetUpdateXid env (hdr s') = HeapTupleHeaderMultiXactGetUpdateXid env (hdr s)"
    "deleter env (hdr s') = deleter env (hdr s)"
  using hinted_header [OF assms(1)] hinted_simps(2) [OF assms(1), of env] hinted_simps(3) [OF assms(1)] assms(2)
  by (auto simp: deleter_def flag_bits HeapTupleHeaderMultiXactGetUpdateXid_def MultiXactIdGetUpdateXid_def
      HeapTupleHeaderGetRawXmax_def local_fetch_def)

end
