(* ===== verification/Heap_Visibility.thy ===== *)
theory Heap_Visibility
  imports Heap_Hints
begin

text \<open>
  The visibility checks without a snapshot compute what the outcomes of the transactions say,
  whatever hint bits the tuple has, and leave truthful hint bits.
\<close>

section \<open>Rules for the steps of a check\<close>

definition inv :: "vis_env \<Rightarrow> vis_state \<Rightarrow> vis_state \<Rightarrow> bool" where
  "inv env s0 s \<longleftrightarrow> hinted s0 s \<and> truthful env s \<and> sane env s"

lemma inv_start: "truthful env s \<Longrightarrow> sane env s \<Longrightarrow> inv env s s"
  by (simp add: inv_def)

lemma hinted_fcache [simp]: "hinted s0 (s\<lparr>fcache := c\<rparr>) = hinted s0 s"
  by (simp add: hinted_def)

lemma truthful_fcache [simp]: "truthful env (s\<lparr>fcache := c\<rparr>) = truthful env s"
  by (simp add: truthful_def finished_commit_def finished_abort_def committed_def)

lemma inv_simps:
  assumes "inv env s0 s"
  shows "xmin_of_tuple env s = xmin_of_tuple env s0" "xmax_of_tuple env s = xmax_of_tuple env s0"
    "locked_only (hdr s) = locked_only (hdr s0)" "HeapTupleHeaderGetCmin env (hdr s) = HeapTupleHeaderGetCmin env (hdr s0)"
    "HeapTupleHeaderGetCmax env (hdr s) = HeapTupleHeaderGetCmax env (hdr s0)"
    "updated_or_deleted (htup s) = updated_or_deleted (htup s0)"
    "HeapTupleHeaderMultiXactGetUpdateXid env (hdr s) = HeapTupleHeaderMultiXactGetUpdateXid env (hdr s0)"
    "deleter env (hdr s) = deleter env (hdr s0)" "bit (t_infomask (hdr s)) 12 = bit (t_infomask (hdr s0)) 12"
    "bit (t_infomask (hdr s)) 5 = bit (t_infomask (hdr s0)) 5" "bit (t_infomask (hdr s)) 7 = bit (t_infomask (hdr s0)) 7"
    "TransactionIdIsInProgress s = TransactionIdIsInProgress s0" "needSync s = needSync s0" "vlogs s = vlogs s0"
proof -
  have h: "hinted s0 s" and l: "local_fetch (tenv env)" using assms by (auto simp: inv_def sane_def)
  show "xmin_of_tuple env s = xmin_of_tuple env s0" "xmax_of_tuple env s = xmax_of_tuple env s0"
    "locked_only (hdr s) = locked_only (hdr s0)" "HeapTupleHeaderGetCmin env (hdr s) = HeapTupleHeaderGetCmin env (hdr s0)"
    "HeapTupleHeaderGetCmax env (hdr s) = HeapTupleHeaderGetCmax env (hdr s0)"
    "updated_or_deleted (htup s) = updated_or_deleted (htup s0)"
    "HeapTupleHeaderMultiXactGetUpdateXid env (hdr s) = HeapTupleHeaderMultiXactGetUpdateXid env (hdr s0)"
    "deleter env (hdr s) = deleter env (hdr s0)" "bit (t_infomask (hdr s)) 12 = bit (t_infomask (hdr s0)) 12"
    "bit (t_infomask (hdr s)) 5 = bit (t_infomask (hdr s0)) 5" "bit (t_infomask (hdr s)) 7 = bit (t_infomask (hdr s0)) 7"
    "TransactionIdIsInProgress s = TransactionIdIsInProgress s0" "needSync s = needSync s0" "vlogs s = vlogs s0"
    by (rule hinted_simps [OF h] hinted_update_xid [OF h l] hinted_header [OF h])+
qed

lemma did_abort_latest:
  assumes "did_abort env logs x" "ordered_parents (csn_pages_of logs)" "readable env logs x"
    and "coherent (clog_part logs) cache" "TransactionIdIsValid x" "local_fetch env"
    and "TransactionIdDidCommit env logs x cache = Some (Inr (b, c))"
  shows "LatestFetchTransactionIdDidAbort env x c"
proof -
  have "latestFetchXid c = x \<longrightarrow> Some (latestFetchXidStatus c) = xact_status logs x"
    using walk_latest [OF DidCommit_step [OF assms(6)] assms(2-5,7)] by blast
  moreover have "xact_status logs x = Some CLOG_XID_STATUS_ABORTED \<or> xact_status logs x = Some CLOG_XID_STATUS_SUB_COMMITTED"
    using assms(1) by (cases rule: did_abort.cases) auto
  ultimately show ?thesis by (auto simp: LatestFetchTransactionIdDidAbort_def)
qed

lemma before_startup:
  "\<not> TransactionIdIsValid (startupMaxXid env) \<or> x < startupMaxXid env \<Longrightarrow> LatestFetchTransactionIdDidAbort env x c"
  by (simp add: LatestFetchTransactionIdDidAbort_def TransactionIdPrecedes_def)

lemma ok_DidCommit:
  assumes i: "inv env s0 s" and k: "known env s0 x"
    and P: "\<And>c. inv env s0 (s\<lparr>fcache := c\<rparr>) \<Longrightarrow>
      (resolved env s0 x \<and> finished_abort env s0 x \<longrightarrow> LatestFetchTransactionIdDidAbort (tenv env) x c) \<Longrightarrow>
      P (committed env s0 x) (s\<lparr>fcache := c\<rparr>)"
  shows "ok (DidCommit env x) s P"
proof -
  have w: "vlogs s = vlogs s0" using inv_simps [OF i] by simp
  have sn: "local_fetch (tenv env)" "ordered_parents (csn_pages_of (vlogs s0))" "coherent (clog_part (vlogs s0)) (fcache s)"
    "csn_exact (vlogs s0) (fcache s)"
    using i w by (auto simp: inv_def sane_def)
  have kn: "readable (tenv env) (vlogs s0) x" "TransactionIdIsValid x" using k by (auto simp: known_def)
  obtain c where c: "TransactionIdDidCommit (tenv env) (vlogs s0) x (fcache s) = Some (Inr (did_commit (tenv env) (vlogs s0) x, c))"
    "coherent (clog_part (vlogs s0)) c" "same_csn_cache (fcache s) c"
    using walk_decides [OF DidCommit_step [OF sn(1)] sn(2) kn(1) sn(3) kn(2)] by auto
  have "inv env s0 (s\<lparr>fcache := c\<rparr>)" using i c(2) csn_exact_same [OF c(3) sn(4)] w by (simp add: inv_def sane_def)
  moreover have "LatestFetchTransactionIdDidAbort (tenv env) x c" if "resolved env s0 x" "finished_abort env s0 x"
    using that did_abort_latest [OF _ sn(2) kn(1) sn(3) kn(2) sn(1) c(1)] before_startup [of "tenv env" x c]
    unfolding resolved_def finished_abort_def by blast
  ultimately have "P (committed env s0 x) (s\<lparr>fcache := c\<rparr>)" using P by blast
  then show ?thesis using c(1) w by (simp add: ok_def DidCommit_def fetch_vis_def committed_def)
qed

lemma infomask_set [simp]:
  "bit (t_infomask (hdr (set_infomask h s))) n \<longleftrightarrow> bit (t_infomask (hdr s)) n \<or> bit h n"
  by (simp add: set_infomask_def bit_or_iff)

lemma hinted_set:
  assumes "hinted s0 s" "\<And>n. bit h n \<Longrightarrow> n \<in> {8, 9, 10, 11}"
  shows "hinted s0 (set_infomask h s)"
proof -
  have "hinted s (set_infomask h s)"
    unfolding hinted_def
    by (intro conjI exI [of _ "t_infomask (hdr s) OR h"]) (use assms(2) in \<open>auto simp: set_infomask_def bit_or_iff\<close>)
  then show ?thesis using assms(1) hinted_trans by blast
qed

lemma truthful_set:
  assumes t: "truthful env s" "local_fetch (tenv env)" and h: "\<And>n. bit h n \<Longrightarrow> n \<in> {8, 9, 10, 11}"
    and "bit h 8 \<Longrightarrow> \<not> bit h 9 \<and> \<not> bit (t_infomask (hdr s)) 9 \<and> finished_commit env s (xmin_of_tuple env s)"
    and "bit h 9 \<Longrightarrow> \<not> bit h 8 \<and> \<not> bit (t_infomask (hdr s)) 8 \<and> finished_abort env s (xmin_of_tuple env s)"
    and "\<And>d. deleter env (hdr s) = Some d \<Longrightarrow> bit h 11 \<Longrightarrow> finished_abort env s d"
    and "\<And>d. deleter env (hdr s) = Some d \<Longrightarrow> bit h 10 \<Longrightarrow> \<not> bit (t_infomask (hdr s)) 11 \<Longrightarrow> finished_commit env s d"
  shows "truthful env (set_infomask h s)"
proof -
  have hi: "hinted s (set_infomask h s)" by (rule hinted_set [OF hinted_refl h])
  note eq = hinted_simps [OF hi] hinted_update_xid [OF hi t(2)]
  have d: "finished_abort env s d \<Longrightarrow> finished_commit env s d \<Longrightarrow> False" for d
    by (simp add: finished_abort_def finished_commit_def)
  show ?thesis
    using t(1) assms(4-7) unfolding truthful_def eq infomask_set by blast
qed

lemma commit_lsn_reads:
  assumes "known env s x"
  shows "\<exists>lsn. TransactionIdGetCommitLSN (vlogs s) x c = Inr lsn"
proof (cases "TransactionIdIsNormal x")
  case True
  then obtain st where "clog_status (slru (clog_part (vlogs s))) x = Some st"
    using assms by (auto simp: known_def readable_def)
  then obtain lsn where "CLogGetStatus (slru (clog_part (vlogs s))) x = Inr (st, lsn)" using clog_read by blast
  then show ?thesis by (simp add: TransactionIdGetCommitLSN_def)
qed (simp add: TransactionIdGetCommitLSN_def)

lemma ok_SetHintBits:
  assumes i: "inv env s0 s" and k: "TransactionIdIsValid x \<longrightarrow> known env s0 x"
    and h: "\<And>n. bit h n \<Longrightarrow> n \<in> {8, 9, 10, 11}" and t: "truthful env (set_infomask h s)"
    and P: "\<And>s'. inv env s0 s' \<Longrightarrow> P () s'"
  shows "ok (SetHintBits env h x) s P"
proof -
  have "inv env s0 (set_infomask h s)"
    using i t hinted_set [OF _ h] by (auto simp: inv_def sane_def set_infomask_def)
  then have p: "P () s" "P () (set_infomask h s)" using P i by auto
  have "\<exists>lsn. TransactionIdGetCommitLSN (vlogs s) x (fcache s) = Inr lsn" if "TransactionIdIsValid x"
    using k that commit_lsn_reads inv_simps(14) [OF i] by simp
  then show ?thesis using p by (auto simp: SetHintBits_def ok_def Let_def split: sum.splits)
qed

lemma ok_check_latest [simp]:
  "ok (check_latest_abort env x) s P \<longleftrightarrow> LatestFetchTransactionIdDidAbort (tenv env) x (fcache s) \<and> P () s"
  by (simp add: check_latest_abort_def ok_def)

text \<open>The hints on the inserting transaction.\<close>

lemma ok_xmin_hint:
  assumes i: "inv env s0 s" and b: "\<not> bit (t_infomask (hdr s)) 8" "\<not> bit (t_infomask (hdr s)) 9"
    and h: "h = HEAP_XMIN_COMMITTED \<and> x = xmin_of_tuple env s0 \<and> known env s0 x \<and> finished_commit env s0 x \<or>
      h = HEAP_XMIN_INVALID \<and> x = InvalidTransactionId \<and> finished_abort env s0 (xmin_of_tuple env s0)"
    and P: "\<And>s'. inv env s0 s' \<Longrightarrow> P () s'"
  shows "ok (SetHintBits env h x) s P"
proof (rule ok_SetHintBits [OF i])
  note eq = inv_simps [OF i]
  have sane: "truthful env s" "local_fetch (tenv env)" using i by (auto simp: inv_def sane_def)
  show "TransactionIdIsValid x \<longrightarrow> known env s0 x" using h by (auto simp: TransactionIdIsValid_def)
  show hb: "n \<in> {8, 9, 10, 11}" if "bit h n" for n using that h by auto
  have fc: "finished_commit env s y = finished_commit env s0 y" "finished_abort env s y = finished_abort env s0 y" for y
    using i hinted_simps by (auto simp: inv_def)
  show "truthful env (set_infomask h s)" by (rule truthful_set [OF sane hb]) (use h b fc eq in auto)
qed (use P in blast)

text \<open>The hints on the deleting transaction.\<close>

lemma ok_xmax_invalid:
  assumes i: "inv env s0 s" and d: "\<And>d. deleter env (hdr s0) = Some d \<Longrightarrow> finished_abort env s0 d"
    and P: "\<And>s'. inv env s0 s' \<Longrightarrow> P () s'"
  shows "ok (SetHintBits env HEAP_XMAX_INVALID InvalidTransactionId) s P"
proof (rule ok_SetHintBits [OF i])
  note eq = inv_simps [OF i]
  have sane: "truthful env s" "local_fetch (tenv env)" using i by (auto simp: inv_def sane_def)
  have "finished_abort env s y = finished_abort env s0 y" for y using i hinted_simps by (auto simp: inv_def)
  then show "truthful env (set_infomask HEAP_XMAX_INVALID s)"
    by (intro truthful_set [OF sane]) (use d eq in auto)
qed (use P in \<open>auto simp: TransactionIdIsValid_def\<close>)

lemma ok_xmax_committed:
  assumes i: "inv env s0 s" and d: "deleter env (hdr s0) = Some x" "known env s0 x" "finished_commit env s0 x"
    and P: "\<And>s'. inv env s0 s' \<Longrightarrow> P () s'"
  shows "ok (SetHintBits env HEAP_XMAX_COMMITTED x) s P"
proof (rule ok_SetHintBits [OF i])
  note eq = inv_simps [OF i]
  have sane: "truthful env s" "local_fetch (tenv env)" using i by (auto simp: inv_def sane_def)
  have e: "finished_commit env s y = finished_commit env s0 y" for y using i hinted_simps by (auto simp: inv_def)
  show "truthful env (set_infomask HEAP_XMAX_COMMITTED s)" by (rule truthful_set [OF sane]) (use d e eq in auto)
qed (use d P in auto)

text \<open>The two endings the checks share.\<close>

lemma ok_xmin_finished:
  assumes i: "inv env s0 s" and k: "known env s0 (xmin_of_tuple env s0)" "resolved env s0 (xmin_of_tuple env s0)"
    and n: "\<not> TransactionIdIsCurrentTransactionId env (xmin_of_tuple env s0)"
      "\<not> TransactionIdIsInProgress s0 (xmin_of_tuple env s0)"
    and b: "\<not> bit (t_infomask (hdr s)) 8" "\<not> bit (t_infomask (hdr s)) 9"
    and P: "\<And>s'. inv env s0 s' \<Longrightarrow> P (if committed env s0 (xmin_of_tuple env s0) then None else Some r) s'"
  shows "ok (xmin_finished env (xmin_of_tuple env s0) r) s P"
proof -
  have fa: "\<not> committed env s0 (xmin_of_tuple env s0) \<Longrightarrow> finished_abort env s0 (xmin_of_tuple env s0)"
    using n by (simp add: finished_abort_def)
  show ?thesis
    unfolding xmin_finished_def ok_vbind
  proof (rule ok_DidCommit [OF i k(1)])
    fix c assume c: "inv env s0 (s\<lparr>fcache := c\<rparr>)"
      and l: "resolved env s0 (xmin_of_tuple env s0) \<and> finished_abort env s0 (xmin_of_tuple env s0) \<longrightarrow>
        LatestFetchTransactionIdDidAbort (tenv env) (xmin_of_tuple env s0) c"
    show "ok (if committed env s0 (xmin_of_tuple env s0)
              then vthen (SetHintBits env HEAP_XMIN_COMMITTED (xmin_of_tuple env s0)) (vret None)
              else vthen (check_latest_abort env (xmin_of_tuple env s0))
                     (vthen (SetHintBits env HEAP_XMIN_INVALID InvalidTransactionId) (vret (Some r))))
            (s\<lparr>fcache := c\<rparr>) P"
    proof (cases "committed env s0 (xmin_of_tuple env s0)")
      case True
      have "ok (SetHintBits env HEAP_XMIN_COMMITTED (xmin_of_tuple env s0)) (s\<lparr>fcache := c\<rparr>) (\<lambda>_ s'. P None s')"
        by (rule ok_xmin_hint [OF c]) (use True P b n k in \<open>auto simp: finished_commit_def\<close>)
      then show ?thesis using True by simp
    next
      case False
      have "ok (SetHintBits env HEAP_XMIN_INVALID InvalidTransactionId) (s\<lparr>fcache := c\<rparr>) (\<lambda>_ s'. P (Some r) s')"
        by (rule ok_xmin_hint [OF c]) (use False P b fa in auto)
      then show ?thesis using False fa l k(2) by simp
    qed
  qed
qed

lemma ok_xmax_finished:
  assumes i: "inv env s0 s" and k: "known env s0 (xmax_of_tuple env s0)" "resolved env s0 (xmax_of_tuple env s0)"
    and n: "\<not> TransactionIdIsCurrentTransactionId env (xmax_of_tuple env s0)"
      "\<not> TransactionIdIsInProgress s0 (xmax_of_tuple env s0)"
    and d: "\<not> locked_only (hdr s0) \<Longrightarrow> deleter env (hdr s0) = Some (xmax_of_tuple env s0)"
    and P: "\<And>s'. inv env s0 s' \<Longrightarrow>
      P (if committed env s0 (xmax_of_tuple env s0) \<and> \<not> locked_only (hdr s0) then dead else live) s'"
  shows "ok (xmax_finished env (xmax_of_tuple env s0) live dead) s P"
  unfolding xmax_finished_def ok_vbind
proof (rule ok_DidCommit [OF i k(1)])
  fix c assume c: "inv env s0 (s\<lparr>fcache := c\<rparr>)"
    and l: "resolved env s0 (xmax_of_tuple env s0) \<and> finished_abort env s0 (xmax_of_tuple env s0) \<longrightarrow>
      LatestFetchTransactionIdDidAbort (tenv env) (xmax_of_tuple env s0) c"
  note eq = inv_simps [OF c]
  have lk: "deleter env (hdr s0) = None" if "locked_only (hdr s0)" using that by (simp add: deleter_def)
  show "ok (if \<not> committed env s0 (xmax_of_tuple env s0)
            then vthen (check_latest_abort env (xmax_of_tuple env s0))
                   (vthen (SetHintBits env HEAP_XMAX_INVALID InvalidTransactionId) (vret live))
            else vread (\<lambda>s. if locked_only (hdr s)
              then vthen (SetHintBits env HEAP_XMAX_INVALID InvalidTransactionId) (vret live)
              else vthen (SetHintBits env HEAP_XMAX_COMMITTED (xmax_of_tuple env s0)) (vret dead)))
          (s\<lparr>fcache := c\<rparr>) P"
  proof (cases "committed env s0 (xmax_of_tuple env s0)")
    case False
    then have fa: "finished_abort env s0 (xmax_of_tuple env s0)" using n by (simp add: finished_abort_def)
    have "ok (SetHintBits env HEAP_XMAX_INVALID InvalidTransactionId) (s\<lparr>fcache := c\<rparr>) (\<lambda>_ s'. P live s')"
      by (rule ok_xmax_invalid [OF c]) (use fa d lk P False in \<open>auto split: if_splits\<close>)
    then show ?thesis using False l k(2) fa by simp
  next
    case True
    show ?thesis
    proof (cases "locked_only (hdr s0)")
      case lock: True
      have "ok (SetHintBits env HEAP_XMAX_INVALID InvalidTransactionId) (s\<lparr>fcache := c\<rparr>) (\<lambda>_ s'. P live s')"
        by (rule ok_xmax_invalid [OF c]) (use lk lock P in auto)
      then show ?thesis using True lock eq by simp
    next
      case False
      have fc: "finished_commit env s0 (xmax_of_tuple env s0)" using True n by (simp add: finished_commit_def)
      have "ok (SetHintBits env HEAP_XMAX_COMMITTED (xmax_of_tuple env s0)) (s\<lparr>fcache := c\<rparr>) (\<lambda>_ s'. P dead s')"
        using ok_xmax_committed [OF c d [OF False] k(1) fc] P True False by simp
      then show ?thesis using True False eq by simp
    qed
  qed
qed

end
