(* ===== verification/Heap_Visibility_Properties.thy ===== *)
theory Heap_Visibility_Properties
  imports Heap_Visibility
begin

text \<open>
  What the checks without a snapshot compute, in terms of the outcomes of the transactions of the
  tuple.
\<close>

section \<open>Specifications\<close>

text \<open>The insertion is visible now: it is frozen, or of the current or a committed transaction.\<close>

definition inserted :: "vis_env \<Rightarrow> vis_state \<Rightarrow> bool" where
  "inserted env s \<longleftrightarrow> HeapTupleHeaderXminFrozen (hdr s) \<or>
     TransactionIdIsCurrentTransactionId env (xmin_of_tuple env s) \<or>
     (\<not> TransactionIdIsInProgress s (xmin_of_tuple env s) \<and> committed env s (xmin_of_tuple env s))"

definition deletes_now :: "vis_env \<Rightarrow> vis_state \<Rightarrow> TransactionId \<Rightarrow> bool" where
  "deletes_now env s d \<longleftrightarrow> TransactionIdIsCurrentTransactionId env d \<or>
     (\<not> TransactionIdIsInProgress s d \<and> committed env s d)"

definition deleted :: "vis_env \<Rightarrow> vis_state \<Rightarrow> bool" where
  "deleted env s \<longleftrightarrow> (\<exists>d. deleter env (hdr s) = Some d \<and> deletes_now env s d)"

text \<open>What the checks may ask the logs about.\<close>

definition tuple_known :: "vis_env \<Rightarrow> vis_state \<Rightarrow> bool" where
  "tuple_known env s \<longleftrightarrow>
     (\<not> HeapTupleHeaderXminFrozen (hdr s) \<longrightarrow>
        known env s (xmin_of_tuple env s) \<and> resolved env s (xmin_of_tuple env s)) \<and>
     (\<not> bit (t_infomask (hdr s)) 11 \<longrightarrow>
        (if bit (t_infomask (hdr s)) 12
         then \<not> locked_only (hdr s) \<longrightarrow> known env s (HeapTupleHeaderMultiXactGetUpdateXid env (hdr s))
         else known env s (xmax_of_tuple env s) \<and> resolved env s (xmax_of_tuple env s)))"

definition ready :: "vis_env \<Rightarrow> vis_state \<Rightarrow> bool" where
  "ready env s \<longleftrightarrow> truthful env s \<and> sane env s \<and> tuple_known env s"

lemma ready_inv: "ready env s \<Longrightarrow> inv env s s"
  by (simp add: ready_def inv_start)

lemma deleter_cases:
  "deleter env tup = (if locked_only tup then None else Some (if bit (t_infomask tup) 12
     then HeapTupleHeaderMultiXactGetUpdateXid env tup else HeapTupleHeaderGetXmax env tup))"
  by (simp add: deleter_def flag_bits)

text \<open>The hint bits of a state on the way, read as facts.\<close>

lemma inv_hints:
  assumes "inv env s0 s"
  shows "bit (t_infomask (hdr s)) 11 \<Longrightarrow> deleter env (hdr s0) = Some d \<Longrightarrow> finished_abort env s0 d"
    and "bit (t_infomask (hdr s)) 10 \<Longrightarrow> \<not> bit (t_infomask (hdr s)) 11 \<Longrightarrow> deleter env (hdr s0) = Some d \<Longrightarrow> finished_commit env s0 d"
    and "\<not> bit (t_infomask (hdr s)) 11 \<Longrightarrow> \<not> bit (t_infomask (hdr s0)) 11"
proof -
  have h: "hinted s0 s" and t: "truthful env s" using assms by (auto simp: inv_def)
  note e = inv_simps(8) [OF assms] hinted_simps(8,9) [OF h]
  show "bit (t_infomask (hdr s)) 11 \<Longrightarrow> deleter env (hdr s0) = Some d \<Longrightarrow> finished_abort env s0 d"
    using t unfolding truthful_def e by blast
  show "bit (t_infomask (hdr s)) 10 \<Longrightarrow> \<not> bit (t_infomask (hdr s)) 11 \<Longrightarrow> deleter env (hdr s0) = Some d \<Longrightarrow> finished_commit env s0 d"
    using t unfolding truthful_def e by blast
  show "\<not> bit (t_infomask (hdr s)) 11 \<Longrightarrow> \<not> bit (t_infomask (hdr s0)) 11"
    using hinted_header(14) [OF h] by blast
qed

lemma xmax_facts:
  assumes r: "ready env s0" and i: "inv env s0 s"
  shows "bit (t_infomask (hdr s)) 11 \<Longrightarrow> \<not> deleted env s0"
    and "\<not> bit (t_infomask (hdr s)) 11 \<Longrightarrow> bit (t_infomask (hdr s)) 10 \<Longrightarrow> deleted env s0 \<longleftrightarrow> \<not> locked_only (hdr s0)"
    and "\<not> bit (t_infomask (hdr s)) 11 \<Longrightarrow> bit (t_infomask (hdr s0)) 12 \<Longrightarrow> \<not> locked_only (hdr s0) \<Longrightarrow>
      known env s0 (HeapTupleHeaderMultiXactGetUpdateXid env (hdr s0))"
    and "\<not> bit (t_infomask (hdr s)) 11 \<Longrightarrow> \<not> bit (t_infomask (hdr s0)) 12 \<Longrightarrow>
      known env s0 (xmax_of_tuple env s0) \<and> resolved env s0 (xmax_of_tuple env s0)"
proof -
  show "bit (t_infomask (hdr s)) 11 \<Longrightarrow> \<not> deleted env s0"
    using inv_hints(1) [OF i] by (auto simp: deleted_def deletes_now_def finished_abort_def)
  show "\<not> bit (t_infomask (hdr s)) 11 \<Longrightarrow> bit (t_infomask (hdr s)) 10 \<Longrightarrow> deleted env s0 \<longleftrightarrow> \<not> locked_only (hdr s0)"
    using inv_hints(2) [OF i] by (auto simp: deleted_def deletes_now_def finished_commit_def deleter_cases)
qed (use r inv_hints(3) [OF i] in \<open>auto simp: ready_def tuple_known_def\<close>)

section \<open>The parts of the checks\<close>

lemma Deal_ok:
  assumes r: "ready env s" and cur: "TransactionIdIsCurrentTransactionId env (xmin_of_tuple env s)"
  shows "ok (DealCurrentTansactionNotCommited env) s (\<lambda>b s'. b = (\<not> deleted env s) \<and> inv env s s')"
proof -
  note i = ready_inv [OF r]
  note X = xmax_facts [OF r i]
  have own: "TransactionIdIsCurrentTransactionId env d \<or> finished_abort env s d" if "deleter env (hdr s) = Some d" for d
    using r cur that by (auto simp: ready_def truthful_def)
  have del: "deleted env s \<longleftrightarrow> (\<exists>d. deleter env (hdr s) = Some d \<and> TransactionIdIsCurrentTransactionId env d)"
    using own by (auto simp: deleted_def deletes_now_def finished_abort_def)
  have "ok (SetHintBits env HEAP_XMAX_INVALID InvalidTransactionId) s (\<lambda>_ s'. inv env s s')"
    if "\<not> TransactionIdIsCurrentTransactionId env (xmax_of_tuple env s)" "\<not> locked_only (hdr s)" "\<not> bit (t_infomask (hdr s)) 12"
    by (rule ok_xmax_invalid [OF i]) (use own that in \<open>auto simp: deleter_cases\<close>)
  then show ?thesis
    using X i del by (auto simp: DealCurrentTansactionNotCommited_def flag_bits deleter_cases elim!: ok_mono)
qed

lemma xmin_cases:
  assumes r: "ready env s" and b: "\<not> bit (t_infomask (hdr s)) 8"
  shows "bit (t_infomask (hdr s)) 9 \<Longrightarrow> \<not> inserted env s"
    and "known env s (xmin_of_tuple env s)" "resolved env s (xmin_of_tuple env s)"
    and "\<not> bit (t_infomask (hdr s)) 9 \<Longrightarrow> inserted env s \<longleftrightarrow> deletes_now env s (xmin_of_tuple env s)"
  using r b by (auto simp: ready_def truthful_def inserted_def finished_abort_def tuple_known_def header_bits deletes_now_def)

lemma xmin_committed:
  assumes r: "ready env s" and b: "bit (t_infomask (hdr s)) 8"
  shows "inserted env s"
    and "HeapTupleHeaderXminFrozen (hdr s) \<or> \<not> TransactionIdIsCurrentTransactionId env (xmin_of_tuple env s)"
  using r b by (auto simp: ready_def truthful_def inserted_def finished_commit_def header_bits)

lemma xmin_finished_ok:
  assumes r: "ready env s" and b: "\<not> bit (t_infomask (hdr s)) 8" "\<not> bit (t_infomask (hdr s)) 9"
    and n: "\<not> TransactionIdIsCurrentTransactionId env (xmin_of_tuple env s)" "\<not> TransactionIdIsInProgress s (xmin_of_tuple env s)"
    and P: "\<And>s'. inv env s s' \<Longrightarrow> P (if inserted env s then None else Some a) s'"
  shows "ok (xmin_finished env (xmin_of_tuple env s) a) s P"
proof (rule ok_xmin_finished [OF ready_inv [OF r] xmin_cases(2,3) [OF r b(1)] n b])
  fix s' assume "inv env s s'"
  moreover have "committed env s (xmin_of_tuple env s) = inserted env s"
    using xmin_cases(4) [OF r b] n by (simp add: deletes_now_def)
  ultimately show "P (if committed env s (xmin_of_tuple env s) then None else Some a) s'" using P by auto
qed

text \<open>The inserting transaction decides, or it is visible and not the current one.\<close>

lemma Self_xmin_ok:
  assumes r: "ready env s"
  shows "ok (Self_xmin env) s (\<lambda>d s'. inv env s s' \<and> (case d of
      Some b \<Rightarrow> b = (inserted env s \<and> \<not> deleted env s) | None \<Rightarrow> inserted env s))"
proof -
  let ?x = "xmin_of_tuple env s"
  note i = ready_inv [OF r]
  show ?thesis
  proof (cases "bit (t_infomask (hdr s)) 8")
    case True
    then show ?thesis using xmin_committed [OF r] i by (simp add: Self_xmin_def header_bits Let_def)
  next
    case b8: False
    note M = xmin_cases [OF r b8]
    consider "bit (t_infomask (hdr s)) 9"
      | "\<not> bit (t_infomask (hdr s)) 9" "TransactionIdIsCurrentTransactionId env ?x"
      | "\<not> bit (t_infomask (hdr s)) 9" "\<not> TransactionIdIsCurrentTransactionId env ?x" "TransactionIdIsInProgress s ?x"
      | "\<not> bit (t_infomask (hdr s)) 9" "\<not> TransactionIdIsCurrentTransactionId env ?x" "\<not> TransactionIdIsInProgress s ?x"
      by blast
    then show ?thesis
    proof cases
      case 2
      then show ?thesis using Deal_ok [OF r] M(4) b8
        by (auto simp: Self_xmin_def header_bits Let_def deletes_now_def elim!: ok_mono)
    next
      case 4
      have "ok (xmin_finished env ?x False) s (\<lambda>d s'. inv env s s' \<and> (case d of
          Some b \<Rightarrow> b = (inserted env s \<and> \<not> deleted env s) | None \<Rightarrow> inserted env s))"
        by (rule xmin_finished_ok [OF r b8 4]) auto
      then show ?thesis using 4 b8 by (simp add: Self_xmin_def header_bits Let_def)
    qed (use b8 M i in \<open>auto simp: Self_xmin_def header_bits Let_def deletes_now_def\<close>)
  qed
qed

lemma xmax_finished_ok:
  assumes r: "ready env s0" and i: "inv env s0 s" and b: "\<not> bit (t_infomask (hdr s)) 11" "\<not> bit (t_infomask (hdr s0)) 12"
    and n: "\<not> TransactionIdIsCurrentTransactionId env (xmax_of_tuple env s0)" "\<not> TransactionIdIsInProgress s0 (xmax_of_tuple env s0)"
    and P: "\<And>s'. inv env s0 s' \<Longrightarrow> P (if deleted env s0 then dead else live) s'"
  shows "ok (xmax_finished env (xmax_of_tuple env s0) live dead) s P"
proof -
  have k: "known env s0 (xmax_of_tuple env s0)" "resolved env s0 (xmax_of_tuple env s0)"
    using xmax_facts(4) [OF r i b] by auto
  show ?thesis
  proof (rule ok_xmax_finished [OF i k n])
    show "deleter env (hdr s0) = Some (xmax_of_tuple env s0)" if "\<not> locked_only (hdr s0)"
      using that b(2) by (simp add: deleter_cases)
    fix s' assume "inv env s0 s'"
    moreover have "deleted env s0 \<longleftrightarrow> committed env s0 (xmax_of_tuple env s0) \<and> \<not> locked_only (hdr s0)"
      using n b(2) by (auto simp: deleted_def deletes_now_def deleter_cases)
    ultimately show "P (if committed env s0 (xmax_of_tuple env s0) \<and> \<not> locked_only (hdr s0) then dead else live) s'"
      using P by auto
  qed
qed

lemma multi_DidCommit_ok:
  assumes r: "ready env s0" and i: "inv env s0 s" and b: "\<not> bit (t_infomask (hdr s)) 11" "bit (t_infomask (hdr s0)) 12"
    and n: "\<not> locked_only (hdr s0)" "d = HeapTupleHeaderMultiXactGetUpdateXid env (hdr s0)"
      "\<not> TransactionIdIsCurrentTransactionId env d" "\<not> TransactionIdIsInProgress s0 d"
    and P: "\<And>s'. inv env s0 s' \<Longrightarrow> P (deleted env s0) s'"
  shows "ok (DidCommit env d) s P"
proof (rule ok_DidCommit [OF i])
  show "known env s0 d" using xmax_facts(3) [OF r i b(1) b(2) n(1)] n(2) by simp
  have "deleted env s0 = committed env s0 d"
    using n b(2) by (auto simp: deleted_def deletes_now_def deleter_cases)
  then show "P (committed env s0 d) (s\<lparr>fcache := c\<rparr>)" if "inv env s0 (s\<lparr>fcache := c\<rparr>)" for c
    using P that by simp
qed

lemma Self_xmax_ok:
  assumes r: "ready env s0" and i: "inv env s0 s"
  shows "ok (Self_xmax env) s (\<lambda>b s'. b = (\<not> deleted env s0) \<and> inv env s0 s')"
proof -
  let ?m = "t_infomask (hdr s)" and ?x = "xmax_of_tuple env s0" and ?u = "HeapTupleHeaderMultiXactGetUpdateXid env (hdr s0)"
  note X = xmax_facts [OF r i] and E = inv_simps [OF i]
  consider "bit ?m 11" | "\<not> bit ?m 11" "bit ?m 10" | "\<not> bit ?m 11" "\<not> bit ?m 10" "bit (t_infomask (hdr s0)) 12"
    | "\<not> bit ?m 11" "\<not> bit ?m 10" "\<not> bit (t_infomask (hdr s0)) 12" by blast
  then show ?thesis
  proof cases
    case 3
    have "ok (DidCommit env ?u) s (\<lambda>b s'. (\<not> b) = (\<not> deleted env s0) \<and> inv env s0 s')"
      if "\<not> locked_only (hdr s0)" "\<not> TransactionIdIsCurrentTransactionId env ?u" "\<not> TransactionIdIsInProgress s0 ?u"
      by (rule multi_DidCommit_ok [OF r i 3(1,3) that(1) refl that(2,3)]) auto
    then show ?thesis using 3 E i
      by (auto simp: Self_xmax_def flag_bits Let_def deleted_def deletes_now_def deleter_cases)
  next
    case 4
    have "ok (xmax_finished env ?x True False) s (\<lambda>b s'. b = (\<not> deleted env s0) \<and> inv env s0 s')"
      if "\<not> TransactionIdIsCurrentTransactionId env ?x" "\<not> TransactionIdIsInProgress s0 ?x"
      by (rule xmax_finished_ok [OF r i 4(1,3) that]) auto
    then show ?thesis using 4 E i
      by (auto simp: Self_xmax_def flag_bits Let_def deleted_def deletes_now_def deleter_cases)
  qed (use X E i in \<open>auto simp: Self_xmax_def flag_bits Let_def\<close>)
qed

lemma Self_ok:
  assumes r: "ready env s"
  shows "ok (HeapTupleSatisfiesSelf env) s (\<lambda>b s'. b = (inserted env s \<and> \<not> deleted env s) \<and> inv env s s')"
  unfolding HeapTupleSatisfiesSelf_def ok_go_on
proof (rule ok_mono [OF Self_xmin_ok [OF r]])
  fix d s' assume d: "inv env s s' \<and> (case d of Some b \<Rightarrow> b = (inserted env s \<and> \<not> deleted env s) | None \<Rightarrow> inserted env s)"
  show "case d of Some x \<Rightarrow> x = (inserted env s \<and> \<not> deleted env s) \<and> inv env s s'
      | None \<Rightarrow> ok (Self_xmax env) s' (\<lambda>b s'. b = (inserted env s \<and> \<not> deleted env s) \<and> inv env s s')"
    using d Self_xmax_ok [OF r, of s'] by (auto split: option.splits elim!: ok_mono)
qed

section \<open>A scan of now\<close>

lemma inv_flag [simp]: "inv env s0 (s\<lparr>has_cur_xact_write := w\<rparr>) = inv env s0 s"
  by (simp add: inv_def hinted_def truthful_def sane_def finished_commit_def finished_abort_def committed_def)

lemma ok_note_write:
  "P () s \<Longrightarrow> P () (s\<lparr>has_cur_xact_write := Some True\<rparr>) \<Longrightarrow> ok (note_write c) s P"
  by (simp add: note_write_def)

text \<open>A tuple of the current transaction, as the code tests it.\<close>

definition own_insert :: "vis_env \<Rightarrow> vis_state \<Rightarrow> bool" where
  "own_insert env s \<longleftrightarrow> \<not> bit (t_infomask (hdr s)) 8 \<and> TransactionIdIsCurrentTransactionId env (xmin_of_tuple env s)"

definition now_visible :: "vis_env \<Rightarrow> vis_state \<Rightarrow> bool" where
  "now_visible env s \<longleftrightarrow>
     (if own_insert env s
      then HeapTupleHeaderGetCmin env (hdr s) < CurrentCommandId env \<and>
           (\<forall>d. deleter env (hdr s) = Some d \<longrightarrow> TransactionIdIsCurrentTransactionId env d \<longrightarrow>
              \<not> bit (t_infomask (hdr s)) 12 \<and> CurrentCommandId env \<le> HeapTupleHeaderGetCmax env (hdr s))
      else inserted env s \<and>
           (\<forall>d. deleter env (hdr s) = Some d \<longrightarrow>
              (if TransactionIdIsCurrentTransactionId env d
               then CurrentCommandId env \<le> HeapTupleHeaderGetCmax env (hdr s) else \<not> deletes_now env s d)))"

lemma Now_own_ok:
  assumes r: "ready env s" and o: "own_insert env s"
  shows "ok (Now_xmin env) s (\<lambda>d s'. inv env s s' \<and> d = Some (now_visible env s))"
proof -
  note i = ready_inv [OF r]
  have b8: "\<not> bit (t_infomask (hdr s)) 8" and cur: "TransactionIdIsCurrentTransactionId env (xmin_of_tuple env s)"
    using o by (auto simp: own_insert_def)
  have b9: "\<not> bit (t_infomask (hdr s)) 9" using r b8 cur by (auto simp: ready_def truthful_def finished_abort_def)
  have own: "TransactionIdIsCurrentTransactionId env d \<or> finished_abort env s d" if "deleter env (hdr s) = Some d" for d
    using r cur that by (auto simp: ready_def truthful_def)
  have b11: "\<not> TransactionIdIsCurrentTransactionId env d" if "bit (t_infomask (hdr s)) 11" "deleter env (hdr s) = Some d" for d
    using inv_hints(1) [OF i that] by (simp add: finished_abort_def)
  have u: "TransactionIdIsValid (HeapTupleHeaderMultiXactGetUpdateXid env (hdr s))"
    if "bit (t_infomask (hdr s)) 12" "\<not> locked_only (hdr s)" "\<not> bit (t_infomask (hdr s)) 11"
    using xmax_facts(3) [OF r i that(3,1,2)] by (simp add: known_def)
  have hint: "ok (SetHintBits env HEAP_XMAX_INVALID InvalidTransactionId) s1 (\<lambda>_ s'. inv env s s')"
    if "inv env s s1" "\<not> TransactionIdIsCurrentTransactionId env (xmax_of_tuple env s)" "\<not> locked_only (hdr s)"
      "\<not> bit (t_infomask (hdr s)) 12" for s1
    by (rule ok_xmax_invalid [OF that(1)]) (use own that in \<open>auto simp: deleter_cases\<close>)
  show ?thesis
    using b8 b9 cur o i u b11 hint
    unfolding Now_xmin_def Let_def
    by (auto simp: flag_bits now_visible_def deleter_cases not_le intro!: ok_note_write elim!: ok_mono)
qed

lemma Now_xmin_ok:
  assumes r: "ready env s"
  shows "ok (Now_xmin env) s (\<lambda>d s'. inv env s s' \<and> (case d of
      Some b \<Rightarrow> b = now_visible env s | None \<Rightarrow> \<not> own_insert env s \<and> inserted env s))"
proof (cases "own_insert env s")
  case True
  show ?thesis by (rule ok_mono [OF Now_own_ok [OF r True]]) auto
next
  case False
  let ?x = "xmin_of_tuple env s"
  note i = ready_inv [OF r]
  show ?thesis
  proof (cases "bit (t_infomask (hdr s)) 8")
    case True
    then show ?thesis using xmin_committed [OF r] i False by (simp add: Now_xmin_def flag_bits Let_def)
  next
    case b8: False
    note M = xmin_cases [OF r b8]
    have nc: "\<not> TransactionIdIsCurrentTransactionId env ?x" using b8 False by (simp add: own_insert_def)
    have "ok (xmin_finished env ?x False) s (\<lambda>d s'. inv env s s' \<and> (case d of
        Some b \<Rightarrow> b = now_visible env s | None \<Rightarrow> \<not> own_insert env s \<and> inserted env s))"
      if "\<not> TransactionIdIsInProgress s ?x" "\<not> bit (t_infomask (hdr s)) 9"
      by (rule xmin_finished_ok [OF r b8 that(2) nc that(1)]) (auto simp: False now_visible_def)
    then show ?thesis using b8 M i nc False
      by (auto simp: Now_xmin_def flag_bits Let_def deletes_now_def now_visible_def NeedSyncXact_def)
  qed
qed

lemma Now_xmax_ok:
  assumes r: "ready env s0" and i: "inv env s0 s" and o: "\<not> own_insert env s0" and ins: "inserted env s0"
  shows "ok (Now_xmax env) s (\<lambda>b s'. b = now_visible env s0 \<and> inv env s0 s')"
proof -
  let ?m = "t_infomask (hdr s)" and ?x = "xmax_of_tuple env s0" and ?u = "HeapTupleHeaderMultiXactGetUpdateXid env (hdr s0)"
  note X = xmax_facts [OF r i] and E = inv_simps [OF i]
  have dl: "\<not> TransactionIdIsCurrentTransactionId env d \<Longrightarrow> deleter env (hdr s0) = Some d \<Longrightarrow>
      now_visible env s0 = (\<not> deleted env s0)" for d
    using o ins by (auto simp: now_visible_def deleted_def)
  consider "bit ?m 11" | "\<not> bit ?m 11" "bit ?m 10" | "\<not> bit ?m 11" "\<not> bit ?m 10" "bit (t_infomask (hdr s0)) 12"
    | "\<not> bit ?m 11" "\<not> bit ?m 10" "\<not> bit (t_infomask (hdr s0)) 12" by blast
  then show ?thesis
  proof cases
    case 1
    then have "now_visible env s0" using o ins inv_hints(1) [OF i] by (auto simp: now_visible_def finished_abort_def deletes_now_def)
    then show ?thesis using 1 i by (simp add: Now_xmax_def flag_bits Let_def)
  next
    case 2
    have "now_visible env s0 = locked_only (hdr s0)"
      using 2 o ins inv_hints(2) [OF i] by (auto simp: now_visible_def finished_commit_def deletes_now_def deleter_cases)
    then show ?thesis using 2 i E by (simp add: Now_xmax_def flag_bits Let_def)
  next
    case 3
    have v: "TransactionIdIsValid ?u" if "\<not> locked_only (hdr s0)" using X(3) [OF 3(1,3) that] by (simp add: known_def)
    have "ok (DidCommit env ?u) s (\<lambda>b s'. (\<not> b) = now_visible env s0 \<and> inv env s0 s')"
      if l: "\<not> locked_only (hdr s0)" and c: "\<not> TransactionIdIsCurrentTransactionId env ?u" "\<not> TransactionIdIsInProgress s0 ?u"
    proof (rule multi_DidCommit_ok [OF r i 3(1,3) l refl c])
      show "(\<not> deleted env s0) = now_visible env s0 \<and> inv env s0 s'" if "inv env s0 s'" for s'
        using dl [of ?u] c l 3 that by (simp add: deleter_cases)
    qed
    then show ?thesis using 3 E i v o ins
      by (auto simp: Now_xmax_def flag_bits Let_def now_visible_def deletes_now_def deleter_cases)
  next
    case 4
    have "ok (xmax_finished env ?x True False) s (\<lambda>b s'. b = now_visible env s0 \<and> inv env s0 s')"
      if c: "\<not> TransactionIdIsCurrentTransactionId env ?x" "\<not> TransactionIdIsInProgress s0 ?x"
    proof (rule xmax_finished_ok [OF r i 4(1,3) c])
      have "now_visible env s0 = (\<not> deleted env s0)"
        using dl [of ?x] c 4 o ins by (cases "locked_only (hdr s0)") (auto simp: deleter_cases now_visible_def deleted_def)
      then show "(if deleted env s0 then False else True) = now_visible env s0 \<and> inv env s0 s'" if "inv env s0 s'" for s'
        using that by simp
    qed
    then show ?thesis using 4 E i o ins
      by (auto simp: Now_xmax_def flag_bits Let_def now_visible_def deletes_now_def deleter_cases NeedSyncXact_def
          intro!: ok_note_write)
  qed
qed

lemma Now_ok:
  assumes r: "ready env s"
  shows "ok (HeapTupleSatisfiesNow env) s (\<lambda>b s'. b = now_visible env s \<and> inv env s s')"
  unfolding HeapTupleSatisfiesNow_def ok_go_on
proof (rule ok_mono [OF Now_xmin_ok [OF r]])
  fix d s' assume d: "inv env s s' \<and> (case d of Some b \<Rightarrow> b = now_visible env s | None \<Rightarrow> \<not> own_insert env s \<and> inserted env s)"
  show "case d of Some x \<Rightarrow> x = now_visible env s \<and> inv env s s'
      | None \<Rightarrow> ok (Now_xmax env) s' (\<lambda>b s'. b = now_visible env s \<and> inv env s s')"
    using d Now_xmax_ok [OF r, of s'] by (auto split: option.splits)
qed

section \<open>A concrete session\<close>

text \<open>The current transaction is 200, at command 3; 100 and its subtransaction 101 have committed.\<close>

definition vis_demo_env :: vis_env where
  "vis_demo_env = \<lparr>tenv = trans_demo_env, pd_xid_base = 0, pd_multi_base = 0,
     TransactionIdIsCurrentTransactionId = (\<lambda>x. x = 200), CurrentCommandId = 3, GetMultiXactIdMembers = (\<lambda>_. []),
     SSMultiXactIdGetUpdateXid = (\<lambda>_ _ _. 0), MultiXactIdIsRunning = (\<lambda>_. False), comboCids = [],
     StreamThreadAmI = False, SyncWaitXidEnd = (\<lambda>_ s. s), SSTransactionIdGetCommitSeqNo = (\<lambda>_ _ _. vret (0, False)),
     ResolveCminCmaxDuringDecoding = (\<lambda>_. None), enable_cluster_resize = False, BufferIsPermanent = True,
     XLogNeedsFlush = (\<lambda>_. False), BufferGetLSNAtomic = 0, show_any_tuples = False, bInAbortTransaction = False,
     IsInitdb = False, IsolationUsesXactSnapshot = False\<rparr>"

definition vis_demo_state :: "ShortTransactionId \<Rightarrow> ShortTransactionId \<Rightarrow> uint16 \<Rightarrow> trans_logs \<Rightarrow> vis_state" where
  "vis_demo_state xmin xmax infomask logs = \<lparr>htup = \<lparr>t_self = (7, 1), t_xid_base = 0, t_multi_base = 0,
       t_data = \<lparr>t_xmin = xmin, t_xmax = xmax, t_cid = 2, t_ctid = (7, 2), t_infomask = infomask, t_infomask2 = 0\<rparr>\<rparr>,
     fcache = knl_t_xact_init, vlogs = logs, TransactionIdIsInProgress = (\<lambda>x. x = 102 \<or> x = 200),
     needSync = (\<lambda>_. False), snapshot_xmin = 0, snapshot_xmax = 0, has_cur_xact_write = None\<rparr>"

lemma vis_demo_simps [simp]:
  "tenv vis_demo_env = trans_demo_env" "TransactionIdIsCurrentTransactionId vis_demo_env x \<longleftrightarrow> x = 200"
  "CurrentCommandId vis_demo_env = 3"
  "vlogs (vis_demo_state xmin xmax m logs) = logs" "fcache (vis_demo_state xmin xmax m logs) = knl_t_xact_init"
  "TransactionIdIsInProgress (vis_demo_state xmin xmax m logs) x \<longleftrightarrow> x = 102 \<or> x = 200"
  "t_infomask (hdr (vis_demo_state xmin xmax m logs)) = m" "t_infomask2 (hdr (vis_demo_state xmin xmax m logs)) = 0"
  "t_cid (hdr (vis_demo_state xmin xmax m logs)) = 2"
  by (simp_all add: vis_demo_env_def vis_demo_state_def)

lemma vis_demo_xids:
  "xmin_of_tuple vis_demo_env (vis_demo_state 100 xmax m logs) = 100"
  "xmin_of_tuple vis_demo_env (vis_demo_state 200 xmax m logs) = 200"
  "xmax_of_tuple vis_demo_env (vis_demo_state xmin 102 m logs) = 102"
  "xmax_of_tuple vis_demo_env (vis_demo_state xmin 101 m logs) = 101"
  "xmax_of_tuple vis_demo_env (vis_demo_state xmin 200 m logs) = 200"
  by (simp_all add: HeapTupleHeaderGetXmin_def HeapTupleHeaderGetXmax_def ShortTransactionIdToNormal_def vis_demo_env_def
      vis_demo_state_def TransactionIdIsNormal_def special_xids word_le_nat_alt)

definition vis_demo_logs :: "trans_logs \<Rightarrow> bool" where
  "vis_demo_logs logs \<longleftrightarrow> TransactionIdAsyncCommitTree trans_demo_env 100 [101] 0 5 blank_logs = Inr logs"

lemma vis_demo_facts:
  assumes "vis_demo_logs logs"
  shows "logs_status logs x = (if x \<in> set [100, 101] then Some CLOG_XID_STATUS_COMMITTED else logs_status blank_logs x)"
    and "csn_entry (csn_pages_of logs) x = (if x \<in> set [100, 101] then Some 5 else csn_entry (csn_pages_of blank_logs) x)"
  using demo_commit assms by (auto simp: vis_demo_logs_def)

lemma vis_demo_sane:
  assumes "vis_demo_logs logs"
  shows "sane vis_demo_env (vis_demo_state xmin xmax m logs)"
    and "x \<noteq> 0 \<Longrightarrow> x < 1024 \<Longrightarrow> known vis_demo_env (vis_demo_state xmin xmax m logs) x"
    and "x \<in> {100, 101} \<Longrightarrow> committed vis_demo_env (vis_demo_state xmin xmax m logs) x"
proof -
  note F = vis_demo_facts [OF assms]
  have "\<not> COMMITSEQNO_IS_SUBTRANS 5" using demo_csn(2) committed_bits [of 5] by (auto simp: subtrans_iff)
  then have "ordered_parents (csn_pages_of logs)"
    using blank_unordered unfolding ordered_parents_def F(2) by (auto split: if_splits)
  then show "sane vis_demo_env (vis_demo_state xmin xmax m logs)" by (simp add: sane_def coherent_init csn_exact_init)
  have "readable trans_demo_env logs x" if "x < 1024"
    using blank_readable [OF that, of trans_demo_env] F unfolding readable_def logs_status_def by auto
  then show "x \<noteq> 0 \<Longrightarrow> x < 1024 \<Longrightarrow> known vis_demo_env (vis_demo_state xmin xmax m logs) x"
    by (simp add: known_def TransactionIdIsValid_def special_xids)
  have "xact_status logs x = Some CLOG_XID_STATUS_COMMITTED" if "x \<in> {100, 101}"
    using F(1) [of x] that
    by (auto simp: xact_status_def logs_status_def TransactionIdIsNormal_def special_xids word_le_nat_alt)
  then show "x \<in> {100, 101} \<Longrightarrow> committed vis_demo_env (vis_demo_state xmin xmax m logs) x"
    by (auto simp: committed_def intro: marked_committed)
qed

section \<open>Properties\<close>

text \<open>
  C5. HeapTupleSatisfiesSelf returns, and says yes exactly when the inserting transaction is the
  current one or has committed, and no transaction that deleted or updated the row version, as
  opposed to locking it, is the current one or has committed. The answer does not depend on which
  hint bits are set: any truthful ones give it. The check adds truthful hint bits only, and changes
  nothing else of the tuple or the logs.
\<close>

theorem self_visibility:
  assumes "ready env s"
  shows "\<exists>s'. HeapTupleSatisfiesSelf env s = Some (Inr (inserted env s \<and> \<not> deleted env s, s')) \<and>
     hinted s s' \<and> truthful env s' \<and> sane env s'"
  using Self_ok [OF assms] by (auto simp: ok_def inv_def)

lemma vis_demo_ready:
  assumes "vis_demo_logs logs"
  shows "ready vis_demo_env (vis_demo_state 100 102 0 logs)" "ready vis_demo_env (vis_demo_state 100 101 0 logs)"
    "ready vis_demo_env (vis_demo_state 200 200 0 logs)"
  using vis_demo_sane [OF assms]
  by (auto simp: ready_def truthful_def tuple_known_def deleter_cases vis_demo_xids locked_only_bits resolved_def
      word_less_nat_alt)

theorem self_visibility_witness:
  "\<exists>logs s1 s2. vis_demo_logs logs \<and>
     HeapTupleSatisfiesSelf vis_demo_env (vis_demo_state 100 102 0 logs) = Some (Inr (True, s1)) \<and>
     HeapTupleSatisfiesSelf vis_demo_env (vis_demo_state 100 101 0 logs) = Some (Inr (False, s2))"
proof -
  obtain logs where l: "vis_demo_logs logs" using demo_commit by (auto simp: vis_demo_logs_def)
  note V = vis_demo_sane [OF l]
  have nc: "\<not> committed vis_demo_env (vis_demo_state 100 102 0 logs) 102"
    using vis_demo_facts(1) [OF l, of 102] blank_logs_status [of 102]
    by (simp add: committed_def did_commit_simps [of _ _ 102] xact_status_def logs_status_def
        TransactionIdIsNormal_def special_xids word_le_nat_alt word_less_nat_alt)
  have i: "inserted vis_demo_env (vis_demo_state 100 x 0 logs)" for x
    using V(3) [of 100] by (simp add: inserted_def vis_demo_xids)
  have "\<not> deleted vis_demo_env (vis_demo_state 100 102 0 logs)" "deleted vis_demo_env (vis_demo_state 100 101 0 logs)"
    using nc V(3) [of 101] by (auto simp: deleted_def deletes_now_def deleter_cases vis_demo_xids locked_only_bits)
  then show ?thesis
    using self_visibility [OF vis_demo_ready(1) [OF l]] self_visibility [OF vis_demo_ready(2) [OF l]] i l by auto
qed



end
