(* ===== verification/Heap_Update.thy ===== *)
theory Heap_Update
  imports Heap_Visibility_Properties
begin

text \<open>HeapTupleSatisfiesUpdate: what each of its answers means for a row version about to be updated.\<close>

section \<open>Specification\<close>

definition update_means :: "vis_env \<Rightarrow> CommandId \<Rightarrow> bool \<Rightarrow> vis_state \<Rightarrow> TM_Result \<Rightarrow> bool" where
  "update_means env cid self_visible s r \<longleftrightarrow>
     (let cmin = HeapTupleHeaderGetCmin env (hdr s); cmax = HeapTupleHeaderGetCmax env (hdr s); xmax = xmax_of_tuple env s
      in case r of
        TM_Ok \<Rightarrow> inserted env s \<and> (\<forall>d. deleter env (hdr s) = Some d \<longrightarrow> finished_abort env s d) \<and>
          (own_insert env s \<longrightarrow> cmin < cid \<or> (cmin = cid \<and> self_visible))
      | TM_Invisible \<Rightarrow> \<not> inserted env s \<or> (own_insert env s \<and> cid < cmin) \<or>
          (\<exists>d. deleter env (hdr s) = Some d \<and> TransactionIdIsCurrentTransactionId env d \<and> cmax < cid)
      | TM_SelfModified \<Rightarrow> inserted env s \<and>
          (\<exists>d. deleter env (hdr s) = Some d \<and> TransactionIdIsCurrentTransactionId env d \<and> cid \<le> cmax)
      | TM_Updated \<Rightarrow> inserted env s \<and> (\<exists>d. deleter env (hdr s) = Some d \<and> finished_commit env s d) \<and>
          t_self (htup s) \<noteq> t_ctid (hdr s)
      | TM_Deleted \<Rightarrow> inserted env s \<and> (\<exists>d. deleter env (hdr s) = Some d \<and> finished_commit env s d) \<and>
          t_self (htup s) = t_ctid (hdr s)
      | TM_BeingModified \<Rightarrow> inserted env s \<and> (\<forall>d. deleter env (hdr s) = Some d \<longrightarrow> \<not> deletes_now env s d) \<and>
          (\<exists>d. (deleter env (hdr s) = Some d \<or> d = xmax) \<and>
             (TransactionIdIsInProgress s d \<or> TransactionIdIsCurrentTransactionId env d \<or>
              (bit (t_infomask (hdr s)) 12 \<and> MultiXactIdIsRunning env d)))
      | TM_SelfCreated \<Rightarrow> own_insert env s \<and> cmin = cid \<and> \<not> self_visible
      | _ \<Rightarrow> False)"

definition update_ready :: "vis_env \<Rightarrow> vis_state \<Rightarrow> bool" where
  "update_ready env s \<longleftrightarrow> ready env s \<and>
     (TransactionIdIsInProgress s (xmin_of_tuple env s) \<longrightarrow> \<not> needSync s (xmin_of_tuple env s))"

section \<open>The parts of the check\<close>

lemma Update_own_ok:
  assumes r: "ready env s" and o: "own_insert env s"
  shows "ok (Update_own env cid sv) s (\<lambda>b s'. update_means env cid sv s b \<and> inv env s s')"
proof -
  note i = ready_inv [OF r]
  have cur: "TransactionIdIsCurrentTransactionId env (xmin_of_tuple env s)" using o by (simp add: own_insert_def)
  then have ins: "inserted env s" by (simp add: inserted_def)
  have own: "TransactionIdIsCurrentTransactionId env d \<or> finished_abort env s d" if "deleter env (hdr s) = Some d" for d
    using r cur that by (auto simp: ready_def truthful_def)
  have b11: "finished_abort env s d" if "bit (t_infomask (hdr s)) 11" "deleter env (hdr s) = Some d" for d
    by (rule inv_hints(1) [OF i that])
  have hint: "ok (SetHintBits env HEAP_XMAX_INVALID InvalidTransactionId) s (\<lambda>_ s'. inv env s s')"
    if "\<not> TransactionIdIsCurrentTransactionId env (xmax_of_tuple env s)" "\<not> locked_only (hdr s)" "\<not> bit (t_infomask (hdr s)) 12"
    by (rule ok_xmax_invalid [OF i]) (use own that in \<open>auto simp: deleter_cases\<close>)
  show ?thesis
    using i ins o b11 own hint unfolding Update_own_def
    by (auto simp: flag_bits Let_def deleter_cases update_means_def self_modified_def HeapTupleHeaderGetRawXmax_def
        finished_abort_def deletes_now_def elim!: ok_mono)
qed

lemma Update_xmin_ok:
  assumes u: "update_ready env s"
  shows "ok (Update_xmin env cid sv) s (\<lambda>d s'. inv env s s' \<and> (case d of
      Some (Inr b) \<Rightarrow> update_means env cid sv s b | Some (Inl _) \<Rightarrow> False | None \<Rightarrow> \<not> own_insert env s \<and> inserted env s))"
proof -
  have r: "ready env s" and sy: "TransactionIdIsInProgress s (xmin_of_tuple env s) \<Longrightarrow> \<not> needSync s (xmin_of_tuple env s)"
    using u by (auto simp: update_ready_def)
  let ?x = "xmin_of_tuple env s" and ?m = "t_infomask (hdr s)"
  note i = ready_inv [OF r]
  show ?thesis
  proof (cases "bit ?m 8")
    case True
    then show ?thesis using xmin_committed [OF r] i by (simp add: Update_xmin_def header_bits Let_def own_insert_def)
  next
    case b8: False
    note M = xmin_cases [OF r b8]
    consider "bit ?m 9" | "\<not> bit ?m 9" "TransactionIdIsCurrentTransactionId env ?x"
      | "\<not> bit ?m 9" "\<not> TransactionIdIsCurrentTransactionId env ?x" "TransactionIdIsInProgress s ?x"
      | "\<not> bit ?m 9" "\<not> TransactionIdIsCurrentTransactionId env ?x" "\<not> TransactionIdIsInProgress s ?x" by blast
    then show ?thesis
    proof cases
      case 2
      then show ?thesis using Update_own_ok [OF r, of cid sv] b8
        by (auto simp: Update_xmin_def header_bits Let_def own_insert_def elim!: ok_mono)
    next
      case 4
      have "ok (xmin_finished env ?x (Inr TM_Invisible)) s (\<lambda>d s'. inv env s s' \<and> (case d of
          Some (Inr b) \<Rightarrow> update_means env cid sv s b | Some (Inl _) \<Rightarrow> False | None \<Rightarrow> \<not> own_insert env s \<and> inserted env s))"
        by (rule xmin_finished_ok [OF r b8 4]) (use 4 in \<open>auto simp: update_means_def own_insert_def\<close>)
      then show ?thesis using 4 b8 by (simp add: Update_xmin_def header_bits Let_def)
    qed (use b8 M i sy in \<open>auto simp: Update_xmin_def header_bits Let_def update_means_def deletes_now_def\<close>)
  qed
qed

lemma Update_multi_ok:
  assumes r: "ready env s0" and i: "inv env s0 s" and o: "\<not> own_insert env s0" and ins: "inserted env s0"
    and b: "\<not> bit (t_infomask (hdr s)) 11" "bit (t_infomask (hdr s0)) 12"
  shows "ok (Update_xmax_multi env cid) s (\<lambda>b s'. update_means env cid sv s0 b \<and> inv env s0 s')"
proof -
  let ?u = "HeapTupleHeaderMultiXactGetUpdateXid env (hdr s0)"
  note E = inv_simps [OF i]
  have t: "t_self (htup s) = t_self (htup s0)" "t_ctid (hdr s) = t_ctid (hdr s0)" using i hinted_header by (auto simp: inv_def)
  have inval: "ok (SetHintBits env HEAP_XMAX_INVALID InvalidTransactionId) s1 (\<lambda>_ s'. inv env s0 s')"
    if "inv env s0 s1" "\<And>d. deleter env (hdr s0) = Some d \<Longrightarrow> finished_abort env s0 d" for s1
    by (rule ok_xmax_invalid [OF that]) auto
  show ?thesis
  proof (cases "locked_only (hdr s0)")
    case True
    then have "deleter env (hdr s0) = None" by (simp add: deleter_cases)
    then show ?thesis using True E i o ins b inval
      by (auto simp: Update_xmax_multi_def update_means_def Let_def HeapTupleHeaderGetRawXmax_def elim!: ok_mono)
  next
    case False
    then have d: "deleter env (hdr s0) = Some ?u" using b by (simp add: deleter_cases)
    have k: "known env s0 ?u" by (rule xmax_facts(3) [OF r i b False])
    show ?thesis
    proof (cases "TransactionIdIsCurrentTransactionId env ?u \<or> TransactionIdIsInProgress s0 ?u")
      case True
      have fin: "\<not> deletes_now env s0 ?u" if "\<not> TransactionIdIsCurrentTransactionId env ?u" using that True by (simp add: deletes_now_def)
      show ?thesis using True False E i o ins d fin
        by (auto simp: Update_xmax_multi_def update_means_def Let_def self_modified_def)
    next
      case nr: False
      have fin: "committed env s0 ?u \<Longrightarrow> finished_commit env s0 ?u" "\<not> committed env s0 ?u \<Longrightarrow> finished_abort env s0 ?u"
        using nr by (auto simp: finished_commit_def finished_abort_def)
      have "ok (DidCommit env ?u) s (\<lambda>c s'. inv env s0 s' \<and> c = committed env s0 ?u)" by (rule ok_DidCommit [OF i k]) auto
      then show ?thesis using nr False E(2,3,5,7,9,12) o ins d b fin inval t
        by (auto simp: Update_xmax_multi_def update_means_def Let_def updated_or_deleted_def finished_abort_def deletes_now_def
            elim!: ok_mono)
    qed
  qed
qed

lemma Update_xmax_ok:
  assumes r: "ready env s0" and i: "inv env s0 s" and o: "\<not> own_insert env s0" and ins: "inserted env s0"
  shows "ok (Update_xmax env cid) s (\<lambda>b s'. update_means env cid sv s0 b \<and> inv env s0 s')"
proof -
  let ?m = "t_infomask (hdr s)" and ?d = "xmax_of_tuple env s0"
  note X = xmax_facts [OF r i] and E = inv_simps [OF i]
  have t: "t_self (htup s) = t_self (htup s0)" "t_ctid (hdr s) = t_ctid (hdr s0)" using i hinted_header by (auto simp: inv_def)
  consider (inval) "bit ?m 11" | (comm) "\<not> bit ?m 11" "bit ?m 10" | (multi) "\<not> bit ?m 11" "\<not> bit ?m 10" "bit (t_infomask (hdr s0)) 12"
    | (cur) "\<not> bit ?m 11" "\<not> bit ?m 10" "\<not> bit (t_infomask (hdr s0)) 12"
      "TransactionIdIsCurrentTransactionId env ?d \<or> TransactionIdIsInProgress s0 ?d"
    | (fin) "\<not> bit ?m 11" "\<not> bit ?m 10" "\<not> bit (t_infomask (hdr s0)) 12"
      "\<not> TransactionIdIsCurrentTransactionId env ?d" "\<not> TransactionIdIsInProgress s0 ?d" by blast
  then show ?thesis
  proof cases
    case inval
    then show ?thesis using i o ins inv_hints(1) [OF i inval] by (auto simp: Update_xmax_def flag_bits Let_def update_means_def)
  next
    case comm
    have "locked_only (hdr s0) \<and> deleter env (hdr s0) = None \<or> \<not> locked_only (hdr s0) \<and> (\<exists>d. deleter env (hdr s0) = Some d \<and> finished_commit env s0 d)"
      using inv_hints(2) [OF i comm(2,1)] by (auto simp: deleter_cases)
    then show ?thesis using comm i o ins E t
      by (auto simp: Update_xmax_def flag_bits Let_def update_means_def updated_or_deleted_def)
  next
    case multi
    then show ?thesis using Update_multi_ok [OF r i o ins multi(1,3)] E by (simp add: Update_xmax_def flag_bits Let_def)
  next
    case cur
    then show ?thesis using E i o ins
      by (auto simp: Update_xmax_def flag_bits Let_def update_means_def self_modified_def deleter_cases deletes_now_def)
  next
    case fin
    have v: "t_self (htup s0) = t_ctid (hdr s0) \<Longrightarrow> updated_or_deleted (htup s0) = TM_Deleted"
      "t_self (htup s0) \<noteq> t_ctid (hdr s0) \<Longrightarrow> updated_or_deleted (htup s0) = TM_Updated" by (auto simp: updated_or_deleted_def)
    have e: "d = ?d" if "deleter env (hdr s0) = Some d" for d using that fin(3) by (simp add: deleter_cases split: if_splits)
    have "ok (xmax_finished env ?d TM_Ok (updated_or_deleted (htup s0))) s (\<lambda>b s'. update_means env cid sv s0 b \<and> inv env s0 s')"
    proof (rule xmax_finished_ok [OF r i fin(1,3,4,5)])
      show "update_means env cid sv s0 (if deleted env s0 then updated_or_deleted (htup s0) else TM_Ok) \<and> inv env s0 s'"
        if "inv env s0 s'" for s'
        using that fin o ins v
        by (cases "t_self (htup s0) = t_ctid (hdr s0)")
          (auto simp: update_means_def Let_def deleted_def deletes_now_def finished_abort_def finished_commit_def dest: e)
    qed
    then show ?thesis using fin E by (simp add: Update_xmax_def flag_bits Let_def)
  qed
qed

section \<open>Properties\<close>

lemma ok_Update:
  assumes "ok (Update_round env cid sv) s (\<lambda>r s'. case r of Inl _ \<Rightarrow> False | Inr b \<Rightarrow> P b s')"
  shows "\<exists>r s'. HeapTupleSatisfiesUpdate env cid sv s = Some (Inr (r, s')) \<and> P r s'"
proof -
  obtain r s' where m: "Update_round env cid sv s = Some (Inr (r, s'))" and c: "case r of Inl _ \<Rightarrow> False | Inr b \<Rightarrow> P b s'"
    using assms by (auto simp: ok_def)
  from c show ?thesis by (cases r) (simp_all add: HeapTupleSatisfiesUpdate.simps [of env cid sv s] m)
qed



end
