(* ===== verification/Heap_Snapshot.thy ===== *)
theory Heap_Snapshot
  imports Heap_Visibility_Properties
begin

text \<open>
  Visibility to an MVCC snapshot: the tests of \<^verbatim>\<open>snapmgr.cpp\<close> decide by the commit sequence number
  in the log, although they may be answered from the cache or, below the xmin of the snapshot, from
  the commit log.
\<close>

section \<open>Reading a sequence number\<close>

text \<open>An entry of a transaction that has not finished, and is not linked to a committing parent.\<close>

definition unfinished :: "CommitSeqNo \<Rightarrow> bool" where
  "unfinished v \<longleftrightarrow> \<not> COMMITSEQNO_IS_COMMITTED v \<and> \<not> COMMITSEQNO_IS_ABORTED v \<and>
     \<not> (COMMITSEQNO_IS_SUBTRANS v \<and> COMMITSEQNO_IS_COMMITTING v)"

text \<open>The horizon of a read without a snapshot or for an MVCC snapshot.\<close>

definition plain_read :: "trans_env \<Rightarrow> SnapshotData option \<Rightarrow> bool" where
  "plain_read env snapshot \<longleftrightarrow> \<not> GTM_LITE_MODE env \<and>
     (case snapshot of None \<Rightarrow> True | Some s \<Rightarrow> satisfies s = SNAPSHOT_MVCC)"

definition read_horizon :: "trans_env \<Rightarrow> SnapshotData option \<Rightarrow> TransactionId" where
  "read_horizon env snapshot = (case snapshot of None \<Rightarrow> RecentXmin env | Some s \<Rightarrow> snap_xmin s)"

lemma plain_horizon: "plain_read env snapshot \<Longrightarrow> fetch_horizon env n snapshot True = read_horizon env snapshot"
  by (auto simp: plain_read_def fetch_horizon_def read_horizon_def IsMVCCSnapshot_def split: option.splits)

lemma plain_not_version:
  "plain_read env snapshot \<Longrightarrow> (case snapshot of None \<Rightarrow> True | Some s \<Rightarrow> \<not> IsVersionMVCCSnapshot s) = True"
  by (auto simp: plain_read_def IsVersionMVCCSnapshot_def split: option.splits)

text \<open>What the log may hold for a transaction that is read with a given horizon.\<close>

inductive csn_view :: "trans_logs \<Rightarrow> TransactionId \<Rightarrow> TransactionId \<Rightarrow> CommitSeqNo \<Rightarrow> bool" for logs horizon x where
  view_finished: "settled logs x st \<Longrightarrow> csn_entry (csn_pages_of logs) x = Some v \<Longrightarrow> csn_view logs horizon x v"
| view_running: "TransactionIdIsNormal x \<Longrightarrow> horizon \<le> x \<Longrightarrow> csn_entry (csn_pages_of logs) x = Some v \<Longrightarrow>
    unfinished v \<Longrightarrow> csn_view logs horizon x v"

text \<open>What a read may answer then.\<close>

definition csn_answer :: "TransactionId \<Rightarrow> SnapshotData option \<Rightarrow> TransactionId \<Rightarrow> CommitSeqNo \<Rightarrow> CommitSeqNo \<Rightarrow> bool" where
  "csn_answer horizon snapshot x v c \<longleftrightarrow>
     c = v \<or> (COMMITSEQNO_IS_COMMITTED v \<and> c = COMMITSEQNO_FROZEN \<and> (x < horizon \<or> snapshot = None))"

lemma aborted_is: "COMMITSEQNO_IS_ABORTED c \<longleftrightarrow> c = COMMITSEQNO_ABORTED"
  by (simp add: COMMITSEQNO_IS_ABORTED_def)

lemma clog_answer:
  assumes "settled logs x st" "isCommit \<longrightarrow> st = CLOG_XID_STATUS_COMMITTED" "csn_entry (csn_pages_of logs) x = Some v" "x < h"
  shows "\<exists>c. GetCSNByCLog logs x isCommit = Inr c \<and> csn_answer h snapshot x v c \<and> csn_final_for st c \<and>
     (c = COMMITSEQNO_FROZEN \<or> c = v)"
proof -
  obtain lsn where "CLogGetStatus (slru (clog_part logs)) x = Inr (st, lsn)"
    using assms(1) clog_read [of "slru (clog_part logs)" x st] unfolding settled_def logs_status_def by blast
  moreover have "csn_final_for st v" using assms(1,3) by (auto simp: settled_def)
  ultimately show ?thesis
    using assms(2,4) frozen_final
    by (auto simp: GetCSNByCLog_def csn_answer_def csn_final_for_def aborted_is)
qed

lemma fetch_answer:
  assumes v: "csn_view logs (read_horizon env snapshot) x v" and p: "plain_read env snapshot"
    and c: "isCommit \<longrightarrow> settled logs x CLOG_XID_STATUS_COMMITTED"
  shows "\<exists>c. fetch_csn env logs x isCommit True isNest snapshot n = Some (Inr c) \<and>
     csn_answer (read_horizon env snapshot) snapshot x v c \<and>
     (\<forall>st. settled logs x st \<longrightarrow> csn_final_for st c \<and> (c = COMMITSEQNO_FROZEN \<or> c = v)) \<and>
     ((\<exists>st. settled logs x st) \<or> c = v)"
proof -
  let ?h = "read_horizon env snapshot"
  have e: "csn_entry (csn_pages_of logs) x = Some v" "TransactionIdIsNormal x"
    using v by (auto elim: csn_view.cases simp: settled_def)
  have ns: "\<not> (COMMITSEQNO_IS_SUBTRANS v \<and> COMMITSEQNO_IS_COMMITTING v)"
    using v link_not_final by (cases rule: csn_view.cases) (auto simp: unfinished_def settled_def subtrans_iff)
  have log: "CSNLogGetNestCommitSeqNo (csn_pages_of logs) x = Some (Inr v)" "CSNLogGetCommitSeqNo (csn_pages_of logs) x = Inr v"
    using nest_entry [OF e(2,1)] ns e by (auto simp: CSNLogGetCommitSeqNo_def normal_read)
  have fin: "settled logs x st \<Longrightarrow> csn_final_for st v" for st using e(1) by (auto simp: settled_def)
  show ?thesis
  proof (cases "x < ?h \<and> (\<exists>st. settled logs x st)")
    case True
    then obtain st where st: "settled logs x st" by blast
    have "isCommit \<longrightarrow> st = CLOG_XID_STATUS_COMMITTED" using c st by (auto simp: settled_def)
    then obtain cc where cc: "GetCSNByCLog logs x isCommit = Inr cc" "csn_answer ?h snapshot x v cc" "csn_final_for st cc"
      "cc = COMMITSEQNO_FROZEN \<or> cc = v"
      using clog_answer [OF st _ e(1)] True by blast
    have u: "st' = st" if "settled logs x st'" for st' using that st by (simp add: settled_def)
    define r where "r = (if \<not> IS_DISASTER_RECOVER_MODE (csn_env_of env) then cc else v)"
    have f: "fetch_csn env logs x isCommit True isNest snapshot n = Some (Inr r)"
      unfolding fetch_csn.simps [of env logs x isCommit True isNest snapshot n] Let_def plain_horizon [OF p]
        plain_not_version [OF p] log cc(1) r_def
      using True by (simp add: TransactionIdPrecedes_def del: fetch_csn.simps)
    have "csn_answer ?h snapshot x v r" "r = COMMITSEQNO_FROZEN \<or> r = v" using cc(2,4) by (auto simp: r_def csn_answer_def)
    moreover have "csn_final_for st' r" if "settled logs x st'" for st' using cc(3) u [OF that] fin [OF that] by (simp add: r_def)
    ultimately show ?thesis using f st by (intro exI [of _ r]) blast
  next
    case False
    then have nl: "\<not> x < ?h" using v by (auto elim!: csn_view.cases)
    have "fetch_csn env logs x isCommit True isNest snapshot n = Some (Inr v)"
      unfolding fetch_csn.simps [of env logs x isCommit True isNest snapshot n] Let_def plain_horizon [OF p] log
      using nl by (simp add: TransactionIdPrecedes_def del: fetch_csn.simps)
    moreover have "csn_answer ?h snapshot x v v" by (simp add: csn_answer_def)
    ultimately show ?thesis using fin by (intro exI [of _ v]) blast
  qed
qed

lemma get_csn_answer:
  assumes v: "csn_view logs (read_horizon env snapshot) x v" and p: "plain_read env snapshot"
    and c: "isCommit \<longrightarrow> settled logs x CLOG_XID_STATUS_COMMITTED"
    and i: "csn_exact logs cache" "coherent (clog_part logs) cache"
  shows "\<exists>c cache'. TransactionIdGetCommitSeqNo env logs x isCommit True isNest snapshot cache = Some (Inr (c, cache')) \<and>
     csn_answer (read_horizon env snapshot) snapshot x v c \<and> csn_exact logs cache' \<and> coherent (clog_part logs) cache' \<and>
     latestFetchCSNXid cache' = x \<and> latestFetchCSN cache' = c"
proof -
  let ?h = "read_horizon env snapshot"
  have n: "TransactionIdIsNormal x" and e: "csn_entry (csn_pages_of logs) x = Some v"
    using v by (auto elim: csn_view.cases simp: settled_def)
  have x0: "x \<noteq> InvalidTransactionId" using normal_valid [OF n] by (auto simp: TransactionIdIsValid_def)
  obtain c0 cache0 where c0: "FetchCSNFromCache env x snapshot True cache = (c0, cache0)" by force
  have hit: "same_csn_cache cache cache0" "c0 \<noteq> InvalidCommitSeqNo \<Longrightarrow> x = cachedFetchCSNXid cache \<and> c0 = cachedFetchCSN cache"
    using cache_hit [OF c0] by auto
  have e0: "csn_exact logs cache0" "coherent (clog_part logs) cache0"
    using csn_exact_same [OF hit(1) i(1)] i(2) c0
    by (auto simp: FetchCSNFromCache_def SetLatestFetchState_def coherent_def Let_def split: if_splits option.splits)
  show ?thesis
  proof (cases "c0 = InvalidCommitSeqNo")
    case False
    note h = hit(2) [OF False]
    obtain st where st: "settled logs x st" "csn_final_for st c0" "c0 = COMMITSEQNO_FROZEN \<or> c0 = v"
      using i(1) h x0 e by (auto simp: csn_exact_def)
    have lx: "latestFetchCSNXid cache0 = x" "latestFetchCSN cache0 = c0"
      and low: "c0 = COMMITSEQNO_FROZEN \<Longrightarrow> x < ?h \<or> snapshot = None"
      using c0 False h p
      by (auto simp: FetchCSNFromCache_def SetLatestFetchState_def Let_def plain_read_def read_horizon_def
          TransactionIdPrecedes_def IsMVCCSnapshot_def split: if_splits option.splits)
    have "csn_answer ?h snapshot x v c0"
      using st low e frozen_final committed_not_aborted [of COMMITSEQNO_FROZEN]
      by (auto simp: csn_answer_def settled_def csn_final_for_def)
    then show ?thesis using False e0 lx unfolding TransactionIdGetCommitSeqNo_def c0 by simp
  next
    case True
    obtain c1 where c1: "fetch_csn env logs x isCommit True isNest snapshot 0 = Some (Inr c1)" "csn_answer ?h snapshot x v c1"
      "\<And>st. settled logs x st \<Longrightarrow> csn_final_for st c1 \<and> (c1 = COMMITSEQNO_FROZEN \<or> c1 = v)" "(\<exists>st. settled logs x st) \<or> c1 = v"
      using fetch_answer [OF v p c, of isNest 0] by blast
    have un: "\<not> (COMMITSEQNO_IS_COMMITTED c1 \<or> COMMITSEQNO_IS_ABORTED c1)" if "\<nexists>st. settled logs x st"
      using that c1(4) v by (auto elim!: csn_view.cases simp: unfinished_def)
    have "csn_exact logs ((if COMMITSEQNO_IS_COMMITTED c1 \<or> COMMITSEQNO_IS_ABORTED c1
        then cache0\<lparr>cachedFetchCSNXid := x, cachedFetchCSN := c1\<rparr> else cache0)\<lparr>latestFetchCSNXid := x, latestFetchCSN := c1\<rparr>)"
      using e0(1) un c1(3) e unfolding csn_exact_def by auto
    moreover have "coherent (clog_part logs) ((if COMMITSEQNO_IS_COMMITTED c1 \<or> COMMITSEQNO_IS_ABORTED c1
        then cache0\<lparr>cachedFetchCSNXid := x, cachedFetchCSN := c1\<rparr> else cache0)\<lparr>latestFetchCSNXid := x, latestFetchCSN := c1\<rparr>)"
      using e0(2) by (auto simp: coherent_def)
    ultimately show ?thesis using True c1(1,2) n
      unfolding TransactionIdGetCommitSeqNo_def c0 Let_def by (simp del: fetch_csn.simps)
  qed
qed

section \<open>What a snapshot sees\<close>

text \<open>The specification: the transaction committed with a sequence number below that of the snapshot.\<close>

definition sees :: "SnapshotData \<Rightarrow> vis_state \<Rightarrow> TransactionId \<Rightarrow> bool" where
  "sees snapshot s x \<longleftrightarrow> TransactionIdIsNormal x \<and>
     (\<exists>v. csn_entry (csn_pages_of (vlogs s)) x = Some v \<and> COMMITSEQNO_IS_COMMITTED v \<and> v < snapshotcsn snapshot)"

text \<open>
  A transaction as a snapshot may meet it. All transactions below the xmin of the snapshot had
  finished when it was taken, those that committed with a smaller sequence number. A running
  transaction may be about to commit, but not with a sequence number the snapshot would have to
  wait for.
\<close>

definition placed :: "vis_env \<Rightarrow> SnapshotData \<Rightarrow> vis_state \<Rightarrow> TransactionId \<Rightarrow> bool" where
  "placed env snapshot s x \<longleftrightarrow> known env s x \<and>
     (TransactionIdIsCurrentTransactionId env x \<or>
      (\<not> TransactionIdIsInProgress s x \<and> settled (vlogs s) x CLOG_XID_STATUS_COMMITTED \<and>
        (x < snap_xmin snapshot \<longrightarrow> sees snapshot s x)) \<or>
      (\<not> TransactionIdIsInProgress s x \<and> settled (vlogs s) x CLOG_XID_STATUS_ABORTED) \<or>
      (TransactionIdIsInProgress s x \<and> TransactionIdIsNormal x \<and> snap_xmin snapshot \<le> x \<and>
        (\<exists>v. csn_entry (csn_pages_of (vlogs s)) x = Some v \<and> unfinished v \<and>
           (COMMITSEQNO_IS_COMMITTING v \<longrightarrow> snapshotcsn snapshot \<le> GET_COMMITSEQNO v))))"

definition mvcc_session :: "vis_env \<Rightarrow> SnapshotData \<Rightarrow> bool" where
  "mvcc_session env snapshot \<longleftrightarrow> satisfies snapshot = SNAPSHOT_MVCC \<and> COMMITSEQNO_FROZEN < snapshotcsn snapshot \<and>
     \<not> GTM_LITE_MODE (tenv env) \<and> \<not> show_any_tuples env \<and> \<not> DMS_STANDBY (csn_env_of (tenv env))"

lemma settled_outcome:
  "settled (vlogs s) x CLOG_XID_STATUS_COMMITTED \<Longrightarrow> committed env s x"
  "settled (vlogs s) x CLOG_XID_STATUS_ABORTED \<Longrightarrow> \<not> committed env s x \<and> did_abort (tenv env) (vlogs s) x \<and> \<not> sees snapshot s x"
proof -
  have st: "xact_status (vlogs s) x = Some st" if "settled (vlogs s) x st" for st
    using that by (auto simp: settled_def xact_status_def logs_status_def)
  show "settled (vlogs s) x CLOG_XID_STATUS_COMMITTED \<Longrightarrow> committed env s x"
    using st marked_committed by (auto simp: committed_def)
  assume a: "settled (vlogs s) x CLOG_XID_STATUS_ABORTED"
  have "did_abort (tenv env) (vlogs s) x" using st [OF a] by (rule marked_aborted)
  moreover have "\<not> sees snapshot s x"
    using a aborted_not_committed by (auto simp: sees_def settled_def csn_final_for_def aborted_is)
  ultimately show "\<not> committed env s x \<and> did_abort (tenv env) (vlogs s) x \<and> \<not> sees snapshot s x"
    using did_commit_not_abort by (auto simp: committed_def)
qed

text \<open>The three cases of a transaction of others.\<close>

lemma placed_cases:
  assumes "placed env snapshot s x" "\<not> TransactionIdIsCurrentTransactionId env x"
  obtains (commits) v where "finished_commit env s x" "settled (vlogs s) x CLOG_XID_STATUS_COMMITTED"
      "csn_entry (csn_pages_of (vlogs s)) x = Some v" "COMMITSEQNO_IS_COMMITTED v" "x < snap_xmin snapshot \<longrightarrow> sees snapshot s x"
    | (aborts) "finished_abort env s x" "settled (vlogs s) x CLOG_XID_STATUS_ABORTED"
      "csn_entry (csn_pages_of (vlogs s)) x = Some COMMITSEQNO_ABORTED" "\<not> sees snapshot s x"
    | (runs) v where "TransactionIdIsInProgress s x" "TransactionIdIsNormal x" "snap_xmin snapshot \<le> x"
      "csn_entry (csn_pages_of (vlogs s)) x = Some v" "unfinished v"
      "COMMITSEQNO_IS_COMMITTING v \<longrightarrow> snapshotcsn snapshot \<le> GET_COMMITSEQNO v" "\<not> sees snapshot s x"
proof -
  consider "\<not> TransactionIdIsInProgress s x" "settled (vlogs s) x CLOG_XID_STATUS_COMMITTED" "x < snap_xmin snapshot \<longrightarrow> sees snapshot s x"
    | "\<not> TransactionIdIsInProgress s x" "settled (vlogs s) x CLOG_XID_STATUS_ABORTED"
    | "TransactionIdIsInProgress s x" "TransactionIdIsNormal x" "snap_xmin snapshot \<le> x"
      "\<exists>v. csn_entry (csn_pages_of (vlogs s)) x = Some v \<and> unfinished v \<and>
         (COMMITSEQNO_IS_COMMITTING v \<longrightarrow> snapshotcsn snapshot \<le> GET_COMMITSEQNO v)"
    using assms by (auto simp: placed_def)
  then show ?thesis
  proof cases
    case 1
    then obtain v where "csn_entry (csn_pages_of (vlogs s)) x = Some v" "COMMITSEQNO_IS_COMMITTED v"
      by (auto simp: settled_def csn_final_for_def)
    then show ?thesis using 1 assms(2) settled_outcome(1) by (intro commits) (auto simp: finished_commit_def)
  next
    case 2
    then have "csn_entry (csn_pages_of (vlogs s)) x = Some COMMITSEQNO_ABORTED"
      by (auto simp: settled_def csn_final_for_def aborted_is)
    then show ?thesis using 2 assms(2) settled_outcome(2) by (intro aborts) (auto simp: finished_abort_def)
  next
    case 3
    then show ?thesis using runs by (auto simp: sees_def unfinished_def)
  qed
qed

lemma ok_fetch_for_snapshot:
  assumes i: "inv env s0 s" and m: "mvcc_session env snapshot" and pl: "placed env snapshot s0 x"
    and n: "\<not> TransactionIdIsCurrentTransactionId env x" and c: "isCommit \<longrightarrow> settled (vlogs s0) x CLOG_XID_STATUS_COMMITTED"
    and P: "\<And>c cache v. inv env s0 (s\<lparr>fcache := cache\<rparr>) \<Longrightarrow> csn_entry (csn_pages_of (vlogs s0)) x = Some v \<Longrightarrow>
      csn_answer (snap_xmin snapshot) (Some snapshot) x v c \<Longrightarrow> latestFetchCSNXid cache = x \<Longrightarrow> latestFetchCSN cache = c \<Longrightarrow>
      P (c, False) (s\<lparr>fcache := cache\<rparr>)"
  shows "ok (fetch_for_snapshot env x isCommit snapshot) s P"
proof -
  have w: "vlogs s = vlogs s0" using inv_simps [OF i] by simp
  have sn: "local_fetch (tenv env)" "coherent (clog_part (vlogs s0)) (fcache s)" "csn_exact (vlogs s0) (fcache s)"
    using i w by (auto simp: inv_def sane_def)
  have p: "plain_read (tenv env) (Some snapshot)" using m by (simp add: plain_read_def mvcc_session_def)
  obtain v where v: "csn_view (vlogs s0) (snap_xmin snapshot) x v" "csn_entry (csn_pages_of (vlogs s0)) x = Some v"
    using pl n by (cases rule: placed_cases) (auto intro: csn_view.intros)
  obtain c cache where g: "TransactionIdGetCommitSeqNo (tenv env) (vlogs s0) x isCommit True False (Some snapshot) (fcache s) = Some (Inr (c, cache))"
    "csn_answer (snap_xmin snapshot) (Some snapshot) x v c" "csn_exact (vlogs s0) cache" "coherent (clog_part (vlogs s0)) cache"
    "latestFetchCSNXid cache = x" "latestFetchCSN cache = c"
    using get_csn_answer [of "vlogs s0" "tenv env" "Some snapshot" x v isCommit "fcache s" False] v(1) p c sn
    by (auto simp: read_horizon_def)
  have "inv env s0 (s\<lparr>fcache := cache\<rparr>)" using i g(3,4) w by (simp add: inv_def sane_def)
  then have "P (c, False) (s\<lparr>fcache := cache\<rparr>)" using P v(2) g by blast
  then have "ok (vbind (GetCommitSeqNo env x isCommit snapshot) (\<lambda>csn. vret (csn, False))) s P"
    using g(1) w by (simp add: ok_def GetCommitSeqNo_def fetch_vis_def vbind_def vret_def)
  then show ?thesis using sn(1) by (simp add: fetch_for_snapshot_def local_fetch_def Let_def)
qed

lemma answer_committed:
  assumes "csn_answer h sn x v c" "COMMITSEQNO_IS_COMMITTED v"
  shows "COMMITSEQNO_IS_COMMITTED c"
  using assms frozen_final by (auto simp: csn_answer_def csn_final_for_def)

lemma answer_same:
  assumes "csn_answer h sn x v c" "\<not> COMMITSEQNO_IS_COMMITTED v"
  shows "c = v"
  using assms by (auto simp: csn_answer_def)

lemma answer_sees:
  assumes "mvcc_session env snapshot" "csn_answer (snap_xmin snapshot) (Some snapshot) x v c" "COMMITSEQNO_IS_COMMITTED v"
    and "csn_entry (csn_pages_of (vlogs s)) x = Some v" "x < snap_xmin snapshot \<longrightarrow> sees snapshot s x" "TransactionIdIsNormal x"
  shows "c < snapshotcsn snapshot \<longleftrightarrow> sees snapshot s x"
  using assms by (auto simp: csn_answer_def sees_def mvcc_session_def)

lemma aborted_no_mark: "\<not> COMMITSEQNO_IS_COMMITTING COMMITSEQNO_ABORTED" "\<not> COMMITSEQNO_IS_COMMITTED COMMITSEQNO_ABORTED"
  using aborted_not_committed committing_iff [of COMMITSEQNO_ABORTED] by (simp_all add: COMMITSEQNO_ABORTED_def)

lemma ok_XidVisible:
  assumes i: "inv env s0 s" and m: "mvcc_session env snapshot" and pl: "placed env snapshot s0 x"
    and n: "\<not> TransactionIdIsCurrentTransactionId env x"
    and P: "\<And>st cache. inv env s0 (s\<lparr>fcache := cache\<rparr>) \<Longrightarrow> (st = XID_COMMITTED \<longrightarrow> finished_commit env s0 x) \<Longrightarrow>
      (st = XID_ABORTED \<longrightarrow> finished_abort env s0 x \<and> LatestFetchCSNDidAbort (tenv env) x cache) \<Longrightarrow>
      P (sees snapshot s0 x, st, False) (s\<lparr>fcache := cache\<rparr>)"
  shows "ok (XidVisibleInSnapshot env x snapshot) s P"
  unfolding XidVisibleInSnapshot_def xid_visible_pass_def [of _ _ _ False] ok_vbind
  apply (rule ok_fetch_for_snapshot [OF i m pl n], simp)
  subgoal premises a for c cache v
    using pl n
  proof (cases rule: placed_cases)
    case (commits w)
    then have cc: "COMMITSEQNO_IS_COMMITTED c" and "c < snapshotcsn snapshot \<longleftrightarrow> sees snapshot s0 x"
      using answer_committed [OF a(3)] answer_sees [OF m a(3) _ a(2)] a(2) by (auto simp: settled_def)
    then show ?thesis using P [OF a(1), of XID_COMMITTED] commits(1) by simp
  next
    case aborts
    have c: "c = COMMITSEQNO_ABORTED" using answer_same [OF a(3)] a(2) aborts(3) aborted_no_mark by simp
    have "LatestFetchCSNDidAbort (tenv env) x cache" using c a(5) by (simp add: LatestFetchCSNDidAbort_def aborted_is)
    then show ?thesis using P [OF a(1), of XID_ABORTED] aborts c aborted_no_mark by simp
  next
    case (runs w)
    then have c: "c = v" "unfinished v" using answer_same [OF a(3)] a(2) by (auto simp: unfinished_def)
    then show ?thesis using P [OF a(1), of XID_INPROGRESS] runs a(2) m
      by (auto simp: unfinished_def mvcc_session_def aborted_is)
  qed
  done

lemma ok_CommittedXidVisible:
  assumes i: "inv env s0 s" and m: "mvcc_session env snapshot" and pl: "placed env snapshot s0 x"
    and f: "finished_commit env s0 x" and P: "\<And>s'. inv env s0 s' \<Longrightarrow> P (sees snapshot s0 x) s'"
  shows "ok (CommittedXidVisibleInSnapshot env x snapshot) s P"
proof -
  have n: "\<not> TransactionIdIsCurrentTransactionId env x" using f by (simp add: finished_commit_def)
  obtain w where w: "settled (vlogs s0) x CLOG_XID_STATUS_COMMITTED" "csn_entry (csn_pages_of (vlogs s0)) x = Some w"
    "COMMITSEQNO_IS_COMMITTED w" "x < snap_xmin snapshot \<longrightarrow> sees snapshot s0 x"
    using pl n f by (cases rule: placed_cases) (auto simp: finished_commit_def finished_abort_def)
  have "ok (committed_visible_pass env x snapshot again) s P" for again
    unfolding committed_visible_pass_def ok_vbind
    apply (rule ok_fetch_for_snapshot [OF i m pl n])
    using w(1) apply simp
    subgoal premises a for c cache v
    proof -
      have "COMMITSEQNO_IS_COMMITTED c" "\<not> COMMITSEQNO_IS_COMMITTING c" "c < snapshotcsn snapshot \<longleftrightarrow> sees snapshot s0 x"
        using answer_committed [OF a(3)] answer_sees [OF m a(3) _ a(2) w(4)] a(2) w(1-3) committed_bits [of c]
        by (auto simp: committing_iff settled_def)
      then show ?thesis using P [OF a(1)] by simp
    qed
    done
  then show ?thesis using P [OF i] w(4) m
    by (auto simp: CommittedXidVisibleInSnapshot_def TransactionIdPrecedes_def mvcc_session_def)
qed

end
