(* ===== verification/Heap_MVCC_Properties.thy ===== *)
theory Heap_MVCC_Properties
  imports Heap_Snapshot
begin

text \<open>
  HeapTupleSatisfiesMVCC decides by the commit sequence numbers of the transactions of a row version
  and the command numbers of the current transaction.
\<close>

section \<open>Specification\<close>

definition mvcc_ready :: "vis_env \<Rightarrow> SnapshotData \<Rightarrow> vis_state \<Rightarrow> bool" where
  "mvcc_ready env snapshot s \<longleftrightarrow> truthful env s \<and> sane env s \<and> logs_agree (vlogs s) \<and> mvcc_session env snapshot \<and>
     (\<not> HeapTupleHeaderXminFrozen (hdr s) \<longrightarrow> placed env snapshot s (xmin_of_tuple env s)) \<and>
     (\<forall>d. \<not> bit (t_infomask (hdr s)) 11 \<longrightarrow> deleter env (hdr s) = Some d \<longrightarrow> placed env snapshot s d) \<and>
     (bit (t_infomask (hdr s)) 5 \<longrightarrow> unat (t_cid (hdr s)) < length (comboCids env))"

definition mvcc_visible :: "vis_env \<Rightarrow> SnapshotData \<Rightarrow> vis_state \<Rightarrow> bool" where
  "mvcc_visible env snapshot s \<longleftrightarrow>
     (if own_insert env s then HeapTupleHeaderGetCmin env (hdr s) < curcid snapshot
      else HeapTupleHeaderXminFrozen (hdr s) \<or> sees snapshot s (xmin_of_tuple env s)) \<and>
     (\<forall>d. deleter env (hdr s) = Some d \<longrightarrow>
        (if TransactionIdIsCurrentTransactionId env d then curcid snapshot \<le> HeapTupleHeaderGetCmax env (hdr s)
         else own_insert env s \<or> \<not> sees snapshot s d))"

lemma mvcc_ready_inv: "mvcc_ready env snapshot s \<Longrightarrow> inv env s s"
  by (simp add: mvcc_ready_def inv_start)

lemma aborted_unseen:
  assumes "logs_agree (vlogs s)" "finished_abort env s x"
  shows "\<not> sees snapshot s x"
proof
  assume "sees snapshot s x"
  then obtain v where v: "TransactionIdIsNormal x" "csn_entry (csn_pages_of (vlogs s)) x = Some v" "COMMITSEQNO_IS_COMMITTED v"
    by (auto simp: sees_def)
  then have "settled (vlogs s) x CLOG_XID_STATUS_COMMITTED"
    using assms(1) unfolding logs_agree_alt by (auto simp: settled_def csn_final_for_def)
  then show False using settled_outcome(1) assms(2) by (auto simp: finished_abort_def)
qed

section \<open>Steps\<close>

lemma ok_not_visible_lite: "mvcc_session env snapshot \<Longrightarrow> not_visible_lite env b x snapshot st e sync = vret (True, sync)"
  by (simp add: not_visible_lite_def mvcc_session_def)

lemma ok_set_xmin_hint:
  assumes i: "inv env s0 s" and b: "\<not> bit (t_infomask (hdr s)) 8" "\<not> bit (t_infomask (hdr s)) 9"
    and k: "known env s0 (xmin_of_tuple env s0)"
    and c: "st = XID_COMMITTED \<longrightarrow> finished_commit env s0 (xmin_of_tuple env s0)"
    and a: "st = XID_ABORTED \<longrightarrow> finished_abort env s0 (xmin_of_tuple env s0) \<and>
      LatestFetchCSNDidAbort (tenv env) (xmin_of_tuple env s0) (fcache s)"
    and P: "\<And>s'. inv env s0 s' \<Longrightarrow> P () s'"
  shows "ok (set_xmin_hint env st) s P"
proof (cases st)
  case XID_COMMITTED
  have "ok (SetHintBits env HEAP_XMIN_COMMITTED (xmin_of_tuple env s0)) s P"
    by (rule ok_xmin_hint [OF i b]) (use XID_COMMITTED c k P in auto)
  then show ?thesis using XID_COMMITTED inv_simps [OF i] by (simp add: set_xmin_hint_def)
next
  case XID_ABORTED
  have "ok (SetHintBits env HEAP_XMIN_INVALID InvalidTransactionId) s P"
    by (rule ok_xmin_hint [OF i b]) (use XID_ABORTED a P in auto)
  then show ?thesis using XID_ABORTED a inv_simps [OF i] by (simp add: set_xmin_hint_def check_latest_csn_abort_def ok_def vthen_def vbind_def vread_def vret_def)
next
  case XID_INPROGRESS
  then show ?thesis using P [OF i] by (simp add: set_xmin_hint_def)
qed

lemma ok_set_xmax_hint:
  assumes i: "inv env s0 s" and k: "known env s0 (xmax_of_tuple env s0)"
    and d: "deleter env (hdr s0) = Some (xmax_of_tuple env s0)"
    and c: "st = XID_COMMITTED \<longrightarrow> finished_commit env s0 (xmax_of_tuple env s0)"
    and a: "st = XID_ABORTED \<longrightarrow> finished_abort env s0 (xmax_of_tuple env s0) \<and>
      LatestFetchCSNDidAbort (tenv env) (xmax_of_tuple env s0) (fcache s)"
    and P: "\<And>s'. inv env s0 s' \<Longrightarrow> P () s'"
  shows "ok (set_xmax_hint env st) s P"
proof (cases st)
  case XID_COMMITTED
  have "ok (SetHintBits env HEAP_XMAX_COMMITTED (xmax_of_tuple env s0)) s P"
    by (rule ok_xmax_committed [OF i d k]) (use XID_COMMITTED c P in auto)
  then show ?thesis using XID_COMMITTED inv_simps [OF i] by (simp add: set_xmax_hint_def)
next
  case XID_ABORTED
  have "ok (SetHintBits env HEAP_XMAX_INVALID InvalidTransactionId) s P"
    by (rule ok_xmax_invalid [OF i]) (use XID_ABORTED a d P in auto)
  then show ?thesis using XID_ABORTED a inv_simps [OF i] by (simp add: set_xmax_hint_def check_latest_csn_abort_def ok_def vthen_def vbind_def vread_def vret_def)
next
  case XID_INPROGRESS
  then show ?thesis using P [OF i] by (simp add: set_xmax_hint_def)
qed

lemma ok_recheck:
  assumes "ok (MVCC_xmax_round env snapshot) s (\<lambda>r s'. case r of Inl _ \<Rightarrow> False | Inr b \<Rightarrow> P b s')"
  shows "ok (recheck_xmax env snapshot) s P"
proof -
  obtain r s' where m: "MVCC_xmax_round env snapshot s = Some (Inr (r, s'))" and c: "case r of Inl _ \<Rightarrow> False | Inr b \<Rightarrow> P b s'"
    using assms by (auto simp: ok_def)
  from c show ?thesis by (cases r) (simp_all add: ok_def recheck_xmax.simps [of env snapshot s] m)
qed

section \<open>The parts of the check\<close>

lemma MVCC_own_ok:
  assumes r: "mvcc_ready env snapshot s" and o: "own_insert env s"
  shows "ok (MVCC_own env snapshot) s (\<lambda>b s'. b = mvcc_visible env snapshot s \<and> inv env s s')"
proof -
  note i = mvcc_ready_inv [OF r]
  have cur: "TransactionIdIsCurrentTransactionId env (xmin_of_tuple env s)" using o by (simp add: own_insert_def)
  have own: "TransactionIdIsCurrentTransactionId env d \<or> finished_abort env s d" if "deleter env (hdr s) = Some d" for d
    using r cur that by (auto simp: mvcc_ready_def truthful_def)
  have b11: "\<not> TransactionIdIsCurrentTransactionId env d" if "bit (t_infomask (hdr s)) 11" "deleter env (hdr s) = Some d" for d
    using inv_hints(1) [OF i that] by (simp add: finished_abort_def)
  have hint: "ok (SetHintBits env HEAP_XMAX_INVALID InvalidTransactionId) s1 (\<lambda>_ s'. inv env s s')"
    if "inv env s s1" "\<not> TransactionIdIsCurrentTransactionId env (xmax_of_tuple env s)" "\<not> locked_only (hdr s)"
      "\<not> bit (t_infomask (hdr s)) 12" for s1
    by (rule ok_xmax_invalid [OF that(1)]) (use own that in \<open>auto simp: deleter_cases\<close>)
  have cc: "CheckStreamCombocid env (hdr s) = vret False" if "bit (t_infomask (hdr s)) 5"
    using r that by (auto simp: mvcc_ready_def CheckStreamCombocid_def)
  have vis: "mvcc_visible env snapshot s \<longleftrightarrow> HeapTupleHeaderGetCmin env (hdr s) < curcid snapshot \<and>
      (\<forall>d. deleter env (hdr s) = Some d \<longrightarrow> TransactionIdIsCurrentTransactionId env d \<longrightarrow> curcid snapshot \<le> HeapTupleHeaderGetCmax env (hdr s))"
    using o by (auto simp: mvcc_visible_def)
  show ?thesis
    using i b11 hint cc unfolding MVCC_own_def vis
    by (auto simp: flag_bits deleter_cases not_le intro!: ok_note_write elim!: ok_mono)
qed

lemma MVCC_xmin_ok:
  assumes r: "mvcc_ready env snapshot s"
  shows "ok (MVCC_xmin env snapshot) s (\<lambda>d s'. inv env s s' \<and> (case d of
      Some b \<Rightarrow> b = mvcc_visible env snapshot s
    | None \<Rightarrow> \<not> own_insert env s \<and> (HeapTupleHeaderXminFrozen (hdr s) \<or> sees snapshot s (xmin_of_tuple env s))))"
proof -
  let ?x = "xmin_of_tuple env s" and ?m = "t_infomask (hdr s)"
  let ?Q = "\<lambda>d s'. inv env s s' \<and> (case d of Some b \<Rightarrow> b = mvcc_visible env snapshot s
    | None \<Rightarrow> \<not> own_insert env s \<and> (HeapTupleHeaderXminFrozen (hdr s) \<or> sees snapshot s ?x))"
  note i = mvcc_ready_inv [OF r]
  have sess: "mvcc_session env snapshot" and agree: "logs_agree (vlogs s)" and t: "truthful env s"
    and pl: "\<not> HeapTupleHeaderXminFrozen (hdr s) \<Longrightarrow> placed env snapshot s ?x"
    and ver: "\<not> IsVersionMVCCSnapshot snapshot"
    using r by (auto simp: mvcc_ready_def mvcc_session_def IsVersionMVCCSnapshot_def)
  have hid: "\<not> own_insert env s \<Longrightarrow> \<not> HeapTupleHeaderXminFrozen (hdr s) \<Longrightarrow> \<not> sees snapshot s ?x \<Longrightarrow> \<not> mvcc_visible env snapshot s"
    by (simp add: mvcc_visible_def)
  consider (own) "own_insert env s" | (inval) "\<not> own_insert env s" "bit ?m 9" "\<not> bit ?m 8"
    | (frozen) "\<not> own_insert env s" "bit ?m 9" "bit ?m 8" | (comm) "\<not> own_insert env s" "\<not> bit ?m 9" "bit ?m 8"
    | (unknown) "\<not> own_insert env s" "\<not> bit ?m 9" "\<not> bit ?m 8" by blast
  then show ?thesis
  proof cases
    case own
    then have b: "\<not> bit ?m 8" "\<not> bit ?m 9" "TransactionIdIsCurrentTransactionId env ?x"
      using t by (auto simp: own_insert_def truthful_def finished_abort_def)
    then show ?thesis using MVCC_own_ok [OF r own] ver by (auto simp: MVCC_xmin_def header_bits elim!: ok_mono)
  next
    case inval
    have "finished_abort env s ?x" using t inval by (auto simp: truthful_def)
    then show ?thesis using inval hid aborted_unseen [OF agree] i by (simp add: MVCC_xmin_def header_bits)
  next
    case frozen
    then show ?thesis using i by (simp add: MVCC_xmin_def header_bits)
  next
    case comm
    have "ok (CommittedXidVisibleInSnapshot env ?x snapshot) s (\<lambda>b s'. b = sees snapshot s ?x \<and> inv env s s')"
      by (rule ok_CommittedXidVisible [OF i sess]) (use pl t comm in \<open>auto simp: header_bits truthful_def\<close>)
    then show ?thesis using comm hid ok_not_visible_lite [OF sess]
      by (auto simp: MVCC_xmin_def header_bits elim!: ok_mono)
  next
    case unknown
    then have n: "\<not> TransactionIdIsCurrentTransactionId env ?x" by (simp add: own_insert_def)
    have p: "placed env snapshot s ?x" using pl unknown by (simp add: header_bits)
    have k: "known env s ?x" using p by (simp add: placed_def)
    have "ok (XidVisibleInSnapshot env ?x snapshot) s (\<lambda>(b, st, sync) s'. b = sees snapshot s ?x \<and>
        ok (set_xmin_hint env st) s' (\<lambda>_ s''. inv env s s''))"
      by (rule ok_XidVisible [OF i sess p n]) (use unknown k in \<open>auto intro!: ok_set_xmin_hint\<close>)
    then have "ok (XidVisibleInSnapshot env ?x snapshot) s (\<lambda>(b, st, sync) s'. ok (set_xmin_hint env st) s'
        (\<lambda>_ s''. ?Q (if \<not> sees snapshot s ?x then Some False else None) s'' \<and> b = sees snapshot s ?x))"
      by (rule ok_mono) (use unknown hid in \<open>auto elim!: ok_mono simp: header_bits\<close>)
    then show ?thesis using unknown n ok_not_visible_lite [OF sess]
      by (simp add: MVCC_xmin_def header_bits, elim ok_mono) (auto elim!: ok_mono)
  qed
qed

lemma MVCC_multi_ok:
  assumes r: "mvcc_ready env snapshot s0" and i: "inv env s0 s" and b: "\<not> bit (t_infomask (hdr s)) 11" "bit (t_infomask (hdr s0)) 12"
    and l: "\<not> locked_only (hdr s0)" and v: "mvcc_visible env snapshot s0 = (if TransactionIdIsCurrentTransactionId env d
        then curcid snapshot \<le> HeapTupleHeaderGetCmax env (hdr s0) else \<not> sees snapshot s0 d)"
    and d: "d = HeapTupleHeaderMultiXactGetUpdateXid env (hdr s0)"
  shows "ok (MVCC_xmax_multi env snapshot) s (\<lambda>b s'. b = mvcc_visible env snapshot s0 \<and> inv env s0 s')"
proof -
  note E = inv_simps [OF i]
  have sess: "mvcc_session env snapshot" and p: "placed env snapshot s0 d"
    using r inv_hints(3) [OF i b(1)] b(2) l d by (auto simp: mvcc_ready_def deleter_cases)
  show ?thesis
  proof (cases "TransactionIdIsCurrentTransactionId env d \<or> TransactionIdIsInProgress s0 d")
    case True
    have "\<not> sees snapshot s0 d" if "\<not> TransactionIdIsCurrentTransactionId env d"
      using p that True by (cases rule: placed_cases) (auto simp: finished_commit_def finished_abort_def)
    then show ?thesis using True E i v unfolding d by (auto simp: MVCC_xmax_multi_def Let_def)
  next
    case False
    have k: "known env s0 d" using p by (simp add: placed_def)
    have un: "\<not> sees snapshot s0 d" if "\<not> committed env s0 d"
      using p False that by (elim placed_cases) (auto simp: finished_commit_def)
    have fc: "finished_commit env s0 d" if "committed env s0 d" using False that by (simp add: finished_commit_def)
    have "ok (DidCommit env d) s (\<lambda>c s'. ok (if c then vbind (CommittedXidVisibleInSnapshot env d snapshot) (\<lambda>visible. vret (\<not> visible))
        else vret True) s' (\<lambda>b s'. b = mvcc_visible env snapshot s0 \<and> inv env s0 s'))"
      by (rule ok_DidCommit [OF i k])
        (use False un v in \<open>auto intro!: ok_CommittedXidVisible [OF _ sess p fc]\<close>)
    then show ?thesis using False unfolding MVCC_xmax_multi_def ok_vread Let_def E d by simp
  qed
qed

lemma MVCC_running_ok:
  assumes r: "mvcc_ready env snapshot s0" and i: "inv env s0 s" and b: "\<not> bit (t_infomask (hdr s)) 11" "\<not> bit (t_infomask (hdr s0)) 12"
    and l: "\<not> locked_only (hdr s0)" and d: "d = xmax_of_tuple env s0"
    and v: "mvcc_visible env snapshot s0 = (if TransactionIdIsCurrentTransactionId env d
        then curcid snapshot \<le> HeapTupleHeaderGetCmax env (hdr s0) else \<not> sees snapshot s0 d)"
  shows "ok (MVCC_xmax_running env snapshot) s (\<lambda>b s'. b = Inr (mvcc_visible env snapshot s0) \<and> inv env s0 s')"
proof -
  note E = inv_simps [OF i]
  have sess: "mvcc_session env snapshot" and p: "placed env snapshot s0 d" and ver: "\<not> IsVersionMVCCSnapshot snapshot"
    and dl: "deleter env (hdr s0) = Some d"
    using r inv_hints(3) [OF i b(1)] b(2) l d by (auto simp: mvcc_ready_def deleter_cases mvcc_session_def IsVersionMVCCSnapshot_def)
  have k: "known env s0 d" using p by (simp add: placed_def)
  show ?thesis
  proof (cases "TransactionIdIsCurrentTransactionId env d")
    case True
    then show ?thesis using E i v ver unfolding d by (auto simp: MVCC_xmax_running_def Let_def intro!: ok_note_write)
  next
    case False
    have "ok (XidVisibleInSnapshot env d snapshot) s (\<lambda>(b, st, sync) s'. inv env s0 s' \<and> b = sees snapshot s0 d \<and> \<not> sync \<and>
        ok (set_xmax_hint env st) s' (\<lambda>_ s''. inv env s0 s''))"
      by (rule ok_XidVisible [OF i sess p False]) (use k dl in \<open>auto intro!: ok_set_xmax_hint simp: d\<close>)
    then show ?thesis using False E v ver ok_not_visible_lite [OF sess] unfolding d
      by (simp add: MVCC_xmax_running_def Let_def, elim ok_mono) (auto elim!: ok_mono)
  qed
qed

lemma MVCC_xmax_ok:
  assumes r: "mvcc_ready env snapshot s0" and i: "inv env s0 s" and o: "\<not> own_insert env s0"
    and ins: "HeapTupleHeaderXminFrozen (hdr s0) \<or> sees snapshot s0 (xmin_of_tuple env s0)"
  shows "ok (recheck_xmax env snapshot) s (\<lambda>b s'. b = mvcc_visible env snapshot s0 \<and> inv env s0 s')"
proof (rule ok_recheck)
  let ?m = "t_infomask (hdr s)" and ?P = "\<lambda>r s'. case r of Inl _ \<Rightarrow> False | Inr b \<Rightarrow> b = mvcc_visible env snapshot s0 \<and> inv env s0 s'"
  note E = inv_simps [OF i]
  have v: "mvcc_visible env snapshot s0 = (if TransactionIdIsCurrentTransactionId env d
        then curcid snapshot \<le> HeapTupleHeaderGetCmax env (hdr s0) else \<not> sees snapshot s0 d)" if "deleter env (hdr s0) = Some d" for d
    using that o ins by (auto simp: mvcc_visible_def)
  have sess: "mvcc_session env snapshot" and agree: "logs_agree (vlogs s0)" using r by (auto simp: mvcc_ready_def)
  consider (inval) "bit ?m 11" | (lock) "\<not> bit ?m 11" "locked_only (hdr s0)"
    | (multi) "\<not> bit ?m 11" "\<not> locked_only (hdr s0)" "bit (t_infomask (hdr s0)) 12"
    | (run) "\<not> bit ?m 11" "\<not> locked_only (hdr s0)" "\<not> bit (t_infomask (hdr s0)) 12" "\<not> bit ?m 10"
    | (comm) "\<not> bit ?m 11" "\<not> locked_only (hdr s0)" "\<not> bit (t_infomask (hdr s0)) 12" "bit ?m 10" by blast
  then show "ok (MVCC_xmax_round env snapshot) s ?P"
  proof cases
    case inval
    have "mvcc_visible env snapshot s0"
      using o ins inv_hints(1) [OF i inval] aborted_unseen [OF agree] by (auto simp: mvcc_visible_def finished_abort_def)
    then show ?thesis using inval i by (simp add: MVCC_xmax_round_def flag_bits Let_def)
  next
    case lock
    then have "mvcc_visible env snapshot s0" using o ins by (auto simp: mvcc_visible_def deleter_cases)
    then show ?thesis using lock i E by (simp add: MVCC_xmax_round_def flag_bits Let_def)
  next
    case multi
    have "ok (MVCC_xmax_multi env snapshot) s (\<lambda>b s'. b = mvcc_visible env snapshot s0 \<and> inv env s0 s')"
      by (rule MVCC_multi_ok [OF r i multi(1,3,2) _ refl]) (use v multi in \<open>simp add: deleter_cases\<close>)
    then show ?thesis using multi E by (auto simp: MVCC_xmax_round_def flag_bits Let_def elim!: ok_mono)
  next
    case run
    have "ok (MVCC_xmax_running env snapshot) s (\<lambda>b s'. b = Inr (mvcc_visible env snapshot s0) \<and> inv env s0 s')"
      by (rule MVCC_running_ok [OF r i run(1,3,2) refl]) (use v run in \<open>simp add: deleter_cases\<close>)
    then show ?thesis using run E by (auto simp: MVCC_xmax_round_def flag_bits Let_def elim!: ok_mono)
  next
    case comm
    let ?d = "xmax_of_tuple env s0"
    have d: "deleter env (hdr s0) = Some ?d" using comm by (simp add: deleter_cases)
    have fc: "finished_commit env s0 ?d" by (rule inv_hints(2) [OF i comm(4,1) d])
    have p: "placed env snapshot s0 ?d" using r d inv_hints(3) [OF i comm(1)] by (simp add: mvcc_ready_def)
    have "ok (CommittedXidVisibleInSnapshot env ?d snapshot) s (\<lambda>b s'. b = sees snapshot s0 ?d \<and> inv env s0 s')"
      by (rule ok_CommittedXidVisible [OF i sess p fc]) simp
    moreover have "mvcc_visible env snapshot s0 = (\<not> sees snapshot s0 ?d)" using v [OF d] fc by (simp add: finished_commit_def)
    ultimately show ?thesis using comm E ok_not_visible_lite [OF sess]
      by (auto simp: MVCC_xmax_round_def flag_bits Let_def elim!: ok_mono)
  qed
qed

lemma MVCC_ok:
  assumes "mvcc_ready env snapshot s"
  shows "\<exists>s'. HeapTupleSatisfiesMVCC env snapshot s = Some (Inr (mvcc_visible env snapshot s, s')) \<and> inv env s s'"
proof -
  have "ok (go_on (MVCC_xmin env snapshot) (recheck_xmax env snapshot)) s (\<lambda>b s'. b = mvcc_visible env snapshot s \<and> inv env s s')"
    unfolding ok_go_on
    by (rule ok_mono [OF MVCC_xmin_ok [OF assms]]) (auto split: option.splits intro: MVCC_xmax_ok [OF assms])
  moreover have "\<not> show_any_tuples env" using assms by (simp add: mvcc_ready_def mvcc_session_def)
  ultimately show ?thesis by (auto simp: HeapTupleSatisfiesMVCC_def ok_def)
qed

section \<open>Properties\<close>


definition demo_snapshot :: "TransactionId \<Rightarrow> CommitSeqNo \<Rightarrow> SnapshotData" where
  "demo_snapshot xmin csn = \<lparr>satisfies = SNAPSHOT_MVCC, snap_xmin = xmin, snap_xmax = 103, subxid = 0, xip = [], subxip = [],
     snapshotcsn = csn, prepared_array = [], takenDuringRecovery = False, curcid = 3,
     gtm_snapshot_type = GTM_SNAPSHOT_TYPE_LOCAL\<rparr>"

lemma demo_snapshot_simps [simp]:
  "snapshotcsn (demo_snapshot h c) = c" "snap_xmin (demo_snapshot h c) = h" "satisfies (demo_snapshot h c) = SNAPSHOT_MVCC"
  "curcid (demo_snapshot h c) = 3"
  by (simp_all add: demo_snapshot_def)

lemma demo_normal: "x \<in> {100, 101, 102} \<Longrightarrow> TransactionIdIsNormal x"
  by (auto simp: TransactionIdIsNormal_def special_xids word_le_nat_alt)

lemma demo_sees:
  assumes "vis_demo_logs logs"
  shows "x \<in> {100, 101} \<Longrightarrow> sees (demo_snapshot h c) (vis_demo_state xmin xmax m logs) x \<longleftrightarrow> 5 < c"
    "\<not> sees (demo_snapshot h c) (vis_demo_state xmin xmax m logs) 102"
  using vis_demo_facts(2) [OF assms, of x] vis_demo_facts(2) [OF assms, of 102] blank_logs_entry [of 102] demo_csn(2)
    demo_normal [of x] zero_not_aborted by (auto simp: sees_def word_less_nat_alt)

lemma demo_placed:
  assumes "vis_demo_logs logs" "x \<in> {100, 101, 102}" "h \<le> 102" "100 < h \<longrightarrow> 5 < c"
  shows "placed vis_demo_env (demo_snapshot h c) (vis_demo_state xmin xmax m logs) x"
proof (cases "x = 102")
  case True
  have "unfinished 0" "\<not> COMMITSEQNO_IS_COMMITTING 0"
    using zero_not_aborted committing_iff [of 0] subtrans_iff [of 0] by (simp_all add: unfinished_def)
  then show ?thesis
    using True assms(3) vis_demo_sane(2) [OF assms(1), of 102] vis_demo_facts(2) [OF assms(1), of 102] blank_logs_entry [of 102] demo_normal [of 102]
    by (simp add: placed_def word_less_nat_alt word_le_nat_alt)
next
  case False
  have "settled logs x CLOG_XID_STATUS_COMMITTED"
    using False assms(2) vis_demo_facts [OF assms(1), of x] demo_csn(2) demo_normal [of x]
    by (auto simp: settled_def csn_final_for_def)
  moreover have "x < h \<longrightarrow> sees (demo_snapshot h c) (vis_demo_state xmin xmax m logs) x"
    using False assms(2,4) demo_sees(1) [OF assms(1), of x h c] by (auto simp: word_less_nat_alt)
  ultimately show ?thesis using False assms(2) vis_demo_sane(2) [OF assms(1), of x]
    by (auto simp: placed_def word_less_nat_alt)
qed

lemma demo_agree:
  assumes "vis_demo_logs logs"
  shows "logs_agree logs"
  using blank_agree demo_csn(2) committed_not_aborted [of 5]
  unfolding logs_agree_def vis_demo_facts [OF assms] by auto

lemma demo_mvcc_ready:
  assumes "vis_demo_logs logs" "COMMITSEQNO_FROZEN < c" "h \<le> 102" "100 < h \<longrightarrow> 5 < c"
  shows "mvcc_ready vis_demo_env (demo_snapshot h c) (vis_demo_state 100 102 0 logs)"
    "mvcc_ready vis_demo_env (demo_snapshot h c) (vis_demo_state 100 101 0 logs)"
proof -
  have "mvcc_session vis_demo_env (demo_snapshot h c)"
    using assms(2) by (simp add: mvcc_session_def) (simp add: vis_demo_env_def trans_demo_env_def)
  then show "mvcc_ready vis_demo_env (demo_snapshot h c) (vis_demo_state 100 102 0 logs)"
    "mvcc_ready vis_demo_env (demo_snapshot h c) (vis_demo_state 100 101 0 logs)"
    using vis_demo_ready [OF assms(1)] demo_placed [OF assms(1) _ assms(3,4)] demo_agree [OF assms(1)]
    by (auto simp: mvcc_ready_def ready_def vis_demo_xids deleter_cases)
qed


end
