(* ===== verification/Heap_Vacuum.thy ===== *)
theory Heap_Vacuum
  imports Heap_MVCC_Properties
begin

text \<open>
  HeapTupleSatisfiesVacuum: the status of a row version for vacuum from the outcomes of its
  transactions, and that what vacuum may remove no snapshot sees.
\<close>

section \<open>Specification\<close>

text \<open>A transaction as the reads of vacuum may meet it.\<close>

definition vacuum_placed :: "vis_env \<Rightarrow> vis_state \<Rightarrow> TransactionId \<Rightarrow> bool" where
  "vacuum_placed env s x \<longleftrightarrow> known env s x \<and>
     (\<not> TransactionIdIsInProgress s x \<and> \<not> TransactionIdIsCurrentTransactionId env x \<and>
        (settled (vlogs s) x CLOG_XID_STATUS_COMMITTED \<or> settled (vlogs s) x CLOG_XID_STATUS_ABORTED) \<or>
      TransactionIdIsInProgress s x \<and> TransactionIdIsNormal x \<and> RecentXmin (tenv env) \<le> x \<and>
        (\<exists>v. csn_entry (csn_pages_of (vlogs s)) x = Some v \<and> unfinished v))"

definition vacuum_ready :: "vis_env \<Rightarrow> vis_state \<Rightarrow> bool" where
  "vacuum_ready env s \<longleftrightarrow> truthful env s \<and> sane env s \<and> \<not> GTM_LITE_MODE (tenv env) \<and>
     (\<not> useLocalSnapshot (csn_env_of (tenv env)) \<or> IsInitdb env) \<and>
     (\<not> HeapTupleHeaderXminFrozen (hdr s) \<longrightarrow> vacuum_placed env s (xmin_of_tuple env s)) \<and>
     (\<not> bit (t_infomask (hdr s)) 11 \<longrightarrow>
        (if bit (t_infomask (hdr s)) 12
         then \<not> locked_only (hdr s) \<longrightarrow> vacuum_placed env s (HeapTupleHeaderMultiXactGetUpdateXid env (hdr s))
         else vacuum_placed env s (xmax_of_tuple env s)))"

definition vacuum_result :: "vis_env \<Rightarrow> TransactionId \<Rightarrow> vis_state \<Rightarrow> HTSV_Result" where
  "vacuum_result env OldestXmin s =
     (let x = xmin_of_tuple env s; frozen = HeapTupleHeaderXminFrozen (hdr s)
      in if \<not> frozen \<and> TransactionIdIsCurrentTransactionId env x
         then if \<not> bit (t_infomask (hdr s)) 11 \<and> \<not> locked_only (hdr s) \<and>
                 TransactionIdIsCurrentTransactionId env (xmax_of_tuple env s)
              then HEAPTUPLE_DELETE_IN_PROGRESS else HEAPTUPLE_INSERT_IN_PROGRESS
         else if \<not> frozen \<and> TransactionIdIsInProgress s x then HEAPTUPLE_INSERT_IN_PROGRESS
         else if \<not> frozen \<and> \<not> committed env s x then HEAPTUPLE_DEAD
         else case deleter env (hdr s) of
                None \<Rightarrow> HEAPTUPLE_LIVE
              | Some d \<Rightarrow>
                  if TransactionIdIsInProgress s d then HEAPTUPLE_DELETE_IN_PROGRESS
                  else if \<not> committed env s d then HEAPTUPLE_LIVE
                  else if d < OldestXmin then HEAPTUPLE_DEAD else HEAPTUPLE_RECENTLY_DEAD)"

text \<open>The tuple with the bases of its page, which the check copies first.\<close>

definition with_bases :: "vis_env \<Rightarrow> vis_state \<Rightarrow> vis_state" where
  "with_bases env s = s\<lparr>htup := HeapTupleCopyBaseFromPage env (htup s)\<rparr>"

lemma with_bases_simps [simp]:
  "hdr (with_bases env s) = hdr s" "vlogs (with_bases env s) = vlogs s" "fcache (with_bases env s) = fcache s"
  "TransactionIdIsInProgress (with_bases env s) = TransactionIdIsInProgress s"
  by (simp_all add: with_bases_def HeapTupleCopyBaseFromPage_def)

lemma with_bases_same [simp]:
  "committed env (with_bases env s) x = committed env s x" "known env (with_bases env s) x = known env s x"
  "truthful env (with_bases env s) = truthful env s" "sane env (with_bases env s) = sane env s"
  "vacuum_placed env (with_bases env s) x = vacuum_placed env s x"
  by (simp_all add: committed_def known_def truthful_def sane_def finished_commit_def finished_abort_def vacuum_placed_def)

lemma with_bases_spec:
  "vacuum_ready env (with_bases env s) = vacuum_ready env s"
  "vacuum_result env OldestXmin (with_bases env s) = vacuum_result env OldestXmin s"
  unfolding vacuum_ready_def vacuum_result_def with_bases_simps with_bases_same by (rule refl)+

text \<open>The bases of the tuple are those of the page.\<close>

definition based :: "vis_env \<Rightarrow> vis_state \<Rightarrow> bool" where
  "based env s \<longleftrightarrow> HeapTupleGetRawXmin (htup s) = xmin_of_tuple env s \<and> HeapTupleGetRawXmax (htup s) = xmax_of_tuple env s"

lemma with_bases_based: "based env (with_bases env s)"
  by (simp add: based_def with_bases_def HeapTupleCopyBaseFromPage_def HeapTupleGetRawXmin_def HeapTupleGetRawXmax_def
      HeapTupleHeaderGetXmin_def HeapTupleHeaderGetXmax_def)

lemma hinted_based: "hinted s s' \<Longrightarrow> based env s \<Longrightarrow> based env s'"
  by (auto simp: based_def hinted_def HeapTupleGetRawXmin_def HeapTupleGetRawXmax_def
      HeapTupleHeaderGetXmin_def HeapTupleHeaderGetXmax_def flag_bits)

lemma inv_based: "inv env s0 s \<Longrightarrow> based env s0 \<Longrightarrow>
    HeapTupleGetRawXmin (htup s) = xmin_of_tuple env s0 \<and> HeapTupleGetRawXmax (htup s) = xmax_of_tuple env s0"
  using hinted_based inv_simps(1,2) by (auto simp: inv_def based_def)

section \<open>Reading the status\<close>

text \<open>The outcome of a transaction, and what the caches show afterwards.\<close>

lemma vacuum_outcome:
  assumes "vacuum_placed env s x" "\<not> TransactionIdIsInProgress s x"
  shows "finished_commit env s x \<and> settled (vlogs s) x CLOG_XID_STATUS_COMMITTED \<or>
    finished_abort env s x \<and> settled (vlogs s) x CLOG_XID_STATUS_ABORTED"
  using assms settled_outcome(1) [of s x env] settled_outcome(2) [of s x env]
  unfolding vacuum_placed_def finished_commit_def finished_abort_def by blast

lemma latest_csn_aborted:
  "latestFetchCSNXid c = x \<Longrightarrow> latestFetchCSN c = COMMITSEQNO_ABORTED \<Longrightarrow> LatestFetchTransactionIdDidAbort env x c"
  by (simp add: LatestFetchTransactionIdDidAbort_def aborted_is)

lemma ok_GetStatus:
  assumes i: "inv env s0 s" and pl: "vacuum_placed env s0 x" and g: "\<not> GTM_LITE_MODE (tenv env)"
    and P: "\<And>cache. inv env s0 (s\<lparr>fcache := cache\<rparr>) \<Longrightarrow>
      (finished_abort env s0 x \<longrightarrow> LatestFetchTransactionIdDidAbort (tenv env) x cache) \<Longrightarrow>
      P (if TransactionIdIsInProgress s0 x then XID_INPROGRESS else if committed env s0 x then XID_COMMITTED else XID_ABORTED)
        (s\<lparr>fcache := cache\<rparr>)"
  shows "ok (GetStatus env x) s P"
proof -
  have w: "vlogs s = vlogs s0" using inv_simps [OF i] by simp
  have sn: "coherent (clog_part (vlogs s0)) (fcache s)" "csn_exact (vlogs s0) (fcache s)"
    using i w by (auto simp: inv_def sane_def)
  have p: "plain_read (tenv env) None" using g by (simp add: plain_read_def)
  obtain v where v: "csn_view (vlogs s0) (RecentXmin (tenv env)) x v" "csn_entry (csn_pages_of (vlogs s0)) x = Some v"
  proof (cases "TransactionIdIsInProgress s0 x")
    case True
    then show ?thesis using pl that view_running unfolding vacuum_placed_def by blast
  next
    case False
    then obtain st where "settled (vlogs s0) x st" using vacuum_outcome [OF pl] by blast
    moreover then obtain v where "csn_entry (csn_pages_of (vlogs s0)) x = Some v" by (auto simp: settled_def)
    ultimately show ?thesis using that view_finished by blast
  qed
  obtain c cache where c: "TransactionIdGetCommitSeqNo (tenv env) (vlogs s0) x False True True None (fcache s) = Some (Inr (c, cache))"
    "csn_answer (RecentXmin (tenv env)) None x v c" "csn_exact (vlogs s0) cache" "coherent (clog_part (vlogs s0)) cache"
    "latestFetchCSNXid cache = x" "latestFetchCSN cache = c"
    using get_csn_answer [of "vlogs s0" "tenv env" None x v False "fcache s" True] v(1) p sn
    by (auto simp: read_horizon_def)
  let ?st = "if TransactionIdIsInProgress s0 x then XID_INPROGRESS else if committed env s0 x then XID_COMMITTED else XID_ABORTED"
  have a: "finished_abort env s0 x \<Longrightarrow> c = COMMITSEQNO_ABORTED"
    and st: "?st = (if COMMITSEQNO_IS_COMMITTED c then XID_COMMITTED else if COMMITSEQNO_IS_ABORTED c then XID_ABORTED else XID_INPROGRESS)"
  proof -
    have "finished_abort env s0 x \<Longrightarrow> v = COMMITSEQNO_ABORTED"
      using vacuum_outcome [OF pl] v(2) by (auto simp: finished_abort_def finished_commit_def settled_def csn_final_for_def aborted_is)
    then show a: "finished_abort env s0 x \<Longrightarrow> c = COMMITSEQNO_ABORTED" using answer_same [OF c(2)] aborted_no_mark by auto
    show "?st = (if COMMITSEQNO_IS_COMMITTED c then XID_COMMITTED else if COMMITSEQNO_IS_ABORTED c then XID_ABORTED else XID_INPROGRESS)"
    proof (cases "TransactionIdIsInProgress s0 x")
      case True
      then have "unfinished v" using pl v(2) by (auto simp: vacuum_placed_def)
      then show ?thesis using True answer_same [OF c(2)] by (auto simp: unfinished_def)
    next
      case False
      then show ?thesis
        using vacuum_outcome [OF pl False] a answer_committed [OF c(2)] v(2) aborted_no_mark
        by (auto simp: finished_abort_def finished_commit_def settled_def csn_final_for_def aborted_is)
    qed
  qed
  have "inv env s0 (s\<lparr>fcache := cache\<rparr>)" using i c w by (simp add: inv_def sane_def)
  then have "P ?st (s\<lparr>fcache := cache\<rparr>)" by (rule P) (use a latest_csn_aborted [OF c(5)] c(6) in blast)
  then show ?thesis using c(1) w st by (simp add: ok_def GetStatus_def fetch_vis_def TransactionIdGetStatus_def)
qed

section \<open>The parts of the check\<close>

text \<open>The inserting transaction decides, or it is visible to all later transactions.\<close>

definition insert_done :: "vis_env \<Rightarrow> vis_state \<Rightarrow> bool" where
  "insert_done env s \<longleftrightarrow> HeapTupleHeaderXminFrozen (hdr s) \<or>
     (\<not> TransactionIdIsCurrentTransactionId env (xmin_of_tuple env s) \<and>
      \<not> TransactionIdIsInProgress s (xmin_of_tuple env s) \<and> committed env s (xmin_of_tuple env s))"

lemma ok_vacuum_status:
  assumes i: "inv env s0 s" and pl: "vacuum_placed env s0 x" and n: "\<not> TransactionIdIsInProgress s0 x"
    and st: "st = (if committed env s0 x then XID_COMMITTED else XID_ABORTED)"
  shows "ok (vacuum_status env st x) s P \<longleftrightarrow> P (if committed env s0 x then Some False else None) s"
  using n inv_simps(12) [OF i] unfolding st vacuum_status_def ok_vread by simp

lemma Vacuum_xmin_ok:
  assumes r: "vacuum_ready env s" and bs: "based env s"
  shows "ok (Vacuum_xmin env a) s (\<lambda>d s'. inv env s s' \<and> (case d of
      Some b \<Rightarrow> b = vacuum_result env OldestXmin s \<and> \<not> insert_done env s | None \<Rightarrow> insert_done env s))"
proof -
  let ?x = "xmin_of_tuple env s" and ?m = "t_infomask (hdr s)"
  let ?Q = "\<lambda>d s'. inv env s s' \<and> (case d of
      Some b \<Rightarrow> b = vacuum_result env OldestXmin s \<and> \<not> insert_done env s | None \<Rightarrow> insert_done env s)"
  have t: "truthful env s" "sane env s" and g: "\<not> GTM_LITE_MODE (tenv env)"
    and loc: "unless_local env HEAPTUPLE_DEAD = HEAPTUPLE_DEAD"
    using r by (auto simp: vacuum_ready_def unless_local_def)
  note i = inv_start [OF t]
  have raw: "HeapTupleGetRawXmin (htup s) = ?x" "HeapTupleGetRawXmax (htup s) = xmax_of_tuple env s"
    using bs by (auto simp: based_def)
  consider (comm) "bit ?m 8" | (inval) "\<not> bit ?m 8" "bit ?m 9" | (unknown) "\<not> bit ?m 8" "\<not> bit ?m 9" by blast
  then show ?thesis
  proof cases
    case comm
    then have "insert_done env s" using t(1) by (auto simp: insert_done_def truthful_def finished_commit_def header_bits)
    then show ?thesis using comm i by (simp add: Vacuum_xmin_def header_bits)
  next
    case inval
    then have "finished_abort env s ?x" using t(1) by (auto simp: truthful_def)
    then show ?thesis using inval i
      by (simp add: Vacuum_xmin_def header_bits vacuum_result_def Let_def finished_abort_def insert_done_def)
  next
    case unknown
    have pl: "vacuum_placed env s ?x" using r unknown by (simp add: vacuum_ready_def header_bits)
    have k: "known env s ?x" using pl by (simp add: vacuum_placed_def)
    have hint: "ok (SetHintBits env HEAP_XMIN_COMMITTED ?x) (s\<lparr>fcache := cache\<rparr>) (\<lambda>_ s'. inv env s s')"
      if "inv env s (s\<lparr>fcache := cache\<rparr>)" "finished_commit env s ?x" for cache
      by (rule ok_xmin_hint [OF that(1)]) (use unknown k that(2) in auto)
    have hint': "ok (SetHintBits env HEAP_XMIN_INVALID InvalidTransactionId) (s\<lparr>fcache := cache\<rparr>) (\<lambda>_ s'. inv env s s')"
      if "inv env s (s\<lparr>fcache := cache\<rparr>)" "finished_abort env s ?x" for cache
      by (rule ok_xmin_hint [OF that(1)]) (use unknown that(2) in auto)
    note S = vacuum_result_def Let_def insert_done_def finished_abort_def finished_commit_def header_bits flag_bits
    show ?thesis
      unfolding Vacuum_xmin_def ok_vread header_bits raw
      apply (simp only: unknown not_False_eq_True if_True if_False simp_thms ok_vbind)
      apply (rule ok_GetStatus [OF i pl g])
      subgoal premises c for cache
      proof (cases "TransactionIdIsCurrentTransactionId env ?x")
        case True
        then show ?thesis using c(1) unknown by (auto simp: S)
      next
        case cur: False
        show ?thesis
        proof (cases "TransactionIdIsInProgress s ?x")
          case True
          then show ?thesis using cur c(1) unknown by (simp add: S vacuum_status_def)
        next
          case False
          then show ?thesis
            using cur unknown c hint hint' loc vacuum_outcome [OF pl False] ok_vacuum_status [OF c(1) pl False refl]
            by (auto simp: S elim!: ok_mono)
        qed
      qed
      done
  qed
qed

definition delete_status :: "vis_env \<Rightarrow> TransactionId \<Rightarrow> vis_state \<Rightarrow> TransactionId \<Rightarrow> HTSV_Result" where
  "delete_status env OldestXmin s d =
     (if TransactionIdIsInProgress s d then HEAPTUPLE_DELETE_IN_PROGRESS
      else if \<not> committed env s d then HEAPTUPLE_LIVE
      else if d < OldestXmin then HEAPTUPLE_DEAD else HEAPTUPLE_RECENTLY_DEAD)"

lemma insert_done_result:
  "insert_done env s \<Longrightarrow> vacuum_result env OldestXmin s =
     (case deleter env (hdr s) of None \<Rightarrow> HEAPTUPLE_LIVE | Some d \<Rightarrow> delete_status env OldestXmin s d)"
  by (auto simp: insert_done_def vacuum_result_def Let_def delete_status_def split: option.splits)

lemma Vacuum_locked_ok:
  assumes r: "vacuum_ready env s0" and bs: "based env s0" and i: "inv env s0 s"
    and b: "\<not> bit (t_infomask (hdr s)) 11" and l: "locked_only (hdr s0)"
  shows "ok (Vacuum_locked env) s (\<lambda>b s'. b = HEAPTUPLE_LIVE \<and> inv env s0 s')"
proof -
  note E = inv_simps [OF i]
  have raw: "HeapTupleGetRawXmax (htup s) = xmax_of_tuple env s0" using inv_based [OF i bs] by simp
  have inval: "ok (SetHintBits env HEAP_XMAX_INVALID InvalidTransactionId) s1 (\<lambda>_ s'. inv env s0 s')" if "inv env s0 s1" for s1
    by (rule ok_xmax_invalid [OF that]) (use l in \<open>auto simp: deleter_cases\<close>)
  show ?thesis
  proof (cases "bit (t_infomask (hdr s0)) 12 \<or> bit (t_infomask (hdr s)) 10")
    case True
    then show ?thesis using inval [OF i] i E by (auto simp: Vacuum_locked_def flag_bits Let_def)
  next
    case False
    have "vacuum_placed env s0 (xmax_of_tuple env s0)" and g: "\<not> GTM_LITE_MODE (tenv env)"
      using r inv_hints(3) [OF i b] False by (auto simp: vacuum_ready_def)
    then have "ok (GetStatus env (xmax_of_tuple env s0)) s (\<lambda>st s'. inv env s0 s')"
      by (intro ok_GetStatus [OF i]) auto
    then show ?thesis using False E raw inval by (auto simp: Vacuum_locked_def flag_bits Let_def elim!: ok_mono)
  qed
qed

lemma Vacuum_multi_ok:
  assumes r: "vacuum_ready env s0" and i: "inv env s0 s"
    and b: "\<not> bit (t_infomask (hdr s)) 11" "bit (t_infomask (hdr s0)) 12" and l: "\<not> locked_only (hdr s0)"
    and d: "d = HeapTupleHeaderMultiXactGetUpdateXid env (hdr s0)"
  shows "ok (Vacuum_multi env OldestXmin) s (\<lambda>b s'. b = delete_status env OldestXmin s0 d \<and> inv env s0 s')"
proof -
  note E = inv_simps [OF i]
  have pl: "vacuum_placed env s0 d" using r inv_hints(3) [OF i b(1)] b(2) l by (simp add: vacuum_ready_def d)
  have u: "HeapTupleHeaderGetUpdateXid env (hdr s) = d"
    using b l E by (auto simp: HeapTupleHeaderGetUpdateXid_def flag_bits d locked_only_bits)
  have k: "known env s0 d" using pl by (simp add: vacuum_placed_def)
  have inval: "ok (SetHintBits env HEAP_XMAX_INVALID InvalidTransactionId) s1 (\<lambda>_ s'. inv env s0 s')"
    if "inv env s0 s1" "finished_abort env s0 d" for s1
    by (rule ok_xmax_invalid [OF that(1)]) (use l b d that in \<open>auto simp: deleter_cases\<close>)
  show ?thesis
  proof (cases "TransactionIdIsInProgress s0 d")
    case True
    then show ?thesis using u E i by (simp add: Vacuum_multi_def Let_def delete_status_def)
  next
    case False
    have fa: "\<not> committed env s0 d \<Longrightarrow> finished_abort env s0 d" using vacuum_outcome [OF pl False] by (auto simp: finished_commit_def)
    have "ok (DidCommit env d) s (\<lambda>c s'. inv env s0 s' \<and> c = committed env s0 d)" by (rule ok_DidCommit [OF i k]) auto
    then show ?thesis using False u E fa inval
      by (auto simp: Vacuum_multi_def Let_def delete_status_def TransactionIdPrecedes_def elim!: ok_mono)
  qed
qed

lemma Vacuum_xmax_ok:
  assumes r: "vacuum_ready env s0" and bs: "based env s0" and i: "inv env s0 s" and ins: "insert_done env s0"
  shows "ok (Vacuum_xmax env OldestXmin) s (\<lambda>b s'. b = vacuum_result env OldestXmin s0 \<and> inv env s0 s')"
proof -
  let ?m = "t_infomask (hdr s)" and ?d = "xmax_of_tuple env s0"
  note E = inv_simps [OF i] and R = insert_done_result [OF ins]
  have raw: "HeapTupleGetRawXmax (htup s) = ?d" using inv_based [OF i bs] by simp
  have g: "\<not> GTM_LITE_MODE (tenv env)" and loc: "unless_local env x = x" for x using r by (auto simp: vacuum_ready_def unless_local_def)
  consider (inval) "bit ?m 11" | (lock) "\<not> bit ?m 11" "locked_only (hdr s0)"
    | (multi) "\<not> bit ?m 11" "\<not> locked_only (hdr s0)" "bit (t_infomask (hdr s0)) 12"
    | (comm) "\<not> bit ?m 11" "\<not> locked_only (hdr s0)" "\<not> bit (t_infomask (hdr s0)) 12" "bit ?m 10"
    | (run) "\<not> bit ?m 11" "\<not> locked_only (hdr s0)" "\<not> bit (t_infomask (hdr s0)) 12" "\<not> bit ?m 10" by blast
  then show ?thesis
  proof cases
    case inval
    then show ?thesis using i inv_hints(1) [OF i inval] R
      by (auto simp: Vacuum_xmax_def flag_bits Let_def finished_abort_def delete_status_def split: option.splits)
  next
    case lock
    then show ?thesis using Vacuum_locked_ok [OF r bs i lock] E R by (auto simp: Vacuum_xmax_def flag_bits Let_def deleter_cases elim!: ok_mono)
  next
    case multi
    then show ?thesis using Vacuum_multi_ok [OF r i multi(1,3,2) refl, of OldestXmin] E R
      by (auto simp: Vacuum_xmax_def flag_bits Let_def deleter_cases)
  next
    case comm
    have "finished_commit env s0 ?d" by (rule inv_hints(2) [OF i comm(4,1)]) (use comm in \<open>simp add: deleter_cases\<close>)
    then show ?thesis using comm i E R raw loc
      by (auto simp: Vacuum_xmax_def flag_bits Let_def deleter_cases delete_status_def finished_commit_def TransactionIdPrecedes_def)
  next
    case run
    have d: "deleter env (hdr s0) = Some ?d" using run by (simp add: deleter_cases)
    have pl: "vacuum_placed env s0 ?d" using r inv_hints(3) [OF i run(1)] run by (simp add: vacuum_ready_def)
    have k: "known env s0 ?d" using pl by (simp add: vacuum_placed_def)
    have hint: "ok (SetHintBits env HEAP_XMAX_COMMITTED ?d) s1 (\<lambda>_ s'. inv env s0 s')" if "inv env s0 s1" "finished_commit env s0 ?d" for s1
      by (rule ok_xmax_committed [OF that(1) d k that(2)]) simp
    have inval: "ok (SetHintBits env HEAP_XMAX_INVALID InvalidTransactionId) s1 (\<lambda>_ s'. inv env s0 s')"
      if "inv env s0 s1" "finished_abort env s0 ?d" for s1
      by (rule ok_xmax_invalid [OF that(1)]) (use d that in auto)
    note S = delete_status_def finished_abort_def finished_commit_def TransactionIdPrecedes_def
    show ?thesis
      unfolding Vacuum_xmax_def ok_vread flag_bits Let_def raw E loc
      apply (simp only: run not_False_eq_True if_True if_False simp_thms ok_vbind)
      apply (rule ok_GetStatus [OF i pl g])
      subgoal premises c for cache
      proof (cases "TransactionIdIsInProgress s0 ?d")
        case True
        then show ?thesis using c(1) R d E(12) by (simp add: S vacuum_status_def)
      next
        case False
        then show ?thesis
          using c hint inval R d vacuum_outcome [OF pl False] ok_vacuum_status [OF c(1) pl False refl]
          by (auto simp: S elim!: ok_mono)
      qed
      done
  qed
qed

section \<open>Properties\<close>

lemma Vacuum_ok:
  assumes "vacuum_ready env s"
  shows "\<exists>s'. HeapTupleSatisfiesVacuum env OldestXmin isAnalyzing s = Some (Inr (vacuum_result env OldestXmin s, s')) \<and>
     inv env (with_bases env s) s'"
proof -
  let ?s = "with_bases env s"
  have r: "vacuum_ready env ?s" using assms by (simp add: with_bases_spec)
  have "ok (go_on (Vacuum_xmin env isAnalyzing) (Vacuum_xmax env OldestXmin)) ?s
      (\<lambda>b s'. b = vacuum_result env OldestXmin ?s \<and> inv env ?s s')"
    unfolding ok_go_on
    by (rule ok_mono [OF Vacuum_xmin_ok [OF r with_bases_based, of isAnalyzing OldestXmin]])
      (auto split: option.splits intro: Vacuum_xmax_ok [OF r with_bases_based])
  then show ?thesis
    by (auto simp: HeapTupleSatisfiesVacuum_def vthen_def vbind_def vmod_def ok_def with_bases_def [symmetric] with_bases_spec)
qed


lemma demo_vacuum_placed:
  assumes "vis_demo_logs logs" "x \<in> {100, 101}"
  shows "vacuum_placed vis_demo_env (vis_demo_state xmin xmax m logs) x"
proof -
  have "settled logs x CLOG_XID_STATUS_COMMITTED"
    using assms(2) vis_demo_facts [OF assms(1), of x] demo_csn(2) demo_normal [of x]
    by (auto simp: settled_def csn_final_for_def)
  then show ?thesis using assms(2) vis_demo_sane(2) [OF assms(1), of x] by (auto simp: vacuum_placed_def word_less_nat_alt)
qed

lemma demo_vacuum_ready:
  assumes "vis_demo_logs logs"
  shows "vacuum_ready vis_demo_env (vis_demo_state 100 101 0 logs)"
    "vacuum_result vis_demo_env 102 (vis_demo_state 100 101 0 logs) = HEAPTUPLE_DEAD"
    "vacuum_result vis_demo_env 101 (vis_demo_state 100 101 0 logs) = HEAPTUPLE_RECENTLY_DEAD"
  using vis_demo_ready(2) [OF assms] demo_vacuum_placed [OF assms, of 100 100 101 0] demo_vacuum_placed [OF assms, of 101 100 101 0]
    vis_demo_sane(3) [OF assms, of 100 100 101 0] vis_demo_sane(3) [OF assms, of 101 100 101 0]
  by (simp_all add: vacuum_ready_def ready_def vis_demo_xids vacuum_result_def Let_def header_bits deleter_cases locked_only_bits
      word_less_nat_alt) (simp_all add: trans_demo_env_def)


text \<open>The state of another session that looks at the same row version at the same time.\<close>

definition same_row :: "vis_env \<Rightarrow> vis_state \<Rightarrow> vis_env \<Rightarrow> vis_state \<Rightarrow> bool" where
  "same_row env s env' s' \<longleftrightarrow> hdr s' = hdr s \<and> vlogs s' = vlogs s \<and> TransactionIdIsInProgress s' = TransactionIdIsInProgress s \<and>
     pd_xid_base env' = pd_xid_base env \<and> pd_multi_base env' = pd_multi_base env \<and>
     GetMultiXactIdMembers env' = GetMultiXactIdMembers env \<and>
     (\<forall>x. TransactionIdIsCurrentTransactionId env' x \<longrightarrow> TransactionIdIsInProgress s' x)"

lemma same_row_eqs:
  assumes "same_row env s env' s'" "local_fetch (tenv env)" "local_fetch (tenv env')"
  shows "xmin_of_tuple env' s' = xmin_of_tuple env s" "deleter env' (hdr s') = deleter env (hdr s)"
  using assms by (auto simp: same_row_def HeapTupleHeaderGetXmin_def HeapTupleHeaderGetXmax_def deleter_def local_fetch_def
      HeapTupleHeaderMultiXactGetUpdateXid_def MultiXactIdGetUpdateXid_def HeapTupleHeaderGetRawXmax_def)

lemma dead_invisible:
  assumes r: "vacuum_ready env s" and dead: "vacuum_result env OldestXmin s = HEAPTUPLE_DEAD"
    and row: "same_row env s env' s'" and m: "mvcc_ready env' snapshot s'" and o: "OldestXmin \<le> snap_xmin snapshot"
  shows "\<not> mvcc_visible env' snapshot s'"
proof -
  have lf: "local_fetch (tenv env)" "local_fetch (tenv env')" using r m by (auto simp: vacuum_ready_def mvcc_ready_def sane_def)
  note eq = same_row_eqs [OF row lf]
  have st: "hdr s' = hdr s" "vlogs s' = vlogs s" "TransactionIdIsInProgress s' = TransactionIdIsInProgress s"
    and cur: "\<And>x. TransactionIdIsCurrentTransactionId env' x \<Longrightarrow> TransactionIdIsInProgress s x"
    using row by (auto simp: same_row_def)
  let ?x = "xmin_of_tuple env s"
  consider (insert) "\<not> HeapTupleHeaderXminFrozen (hdr s)" "\<not> TransactionIdIsInProgress s ?x" "\<not> committed env s ?x"
    | (del) d where "deleter env (hdr s) = Some d" "\<not> TransactionIdIsInProgress s d" "committed env s d" "d < OldestXmin"
    using dead by (auto simp: vacuum_result_def Let_def split: if_splits option.splits)
  then show ?thesis
  proof cases
    case insert
    have "settled (vlogs s) ?x CLOG_XID_STATUS_ABORTED"
      using r insert vacuum_outcome [of env s ?x] by (auto simp: vacuum_ready_def finished_commit_def)
    then have "\<not> sees snapshot s' ?x" using settled_outcome(2) [of s'] st(2) by auto
    moreover have "\<not> own_insert env' s'" using cur insert(2) eq(1) by (auto simp: own_insert_def)
    ultimately show ?thesis using insert(1) st(1) eq(1) by (simp add: mvcc_visible_def)
  next
    case (del d)
    have nc: "\<not> TransactionIdIsCurrentTransactionId env' d" using cur del(2) by blast
    have b11: "\<not> bit (t_infomask (hdr s)) 11" using r del by (auto simp: vacuum_ready_def truthful_def finished_abort_def)
    then have "vacuum_placed env s d" using r del(1) by (auto simp: vacuum_ready_def deleter_cases split: if_splits)
    then have C: "settled (vlogs s) d CLOG_XID_STATUS_COMMITTED"
      using vacuum_outcome [of env s d] del(2,3) by (auto simp: finished_abort_def)
    have nown: "\<not> own_insert env' s'"
    proof
      assume "own_insert env' s'"
      then have "finished_abort env' s' d"
        using m nc del(1) eq by (auto simp: mvcc_ready_def truthful_def own_insert_def)
      then show False using settled_outcome(1) [of s' d env'] C st(2) by (simp add: finished_abort_def)
    qed
    have "placed env' snapshot s' d" using m b11 del(1) st(1) eq(2) by (simp add: mvcc_ready_def)
    then have "sees snapshot s' d"
      using nc
    proof (cases rule: placed_cases)
      case (commits v)
      then show ?thesis using del(4) o by auto
    next
      case aborts
      then show ?thesis using C st(2) by (simp add: settled_def)
    qed (use del(2) st(3) in auto)
    then show ?thesis using nown nc del(1) eq(2) by (auto simp: mvcc_visible_def)
  qed
qed



lemma surely_dead_result:
  assumes r: "vacuum_ready env s" and sd: "HeapTupleIsSurelyDead (htup s) OldestXmin" and b: "based env s"
  shows "vacuum_result env OldestXmin s = HEAPTUPLE_DEAD"
proof (cases "bit (t_infomask (hdr s)) 8")
  case False
  then have "bit (t_infomask (hdr s)) 9" using sd by (simp add: HeapTupleIsSurelyDead_def Let_def header_bits)
  then have "finished_abort env s (xmin_of_tuple env s)" using r False by (auto simp: vacuum_ready_def truthful_def)
  then show ?thesis using False by (simp add: vacuum_result_def Let_def header_bits finished_abort_def)
next
  case True
  then have f: "\<not> bit (t_infomask (hdr s)) 11" "\<not> locked_only (hdr s)" "\<not> bit (t_infomask (hdr s)) 12" "bit (t_infomask (hdr s)) 10"
    and o: "xmax_of_tuple env s < OldestXmin"
    using sd b by (auto simp: HeapTupleIsSurelyDead_def Let_def header_bits flag_bits TransactionIdPrecedes_def based_def split: if_splits)
  have d: "deleter env (hdr s) = Some (xmax_of_tuple env s)" using f by (simp add: deleter_cases)
  have "finished_commit env s (xmax_of_tuple env s)" using r d f by (auto simp: vacuum_ready_def truthful_def)
  moreover have "insert_done env s"
    using r True by (auto simp: vacuum_ready_def truthful_def insert_done_def finished_commit_def header_bits)
  ultimately show ?thesis using insert_done_result d o by (simp add: delete_status_def finished_commit_def)
qed



end
