(* ===== verification/Spec2Isabelle.thy ===== *)
theory Spec2Isabelle
  imports Bitmapset_Interface Binary_Heap Free_Space_Properties Clog_Group
    Heap_Update Heap_Vacuum
begin

text \<open>
  \<^bold>\<open>Verification of the storage core of openGauss.\<close>

  openGauss is a relational database server in C++, under \<^verbatim>\<open>src/src\<close>. Its kernel is the directory
  \<^verbatim>\<open>gausskernel\<close>: the optimizer and executor work on plans, the storage engine below them keeps
  relations as pages, and the transaction manager decides which row versions a query sees.
  \<^verbatim>\<open>common\<close> has the parser, the catalogs, the data types and the utilities everything uses. This
  development takes the parts of the storage engine that are algorithms over state of their own,
  and the data structures they and the planner use, from the bottom up.

  \<^bold>\<open>Parts and theories.\<close>

  \<^item> \<^verbatim>\<open>OG_Prelude\<close>: machine integers as words, results that may be an error, loops over lists that
    stop at an error, facts on bits.

  \<^item> \<^verbatim>\<open>Bit_Utils\<close>: \<^verbatim>\<open>common/port/pg_bitutils.cpp\<close> and its header: the byte tables, the rightmost-one
    and popcount loops, shown to find the least set bit and the number of set bits.

  \<^item> \<^verbatim>\<open>Bitmapset_Model\<close>, \<^verbatim>\<open>Bitmapset\<close>, \<^verbatim>\<open>Bitmapset_Interface\<close>: \<^verbatim>\<open>common/backend/nodes/bitmapset.cpp\<close>. A null
    pointer is \<open>None\<close>, a set is a record with its words. The interface theory states the contract
    as a locale of sets with union, intersection, difference, tests, counting and enumeration,
    and interprets it on the model.

  \<^item> \<^verbatim>\<open>Binary_Heap\<close>: \<^verbatim>\<open>common/backend/lib/binaryheap.cpp\<close> with the comparator of
    \<^verbatim>\<open>replication/logical/reorderbuffer.cpp\<close>: heap property, multiset of nodes, the order in which
    the merge of change streams is drained.

  \<^item> \<^verbatim>\<open>FSM_Page\<close>: \<^verbatim>\<open>storage/freespace/fsmpage.cpp\<close>, one page of the free space map: a binary
    tree of categories in an array, its invariant, the search with its repair of torn pages.

  \<^item> \<^verbatim>\<open>Free_Space_Model\<close>, \<^verbatim>\<open>Free_Space\<close>, \<^verbatim>\<open>Free_Space_Properties\<close>: \<^verbatim>\<open>storage/freespace/freespace.cpp\<close>,
    the tree of such pages in the map fork of a relation: addressing, recording, searching,
    the bulk update, truncation and vacuum.

  \<^item> \<^verbatim>\<open>Commit_Log_Model\<close>, \<^verbatim>\<open>Commit_Log\<close>, \<^verbatim>\<open>Commit_Log_Properties\<close>, \<^verbatim>\<open>Clog_Group\<close>:
    \<^verbatim>\<open>storage/access/transam/clog.cpp\<close>, two status bits per transaction. The locale \<open>status_log\<close> is the
    contract of a log of outcomes; \<open>clog\<close> interprets it on the model. \<^verbatim>\<open>Clog_Group\<close> has the
    group update of concurrent commits as a step relation over any number of backends.

  \<^item> \<^verbatim>\<open>CSN_Log_Model\<close>, \<^verbatim>\<open>CSN_Log\<close>, \<^verbatim>\<open>CSN_Log_Properties\<close>: \<^verbatim>\<open>storage/access/transam/csnlog.cpp\<close>, the
    commit sequence numbers and the parents of subtransactions.

  \<^item> \<^verbatim>\<open>Trans_Log_Model\<close>, \<^verbatim>\<open>Trans_Log\<close>, \<^verbatim>\<open>Trans_History\<close>, \<^verbatim>\<open>Trans_Log_Properties\<close>:
    \<^verbatim>\<open>storage/access/transam/transam.cpp\<close>, the interface over both logs with the caches of a thread.
    \<open>trans\<close> interprets \<open>status_log\<close> on the two logs together.

  \<^item> \<^verbatim>\<open>Heap_Tuple_Model\<close>, \<^verbatim>\<open>Heap_Visibility_Model\<close>, \<^verbatim>\<open>Heap_MVCC_Model\<close>, \<^verbatim>\<open>Heap_Hints\<close>, \<^verbatim>\<open>Heap_Visibility\<close>,
    \<^verbatim>\<open>Heap_Visibility_Properties\<close>, \<^verbatim>\<open>Heap_Update\<close>, \<^verbatim>\<open>Heap_Snapshot\<close>, \<^verbatim>\<open>Heap_MVCC_Properties\<close>, \<^verbatim>\<open>Heap_Vacuum\<close>: \<^verbatim>\<open>storage/access/heap/heapam_visibility.cpp\<close> with the tuple header of
    \<^verbatim>\<open>include/access/htup.h\<close>, the snapshot tests of \<^verbatim>\<open>common/backend/utils/time/snapmgr.cpp\<close> and the combined
    command numbers of \<^verbatim>\<open>combocid.cpp\<close>. The models have every check; \<^verbatim>\<open>Heap_Hints\<close> has the rules that
    follow a check step by step and says what truthful hint bits are.

  \<^bold>\<open>State and errors.\<close> A structure of the source is a record with its field names, an enumeration a
  datatype. A page pool is a partial map from page numbers to pages: a page it does not hold is the
  read error of the source. What a function reads of the session, the server or another thread is a
  field of an environment record. An \<^verbatim>\<open>ereport(ERROR)\<close> or \<^verbatim>\<open>PANIC\<close> is a value of an error datatype in
  the left half of a sum. History variables (\<open>released\<close>, \<open>shown\<close>) record what other threads could
  see each time a lock was released; no operation reads them.

  \<^bold>\<open>What is shown.\<close> Bitmap sets refine finite sets of numbers, in every operation and test, with
  the loops over members ending and visiting them in order. The heap operations keep the heap
  property and the nodes. A free space map page keeps its invariant, the search finds a slot exactly
  when there is one, and repairs every torn page within two passes; a block the map returns
  was recorded with enough space. A commit over several log pages is atomic for other threads, in
  both logs; outcomes are never lost or changed through any history of commits and aborts; the
  leader of a group update serves every member it took. A finished transaction is reported with its
  outcome by every routine, whatever the caches, the snapshot and the horizon. The visibility checks
  decide from the outcomes of the transactions, whatever truthful hint bits a row version has, and
  leave only truthful ones; the check for an MVCC snapshot decides by the commit sequence numbers,
  and what vacuum finds dead no snapshot in use sees.

  \<^bold>\<open>Bounds and fuel.\<close> The loops of the bitmap sets are structural or have a measure; the loops over
  members of the contract run with the number of words as their bound, one more than they need. The
  search of a map page passes at most twice over it, which the theorem on its return shows to be
  enough; the search of the map has 50000 rounds, more than the 10002 restarts of at
  most four levels that its emergency valve allows. The bulk update has fuel; that it ends, and the
  one case in which it does not, are theorems. The walks along the parents in the CSN log are
  partial functions with the value \<open>None\<close> when they go on for ever; they are shown to return on logs
  whose parents precede their children.

  \<^bold>\<open>Not modelled.\<close> The SLRU buffer pool and the buffer manager, which move pages between memory
  and files; write-ahead logging and recovery; truncation, checkpoint and redo of the two logs; memory
  allocation (the functions that only free memory). The transaction state machine
  and the process array are parameters of the checks; the lock manager, the B-tree and the
  executor are open. The manifest lists every part.
\<close>

end
